(* ===== verification/Prelude.thy ===== *)
theory Prelude
  imports Main "HOL-Library.Word"
begin

text \<open>
  Shared vocabulary of the development: the machine integer types the C++ sources use, the
  little-endian memory image of an integer (what \<^verbatim>\<open>memcpy\<close> of an integer sees on the
  x86-64 hosts the sources are written for), byte swapping, association lists that stand for
  the sources' hash maps in iteration order, and the named collections the component theories
  fill.
\<close>

unbundle bit_operations_syntax

named_theorems robims_simps
named_theorems graph_simps
named_theorems log_simps

type_synonym byte = "8 word"
type_synonym u8 = "8 word"
type_synonym u32 = "32 word"
type_synonym u64 = "64 word"
type_synonym i64 = "64 word"  \<comment> \<open>two's complement, read with \<^term>\<open>sint\<close>\<close>

section \<open>Integers in memory\<close>

fun le_bytes :: "nat \<Rightarrow> 'a::len word \<Rightarrow> byte list" where
  "le_bytes 0 w = []"
| "le_bytes (Suc n) w = ucast w # le_bytes n (drop_bit 8 w)"

fun of_le_bytes :: "byte list \<Rightarrow> 'a::len word" where
  "of_le_bytes [] = 0"
| "of_le_bytes (b # bs) = ucast b OR push_bit 8 (of_le_bytes bs)"

lemma length_le_bytes [simp]: "length (le_bytes n w) = n"
  by (induction n arbitrary: w) auto

lemma of_le_bytes_le_bytes:
  "of_le_bytes (le_bytes n w) = take_bit (8 * n) (w :: 'a::len word)"
proof (induction n arbitrary: w)
  case 0
  show ?case by simp
next
  case (Suc n)
  have "ucast (ucast w :: byte) OR push_bit 8 (take_bit (8 * n) (drop_bit 8 w))
      = take_bit (8 * Suc n) w"
    by (rule bit_word_eqI)
       (auto simp: bit_or_iff bit_push_bit_iff bit_take_bit_iff bit_drop_bit_eq bit_unsigned_iff)
  with Suc show ?case by simp
qed

lemma le_bytes_of_le_bytes:
  assumes "8 * length bs \<le> LENGTH('a)"
  shows "le_bytes (length bs) (of_le_bytes bs :: 'a::len word) = bs"
  using assms
proof (induction bs)
  case Nil
  show ?case by simp
next
  case (Cons b bs)
  let ?r = "of_le_bytes bs :: 'a word"
  have low: "ucast (ucast b OR push_bit 8 ?r) = b"
    using Cons.prems
    by (intro bit_word_eqI)
       (auto simp: bit_or_iff bit_push_bit_iff bit_unsigned_iff dest: bit_imp_le_length)
  have top: "\<not> bit ?r k" if "LENGTH('a) - 8 \<le> k" for k
  proof
    assume k: "bit ?r k"
    have "take_bit (8 * length bs) ?r = ?r"
      using of_le_bytes_le_bytes[of "length bs" ?r] Cons by simp
    with k have "k < 8 * length bs" by (metis bit_take_bit_iff)
    with that Cons.prems show False by simp
  qed
  have high: "drop_bit 8 (ucast b OR push_bit 8 ?r) = ?r"
  proof (rule bit_word_eqI)
    fix k assume "k < LENGTH('a)"
    show "bit (drop_bit 8 (ucast b OR push_bit 8 ?r)) k = bit ?r k"
      using top[of k] bit_imp_le_length[of b "8 + k"]
      by (cases "8 + k < LENGTH('a)")
         (auto simp: bit_drop_bit_eq bit_or_iff bit_push_bit_iff bit_unsigned_iff
               dest: bit_imp_le_length)
  qed
  show ?case using low high Cons by simp
qed

definition mem32 :: "u32 \<Rightarrow> byte list" where
  "mem32 w = le_bytes 4 w"

definition of_mem32 :: "byte list \<Rightarrow> u32" where
  "of_mem32 bs = of_le_bytes bs"

definition mem64 :: "u64 \<Rightarrow> byte list" where
  "mem64 w = le_bytes 8 w"

definition of_mem64 :: "byte list \<Rightarrow> u64" where
  "of_mem64 bs = of_le_bytes bs"

lemma length_mem [simp]: "length (mem32 w) = 4" "length (mem64 v) = 8"
  by (simp_all add: mem32_def mem64_def)

lemma mem_not_Nil [simp]: "mem32 w \<noteq> []" "mem64 v \<noteq> []"
  using length_mem by (metis list.size(3) zero_neq_numeral)+

lemma of_mem32_mem32 [simp]: "of_mem32 (mem32 w) = w"
  using of_le_bytes_le_bytes[of 4 w]
  by (simp add: mem32_def of_mem32_def take_bit_word_eq_self)

lemma of_mem64_mem64 [simp]: "of_mem64 (mem64 w) = w"
  using of_le_bytes_le_bytes[of 8 w]
  by (simp add: mem64_def of_mem64_def take_bit_word_eq_self)

lemma mem32_of_mem32 [simp]: "length bs = 4 \<Longrightarrow> mem32 (of_mem32 bs) = bs"
  using le_bytes_of_le_bytes[of bs, where ?'a = 32] by (simp add: mem32_def of_mem32_def)

lemma mem64_of_mem64 [simp]: "length bs = 8 \<Longrightarrow> mem64 (of_mem64 bs) = bs"
  using le_bytes_of_le_bytes[of bs, where ?'a = 64] by (simp add: mem64_def of_mem64_def)

text \<open>The byte order conversion of \<^verbatim>\<open>arpa/inet.h\<close> on a little-endian host.\<close>

definition bswap32 :: "u32 \<Rightarrow> u32" where
  "bswap32 w = of_mem32 (rev (mem32 w))"

lemma mem32_bswap32: "mem32 (bswap32 w) = rev (mem32 w)"
  by (simp add: bswap32_def)

lemma bswap32_bswap32 [simp]: "bswap32 (bswap32 w) = w"
  by (simp add: bswap32_def)

section \<open>Association lists\<close>

text \<open>
  The sources keep hash maps from \<^verbatim>\<open>folly\<close> and \<^verbatim>\<open>absl\<close>. They are association lists here, in
  the order an iteration over the container visits the entries; theorems hold for every such
  order. \<open>al_put\<close> is \<^verbatim>\<open>m[k] = v\<close>.
\<close>

fun al_put :: "'k \<Rightarrow> 'v \<Rightarrow> ('k \<times> 'v) list \<Rightarrow> ('k \<times> 'v) list" where
  "al_put k v [] = [(k, v)]"
| "al_put k v ((k', v') # m) = (if k = k' then (k, v) # m else (k', v') # al_put k v m)"

definition al_erase :: "'k \<Rightarrow> ('k \<times> 'v) list \<Rightarrow> ('k \<times> 'v) list" where
  "al_erase k m = filter (\<lambda>p. fst p \<noteq> k) m"

lemma map_of_al_put [simp]: "map_of (al_put k v m) = (map_of m)(k \<mapsto> v)"
  by (induction k v m rule: al_put.induct) (auto simp: fun_eq_iff)

lemma keys_al_put [simp]: "fst ` set (al_put k v m) = insert k (fst ` set m)"
  by (induction k v m rule: al_put.induct) auto

lemma distinct_al_put [simp]: "distinct (map fst m) \<Longrightarrow> distinct (map fst (al_put k v m))"
proof (induction k v m rule: al_put.induct)
  case (2 k v k' v' m)
  then show ?case using keys_al_put[of k v m] by (auto simp del: keys_al_put)
qed simp

lemma map_of_al_erase [simp]: "map_of (al_erase k m) = (map_of m)(k := None)"
  by (induction m) (auto simp: al_erase_def fun_eq_iff)

lemma distinct_al_erase [simp]: "distinct (map fst m) \<Longrightarrow> distinct (map fst (al_erase k m))"
  by (induction m) (auto simp: al_erase_def)

lemma keys_al_erase [simp]: "fst ` set (al_erase k m) = fst ` set m - {k}"
  by (induction m) (auto simp: al_erase_def)

lemma al_put_fresh: "k \<notin> fst ` set m \<Longrightarrow> al_put k v m = m @ [(k, v)]"
  by (induction k v m rule: al_put.induct) auto

text \<open>
  A loop that enters items under their keys and records in a flag that a key was present already.
\<close>

lemma fold_al_put_flag:
  assumes "distinct (map fst m @ map key ys)"
  shows "fold (\<lambda>y s. (fst s \<or> key y \<in> fst ` set (snd s), al_put (key y) (val y) (snd s))) ys (False, m)
    = (False, m @ map (\<lambda>y. (key y, val y)) ys)"
  using assms
proof (induction ys arbitrary: m)
  case Nil
  then show ?case by simp
next
  case (Cons y ys)
  then have "key y \<notin> fst ` set m" by force
  then show ?case using Cons by (simp add: al_put_fresh)
qed

lemma distinct_fold_al_put:
  "distinct (map fst m) \<Longrightarrow> distinct (map fst (fold (\<lambda>v m. al_put (key v) (val v) m) vs m))"
  by (induction vs arbitrary: m) simp_all

lemma map_of_fold_al_put_other:
  "k \<notin> key ` set vs \<Longrightarrow> map_of (fold (\<lambda>v m. al_put (key v) (val v) m) vs m) k = map_of m k"
  by (induction vs arbitrary: m) auto

lemma map_of_fold_al_put:
  assumes "inj_on key (set vs)" "u \<in> set vs"
  shows "map_of (fold (\<lambda>v m. al_put (key v) (val v) m) vs m) (key u) = Some (val u)"
  using assms
proof (induction vs arbitrary: m)
  case Nil
  then show ?case by simp
next
  case (Cons v vs)
  show ?case
  proof (cases "u \<in> set vs")
    case True
    then show ?thesis using Cons by simp
  next
    case False
    then have "u = v" using Cons.prems by simp
    moreover have "key u \<notin> key ` set vs" using Cons.prems False by (auto simp: inj_on_def)
    ultimately show ?thesis by (simp add: map_of_fold_al_put_other)
  qed
qed

lemma map_of_map_values:
  "map_of (map (\<lambda>(k, v). (k, f v)) m) k = map_option f (map_of m k)"
  by (induction m) auto

text \<open>A comprehension over an explicit finite set, evaluated element by element.\<close>

lemma filter_insert:
  "{x \<in> insert a S. P x} = (if P a then insert a {x \<in> S. P x} else {x \<in> S. P x})"
  "{x \<in> {}. P x} = {}"
  by auto

section \<open>Conversions\<close>

lemma unat_ucast_u64 [simp]: "unat (ucast (k :: u32) :: u64) = unat k"
  using unsigned_less[of k, where ?'a = nat]
  by (simp add: unsigned_ucast_eq take_bit_nat_eq_self)

lemma unat_ucast_u32: "unat w < 2 ^ 32 \<Longrightarrow> unat (ucast (w :: u64) :: u32) = unat w"
  by (simp add: unsigned_ucast_eq take_bit_nat_eq_self)

lemma unat_of_nat_small: "n < 2 ^ 64 \<Longrightarrow> unat (of_nat n :: u64) = n"
  by (simp add: unat_of_nat)

lemma ucast_ucast_u32 [simp]: "ucast (ucast (k :: u32) :: u64) = k"
  by (subst word_unat_eq_iff)
    (use unsigned_less[of k, where ?'a = nat] in \<open>simp add: unat_ucast_u32\<close>)

end
