(* ===== verification/Roaring.thy ===== *)
theory Roaring
  imports Prelude
begin

text \<open>
  The interface of the CRoaring library (\<^verbatim>\<open>roaring/roaring.h\<close>), which the \<^verbatim>\<open>robims\<close> sources
  call and which is not part of the repository. Its functions are the fields of a record, so a
  model of \<^verbatim>\<open>robims\<close> code takes the library as an argument. An in-place operation is the
  function from the old content of its first argument to the new one. The locale
  \<open>roaring_api\<close> holds the documented behaviour the code relies on; the list instance at the end
  shows that the laws can be met.
\<close>

record 'b roaring =
  rb_create :: 'b
  rb_clear :: "'b \<Rightarrow> 'b"
  rb_overwrite :: "'b \<Rightarrow> 'b \<Rightarrow> 'b"
  rb_add :: "'b \<Rightarrow> u32 \<Rightarrow> 'b"
  rb_remove :: "'b \<Rightarrow> u32 \<Rightarrow> 'b"
  rb_contains :: "'b \<Rightarrow> u32 \<Rightarrow> bool"
  rb_is_empty :: "'b \<Rightarrow> bool"
  rb_cardinality :: "'b \<Rightarrow> u64"
  rb_and :: "'b \<Rightarrow> 'b \<Rightarrow> 'b"
  rb_or :: "'b \<Rightarrow> 'b \<Rightarrow> 'b"
  rb_xor :: "'b \<Rightarrow> 'b \<Rightarrow> 'b"
  rb_andnot :: "'b \<Rightarrow> 'b \<Rightarrow> 'b"
  rb_to_array :: "'b \<Rightarrow> u32 list"
  rb_range_array :: "'b \<Rightarrow> nat \<Rightarrow> nat \<Rightarrow> u32 list"
  rb_run_optimize :: "'b \<Rightarrow> 'b"
  rb_shrink_to_fit :: "'b \<Rightarrow> 'b"
  rb_serialize :: "'b \<Rightarrow> byte list"
  rb_deserialize :: "byte list \<Rightarrow> 'b option"
  rb_frozen_serialize :: "'b \<Rightarrow> byte list"
  rb_frozen_view :: "byte list \<Rightarrow> 'b option"

text \<open>The set of identifiers a bitmap holds.\<close>

definition rb_bits :: "'b roaring \<Rightarrow> 'b \<Rightarrow> u32 set" where
  "rb_bits R b = {x. rb_contains R b x}"

lemma finite_u32 [simp]: "finite (S :: u32 set)"
  by simp

lemma rb_contains_iff: "rb_contains R b x \<longleftrightarrow> x \<in> rb_bits R b"
  by (simp add: rb_bits_def)

locale roaring_api =
  fixes R :: "'b roaring"
  assumes bits_create: "rb_bits R (rb_create R) = {}"
    and bits_clear: "rb_bits R (rb_clear R b) = {}"
    and bits_overwrite: "rb_bits R (rb_overwrite R d b) = rb_bits R b"
    and bits_add: "rb_bits R (rb_add R b x) = insert x (rb_bits R b)"
    and bits_remove: "rb_bits R (rb_remove R b x) = rb_bits R b - {x}"
    and bits_and: "rb_bits R (rb_and R b c) = rb_bits R b \<inter> rb_bits R c"
    and bits_or: "rb_bits R (rb_or R b c) = rb_bits R b \<union> rb_bits R c"
    and bits_xor: "rb_bits R (rb_xor R b c)
          = (rb_bits R b - rb_bits R c) \<union> (rb_bits R c - rb_bits R b)"
    and bits_andnot: "rb_bits R (rb_andnot R b c) = rb_bits R b - rb_bits R c"
    and bits_run_optimize: "rb_bits R (rb_run_optimize R b) = rb_bits R b"
    and bits_shrink_to_fit: "rb_bits R (rb_shrink_to_fit R b) = rb_bits R b"
    and is_empty_iff: "rb_is_empty R b \<longleftrightarrow> rb_bits R b = {}"
    and cardinality: "unat (rb_cardinality R b) = card (rb_bits R b)"
    and sorted_to_array: "sorted (rb_to_array R b)"
    and distinct_to_array: "distinct (rb_to_array R b)"
    and set_to_array: "set (rb_to_array R b) = rb_bits R b"
    and range_array: "rb_range_array R b off lim = take lim (drop off (rb_to_array R b))"
    and serialize_nonempty: "rb_serialize R b \<noteq> []" "rb_frozen_serialize R b \<noteq> []"
    and deserialize_serialize:
      "\<exists>c. rb_deserialize R (rb_serialize R b) = Some c \<and> rb_bits R c = rb_bits R b"
    and frozen_view_serialize:
      "\<exists>c. rb_frozen_view R (rb_frozen_serialize R b) = Some c \<and> rb_bits R c = rb_bits R b"
begin

lemmas bits_laws = bits_create bits_clear bits_overwrite bits_add bits_remove bits_and bits_or
  bits_xor bits_andnot bits_run_optimize bits_shrink_to_fit

declare bits_laws [simp] is_empty_iff [simp] set_to_array [simp] distinct_to_array [simp]

lemma cardinality_eq_0 [simp]: "rb_cardinality R b = 0 \<longleftrightarrow> rb_bits R b = {}"
proof -
  have "rb_cardinality R b = 0 \<longleftrightarrow> unat (rb_cardinality R b) = 0"
    by (simp add: unat_eq_zero)
  also have "\<dots> \<longleftrightarrow> rb_bits R b = {}"
    unfolding cardinality by (rule card_0_eq) (rule finite_u32)
  finally show ?thesis .
qed

lemma cardinality_pos [simp]: "0 < rb_cardinality R b \<longleftrightarrow> rb_bits R b \<noteq> {}"
  by (simp add: word_gt_0)

lemma card_bits_le: "card (rb_bits R b) \<le> 2 ^ 32"
proof -
  have "card (rb_bits R b) \<le> card (UNIV :: u32 set)"
    by (rule card_mono) simp_all
  then show ?thesis by (simp add: card_word)
qed

lemma length_to_array: "length (rb_to_array R b) = card (rb_bits R b)"
  using distinct_card[OF distinct_to_array, of b] by simp

lemma to_array_eq_Nil [simp]: "rb_to_array R b = [] \<longleftrightarrow> rb_bits R b = {}"
  using set_to_array[of b] by (simp del: set_to_array flip: set_empty)

lemma cardinality_cong: "rb_bits R b = rb_bits R c \<Longrightarrow> rb_cardinality R b = rb_cardinality R c"
  by (simp add: word_unat_eq_iff cardinality)

lemma to_array_cong: "rb_bits R b = rb_bits R c \<Longrightarrow> rb_to_array R b = rb_to_array R c"
  by (rule sorted_distinct_set_unique) (simp_all add: sorted_to_array)

end

section \<open>A reference instance\<close>

text \<open>
  A bitmap as a list of its members. Serialisation writes a marker byte and then the members,
  four little-endian bytes each.
\<close>

definition list_bits_encode :: "u32 list \<Rightarrow> byte list" where
  "list_bits_encode b = 0 # concat (map mem32 b)"

fun list_bits_chunks :: "byte list \<Rightarrow> u32 list" where
  "list_bits_chunks (a # b # c # d # bs) = of_mem32 [a, b, c, d] # list_bits_chunks bs"
| "list_bits_chunks _ = []"

fun list_bits_decode :: "byte list \<Rightarrow> u32 list option" where
  "list_bits_decode [] = None"
| "list_bits_decode (m # bs) = (if length bs mod 4 = 0 then Some (list_bits_chunks bs) else None)"

definition list_roaring :: "u32 list roaring" where
  "list_roaring = \<lparr>
     rb_create = [],
     rb_clear = (\<lambda>_. []),
     rb_overwrite = (\<lambda>_ b. b),
     rb_add = (\<lambda>b x. x # b),
     rb_remove = (\<lambda>b x. removeAll x b),
     rb_contains = (\<lambda>b x. x \<in> set b),
     rb_is_empty = (\<lambda>b. b = []),
     rb_cardinality = (\<lambda>b. of_nat (length (remdups b))),
     rb_and = (\<lambda>b c. filter (\<lambda>x. x \<in> set c) b),
     rb_or = (\<lambda>b c. b @ c),
     rb_xor = (\<lambda>b c. filter (\<lambda>x. x \<notin> set c) b @ filter (\<lambda>x. x \<notin> set b) c),
     rb_andnot = (\<lambda>b c. filter (\<lambda>x. x \<notin> set c) b),
     rb_to_array = (\<lambda>b. sort (remdups b)),
     rb_range_array = (\<lambda>b off lim. take lim (drop off (sort (remdups b)))),
     rb_run_optimize = (\<lambda>b. b),
     rb_shrink_to_fit = (\<lambda>b. b),
     rb_serialize = list_bits_encode,
     rb_deserialize = list_bits_decode,
     rb_frozen_serialize = list_bits_encode,
     rb_frozen_view = list_bits_decode\<rparr>"

lemma list_bits_chunks_mem32: "list_bits_chunks (mem32 x @ bs) = x # list_bits_chunks bs"
proof -
  obtain a b c d where m: "mem32 x = [a, b, c, d]"
    by (simp add: mem32_def eval_nat_numeral)
  then have "of_mem32 [a, b, c, d] = x" by (metis of_mem32_mem32)
  with m show ?thesis by simp
qed

lemma list_bits_decode_encode: "list_bits_decode (list_bits_encode b) = Some b"
proof -
  have "list_bits_chunks (concat (map mem32 b)) = b"
    by (induction b) (auto simp: list_bits_chunks_mem32)
  moreover have "length (concat (map mem32 b)) = 4 * length b"
    by (induction b) auto
  ultimately show ?thesis by (simp add: list_bits_encode_def)
qed

lemma list_roaring_ops [simp]:
  "rb_create list_roaring = []"
  "rb_clear list_roaring b = []"
  "rb_overwrite list_roaring d b = b"
  "rb_add list_roaring b x = x # b"
  "rb_remove list_roaring b x = removeAll x b"
  "rb_contains list_roaring b x \<longleftrightarrow> x \<in> set b"
  "rb_is_empty list_roaring b \<longleftrightarrow> b = []"
  "rb_cardinality list_roaring b = of_nat (length (remdups b))"
  "rb_and list_roaring b c = filter (\<lambda>x. x \<in> set c) b"
  "rb_or list_roaring b c = b @ c"
  "rb_xor list_roaring b c = filter (\<lambda>x. x \<notin> set c) b @ filter (\<lambda>x. x \<notin> set b) c"
  "rb_andnot list_roaring b c = filter (\<lambda>x. x \<notin> set c) b"
  "rb_to_array list_roaring b = sort (remdups b)"
  "rb_range_array list_roaring b off lim = take lim (drop off (sort (remdups b)))"
  "rb_run_optimize list_roaring b = b"
  "rb_shrink_to_fit list_roaring b = b"
  "rb_serialize list_roaring = list_bits_encode"
  "rb_deserialize list_roaring = list_bits_decode"
  "rb_frozen_serialize list_roaring = list_bits_encode"
  "rb_frozen_view list_roaring = list_bits_decode"
  by (simp_all add: list_roaring_def)

lemma list_bits_encode_neq: "list_bits_encode b \<noteq> []"
  by (simp add: list_bits_encode_def)

lemma rb_bits_list [simp]: "rb_bits list_roaring b = set b"
  by (simp add: rb_bits_def)

lemma card_u32_less: "card (S :: u32 set) < 2 ^ 64"
proof -
  have "card S \<le> card (UNIV :: u32 set)"
    by (rule card_mono) simp_all
  then show ?thesis by (simp add: card_word)
qed

lemma list_cardinality: "unat (of_nat (length (remdups b)) :: u64) = card (set (b :: u32 list))"
  using card_u32_less[of "set b"] length_remdups_card_conv[of b] by (simp add: unat_of_nat)

interpretation lr: roaring_api list_roaring
  by unfold_locales (auto simp: list_cardinality list_bits_decode_encode list_bits_encode_neq)

end
