(* ===== verification/RobimsCache.thy ===== *)
theory RobimsCache
  imports Roaring
begin

text \<open>
  The pool of scratch bitmaps of \<^verbatim>\<open>robims/robims_cache.cpp\<close>. Bitmaps are objects in a store and the
  pool holds their addresses, because what matters is that an address is never handed out twice and
  that a bitmap taken from the pool is empty. The concurrent queue of the pool may hand out any of
  its elements and may report to be empty when another thread is at work, so the model is a step
  relation: every step is one call of a function, by any thread.
\<close>

type_synonym addr = nat

record 'b pool =
  heap :: "addr \<rightharpoonup> 'b"
  g_bitmap_cache :: "addr list"
  g_bitmap_cache_enable :: bool
  held :: "addr set"  \<comment> \<open>the bitmaps callers hold\<close>

definition pool_init :: "'b pool" where
  "pool_init = \<lparr>heap = Map.empty, g_bitmap_cache = [], g_bitmap_cache_enable = True, held = {}\<rparr>"

text \<open>\<^verbatim>\<open>acquire_bitmap\<close> with the element the queue hands out, \<open>None\<close> when it hands out none.\<close>

definition acquire_bitmap :: "'b roaring \<Rightarrow> addr \<Rightarrow> addr option \<Rightarrow> 'b pool \<Rightarrow> addr \<times> 'b pool" where
  "acquire_bitmap R fresh dequeued s =
     (case dequeued of
        Some p \<Rightarrow> (p, s\<lparr>g_bitmap_cache := remove1 p (g_bitmap_cache s), held := insert p (held s)\<rparr>)
      | None \<Rightarrow> (fresh, s\<lparr>heap := (heap s)(fresh \<mapsto> rb_create R), held := insert fresh (held s)\<rparr>))"

definition release_bitmap :: "'b roaring \<Rightarrow> addr \<Rightarrow> 'b pool \<Rightarrow> 'b pool" where
  "release_bitmap R p s =
     (if \<not> g_bitmap_cache_enable s
      then s\<lparr>heap := (heap s)(p := None), held := held s - {p}\<rparr>
      else s\<lparr>heap := (heap s)(p := map_option (rb_clear R) (heap s p)),
             g_bitmap_cache := g_bitmap_cache s @ [p], held := held s - {p}\<rparr>)"

text \<open>\<^verbatim>\<open>clear_bitmap_cache\<close> turns the pool off and frees what the queue holds.\<close>

definition clear_bitmap_cache :: "'b pool \<Rightarrow> 'b pool" where
  "clear_bitmap_cache s =
     s\<lparr>g_bitmap_cache_enable := False, g_bitmap_cache := [],
       heap := (\<lambda>p. if p \<in> set (g_bitmap_cache s) then None else heap s p)\<rparr>"

text \<open>\<^verbatim>\<open>BitMapCacheGuard\<close>: the bitmaps added to it are released in its destructor.\<close>

definition guard_Add :: "addr \<Rightarrow> addr list \<Rightarrow> addr list" where
  "guard_Add p cache = cache @ [p]"

definition guard_destroy :: "'b roaring \<Rightarrow> addr list \<Rightarrow> 'b pool \<Rightarrow> 'b pool" where
  "guard_destroy R cache s = fold (release_bitmap R) cache s"

section \<open>Steps\<close>

inductive pool_step :: "'b roaring \<Rightarrow> 'b pool \<Rightarrow> 'b pool \<Rightarrow> bool" for R where
  acquire_pooled: "p \<in> set (g_bitmap_cache s) \<Longrightarrow>
     pool_step R s (snd (acquire_bitmap R fresh (Some p) s))"
| acquire_new: "heap s fresh = None \<Longrightarrow> pool_step R s (snd (acquire_bitmap R fresh None s))"
| modify: "p \<in> held s \<Longrightarrow> pool_step R s (s\<lparr>heap := (heap s)(p \<mapsto> c)\<rparr>)"
| release: "p \<in> held s \<Longrightarrow> pool_step R s (release_bitmap R p s)"
| clear: "pool_step R s (clear_bitmap_cache s)"

inductive pool_reachable :: "'b roaring \<Rightarrow> 'b pool \<Rightarrow> bool" for R where
  init: "pool_reachable R pool_init"
| step: "pool_reachable R s \<Longrightarrow> pool_step R s s' \<Longrightarrow> pool_reachable R s'"

definition pool_inv :: "'b roaring \<Rightarrow> 'b pool \<Rightarrow> bool" where
  "pool_inv R s \<longleftrightarrow> distinct (g_bitmap_cache s) \<and> set (g_bitmap_cache s) \<inter> held s = {}
     \<and> held s \<subseteq> dom (heap s)
     \<and> (\<forall>p \<in> set (g_bitmap_cache s). \<exists>b. heap s p = Some b \<and> rb_bits R b = {})"

context roaring_api
begin

lemma pool_inv_init: "pool_inv R pool_init"
  by (simp add: pool_inv_def pool_init_def)

lemma pool_inv_step: "pool_step R s s' \<Longrightarrow> pool_inv R s \<Longrightarrow> pool_inv R s'"
proof (induction rule: pool_step.induct)
  case (acquire_pooled p s fresh)
  then have "p \<in> dom (heap s)" by (auto simp: pool_inv_def)
  with acquire_pooled show ?case by (auto simp: pool_inv_def acquire_bitmap_def)
next
  case (acquire_new s fresh)
  then have "fresh \<notin> set (g_bitmap_cache s)" by (auto simp: pool_inv_def)
  with acquire_new show ?case by (auto simp: pool_inv_def acquire_bitmap_def)
next
  case (modify p s c)
  then show ?case by (auto simp: pool_inv_def)
next
  case (release p s)
  then have "p \<notin> set (g_bitmap_cache s)" "\<exists>b. heap s p = Some b" by (auto simp: pool_inv_def)
  with release show ?case by (auto simp: pool_inv_def release_bitmap_def)
next
  case (clear s)
  then show ?case by (auto simp: pool_inv_def clear_bitmap_cache_def)
qed

lemma pool_inv_reachable: "pool_reachable R s \<Longrightarrow> pool_inv R s"
  by (induction rule: pool_reachable.induct) (auto intro: pool_inv_init pool_inv_step)

end

section \<open>Properties\<close>

text \<open>
  C8. In every state the calls can reach, \<^verbatim>\<open>acquire_bitmap\<close> hands out an empty bitmap
  that no caller holds.
\<close>

theorem pool_acquire:
  assumes "roaring_api R" and "pool_reachable R s"
    and "case dq of Some p \<Rightarrow> p \<in> set (g_bitmap_cache s) | None \<Rightarrow> heap s fresh = None"
    and "acquire_bitmap R fresh dq s = (p, s')"
  shows "p \<notin> held s \<and> (\<exists>b. heap s' p = Some b \<and> rb_bits R b = {}) \<and> p \<notin> set (g_bitmap_cache s')"
  using roaring_api.pool_inv_reachable[OF assms(1,2)] assms(3,4) roaring_api.bits_create[OF assms(1)]
  by (cases dq) (fastforce simp: acquire_bitmap_def pool_inv_def)+

theorem pool_acquire_witness:
  "\<exists>s. pool_reachable list_roaring s \<and> g_bitmap_cache s = [7]
     \<and> fst (acquire_bitmap list_roaring 9 (Some 7) s) \<notin> held s"
proof -
  let ?s1 = "snd (acquire_bitmap list_roaring 7 None pool_init)"
  let ?s2 = "?s1\<lparr>heap := (heap ?s1)(7 \<mapsto> [3])\<rparr>"
  let ?s3 = "release_bitmap list_roaring 7 ?s2"
  have 1: "pool_reachable list_roaring ?s1"
    by (rule pool_reachable.step[OF pool_reachable.init pool_step.acquire_new]) (simp add: pool_init_def)
  have 2: "pool_reachable list_roaring ?s2"
    by (rule pool_reachable.step[OF 1 pool_step.modify]) (simp add: acquire_bitmap_def)
  have 3: "pool_reachable list_roaring ?s3"
    by (rule pool_reachable.step[OF 2 pool_step.release]) (simp add: acquire_bitmap_def)
  have c: "g_bitmap_cache ?s3 = [7]"
    by (simp add: release_bitmap_def acquire_bitmap_def pool_init_def)
  obtain p s' where a: "acquire_bitmap list_roaring 9 (Some 7) ?s3 = (p, s')" by fastforce
  have "p \<notin> held ?s3"
    using pool_acquire[OF lr.roaring_api_axioms 3 _ a] c by simp
  with a c 3 show ?thesis by (intro exI[of _ ?s3]) simp
qed

end
