(* ===== verification/RobimsIO.thy ===== *)
theory RobimsIO
  imports Roaring
begin

text \<open>
  The file primitives of \<^verbatim>\<open>robims/robims_common.cpp\<close>. A file that is written is the bytes written
  so far and the number of bytes the device still takes; a file that is read is the bytes left.
  \<^verbatim>\<open>fwrite\<close> and \<^verbatim>\<open>fread\<close> transfer one item of the given size: they return 1 when the whole item
  was transferred, and 0 for an item of size 0, as the C standard says.
\<close>

section \<open>Strings as bytes\<close>

definition byte_of_char :: "char \<Rightarrow> byte" where
  "byte_of_char c = of_nat (of_char c)"

definition char_of_byte :: "byte \<Rightarrow> char" where
  "char_of_byte b = char_of (unat b)"

lemma char_of_byte_of_char [simp]: "char_of_byte (byte_of_char c) = c"
  by (simp add: char_of_byte_def byte_of_char_def unsigned_of_nat take_bit_eq_mod)

definition string_bytes :: "string \<Rightarrow> byte list" where
  "string_bytes s = map byte_of_char s"

definition bytes_string :: "byte list \<Rightarrow> string" where
  "bytes_string bs = map char_of_byte bs"

lemma bytes_string_bytes [simp]: "bytes_string (string_bytes s) = s"
  by (simp add: bytes_string_def string_bytes_def comp_def)

lemma length_string_bytes [simp]: "length (string_bytes s) = length s"
  by (simp add: string_bytes_def)

section \<open>Writing\<close>

record ofile =
  o_data :: "byte list"
  o_space :: nat

definition fwrite :: "byte list \<Rightarrow> ofile \<Rightarrow> bool \<times> ofile" where
  "fwrite bs f =
     (if bs = [] then (False, f)
      else if length bs \<le> o_space f
      then (True, f\<lparr>o_data := o_data f @ bs, o_space := o_space f - length bs\<rparr>)
      else (False, f\<lparr>o_data := o_data f @ take (o_space f) bs, o_space := 0\<rparr>))"

text \<open>
  The return code of a function that writes and the file after it. \<open>WrUndef\<close> stands for undefined
  behaviour, such as the use of a null pointer. \<open>and_then\<close> is the next step of a function that
  returns at once when a return code is not 0.
\<close>

datatype wr = Wr int ofile | WrUndef

fun and_then :: "wr \<Rightarrow> (ofile \<Rightarrow> wr) \<Rightarrow> wr" where
  "and_then (Wr rc f) g = (if rc \<noteq> 0 then Wr rc f else g f)"
| "and_then WrUndef g = WrUndef"

text \<open>A write whose failure makes the function return \<open>- 1\<close>.\<close>

definition fwrite_rc :: "byte list \<Rightarrow> ofile \<Rightarrow> wr" where
  "fwrite_rc bs f = (case fwrite bs f of (ok, f') \<Rightarrow> Wr (if ok then 0 else -1) f')"

definition htonl :: "u32 \<Rightarrow> u32" where
  "htonl w = bswap32 w"

definition ntohl :: "u32 \<Rightarrow> u32" where
  "ntohl w = bswap32 w"

definition htonll :: "u64 \<Rightarrow> u64" where
  "htonll val = push_bit 32 (ucast (htonl (ucast val))) + ucast (htonl (ucast (drop_bit 32 val)))"

definition ntohll :: "u64 \<Rightarrow> u64" where
  "ntohll val = push_bit 32 (ucast (ntohl (ucast val))) + ucast (ntohl (ucast (drop_bit 32 val)))"

definition file_write_uint64 :: "u64 \<Rightarrow> ofile \<Rightarrow> wr" where
  "file_write_uint64 n f = fwrite_rc (mem64 (htonll n)) f"

definition file_write_uint32 :: "u32 \<Rightarrow> ofile \<Rightarrow> wr" where
  "file_write_uint32 n f = fwrite_rc (mem32 (htonl n)) f"

text \<open>The size is converted to \<^verbatim>\<open>uint32_t\<close>.\<close>

definition file_write_string :: "byte list \<Rightarrow> ofile \<Rightarrow> wr" where
  "file_write_string s f = and_then (file_write_uint32 (of_nat (length s)) f) (fwrite_rc s)"

section \<open>Reading\<close>

text \<open>\<open>Undef\<close> stands for undefined behaviour, such as the use of a null pointer.\<close>

datatype 'a rd = Rd 'a "byte list" | RdErr int | Undef

fun rd_bind :: "'a rd \<Rightarrow> ('a \<Rightarrow> byte list \<Rightarrow> 'b rd) \<Rightarrow> 'b rd" where
  "rd_bind (Rd x bs) g = g x bs"
| "rd_bind (RdErr e) g = RdErr e"
| "rd_bind Undef g = Undef"

definition fread :: "nat \<Rightarrow> byte list \<Rightarrow> byte list rd" where
  "fread n bs = (if n = 0 \<or> length bs < n then RdErr (-1) else Rd (take n bs) (drop n bs))"

definition file_read_uint64 :: "byte list \<Rightarrow> u64 rd" where
  "file_read_uint64 bs = rd_bind (fread 8 bs) (\<lambda>m. Rd (ntohll (of_mem64 m)))"

definition file_read_uint32 :: "byte list \<Rightarrow> u32 rd" where
  "file_read_uint32 bs = rd_bind (fread 4 bs) (\<lambda>m. Rd (ntohl (of_mem32 m)))"

definition file_read_string :: "byte list \<Rightarrow> byte list rd" where
  "file_read_string bs = rd_bind (file_read_uint32 bs) (\<lambda>n. fread (unat n))"

section \<open>Round trips\<close>

lemma ntohl_htonl [simp]: "ntohl (htonl w) = w"
  by (simp add: ntohl_def htonl_def)

lemma ucast_low_sum:
  "ucast (push_bit 32 (ucast (a :: u32)) + ucast (b :: u32) :: u64) = b"
  "ucast (drop_bit 32 (push_bit 32 (ucast (a :: u32)) + ucast (b :: u32) :: u64)) = a"
proof -
  have "push_bit 32 (ucast a) + ucast b = (push_bit 32 (ucast a) OR ucast b :: u64)"
    by (rule disjunctive_add) (auto simp: bit_simps dest: bit_imp_le_length)
  then show "ucast (push_bit 32 (ucast a) + ucast b :: u64) = b"
    "ucast (drop_bit 32 (push_bit 32 (ucast a) + ucast b :: u64)) = a"
    by (auto intro!: bit_word_eqI simp: bit_simps impossible_bit)
qed

lemma split_64: "push_bit 32 (ucast (ucast (drop_bit 32 w) :: u32)) + ucast (ucast w :: u32) = (w :: u64)"
proof -
  have "push_bit 32 (ucast (ucast (drop_bit 32 w) :: u32)) + ucast (ucast w :: u32)
      = (push_bit 32 (ucast (ucast (drop_bit 32 w) :: u32)) OR ucast (ucast w :: u32) :: u64)"
    by (rule disjunctive_add) (auto simp: bit_simps dest: bit_imp_le_length)
  also have "\<dots> = w" by (rule bit_word_eqI) (auto simp: bit_simps)
  finally show ?thesis .
qed

lemma ntohll_htonll [simp]: "ntohll (htonll w) = w"
  by (simp add: ntohll_def htonll_def ucast_low_sum split_64)

text \<open>
  What a successful write leaves behind: \<open>wrote bs f f'\<close> says that \<open>f'\<close> is \<open>f\<close> with the bytes
  \<open>bs\<close> appended.
\<close>

definition wrote :: "byte list \<Rightarrow> ofile \<Rightarrow> ofile \<Rightarrow> bool" where
  "wrote bs f f' \<longleftrightarrow> o_data f' = o_data f @ bs \<and> o_space f = o_space f' + length bs"

lemma wrote_trans: "wrote bs f f1 \<Longrightarrow> wrote cs f1 f2 \<Longrightarrow> wrote (bs @ cs) f f2"
  by (simp add: wrote_def)

lemma wrote_refl [simp]: "wrote [] f f"
  by (simp add: wrote_def)

lemma and_then_0: "and_then r g = Wr 0 f' \<longleftrightarrow> (\<exists>f1. r = Wr 0 f1 \<and> g f1 = Wr 0 f')"
  by (cases r) auto

lemma and_then_assoc: "and_then (and_then r g) h = and_then r (\<lambda>f. and_then (g f) h)"
  by (cases r) auto

lemma fwrite_rc_0: "fwrite_rc bs f = Wr 0 f' \<longleftrightarrow> bs \<noteq> [] \<and> wrote bs f f'"
  by (cases f; cases f') (auto simp: fwrite_rc_def fwrite_def wrote_def split: if_splits)

lemma file_write_uint32_0: "file_write_uint32 n f = Wr 0 f' \<longleftrightarrow> wrote (mem32 (htonl n)) f f'"
  by (simp add: file_write_uint32_def fwrite_rc_0)

lemma file_write_string_0:
  "file_write_string s f = Wr 0 f'
     \<longleftrightarrow> s \<noteq> [] \<and> (\<exists>f1. wrote (mem32 (htonl (of_nat (length s)))) f f1 \<and> wrote s f1 f')"
  by (auto simp: file_write_string_def and_then_0 file_write_uint32_0 fwrite_rc_0)

lemma fread_append [simp]: "n = length bs \<Longrightarrow> bs \<noteq> [] \<Longrightarrow> fread n (bs @ cs) = Rd bs cs"
  by (simp add: fread_def)

lemma file_read_uint32_append [simp]: "file_read_uint32 (mem32 (htonl n) @ cs) = Rd n cs"
  by (simp add: file_read_uint32_def)

lemma file_read_string_append [simp]:
  "s \<noteq> [] \<Longrightarrow> length s < 2 ^ 32 \<Longrightarrow>
     file_read_string (mem32 (htonl (of_nat (length s))) @ s @ cs) = Rd s cs"
  by (simp add: file_read_string_def unat_of_nat)

lemma rd_bind_assoc: "rd_bind (rd_bind m g) h = rd_bind m (\<lambda>x bs. rd_bind (g x bs) h)"
  by (cases m) simp_all

lemma rd_bind_Rd: "rd_bind m g = Rd x cs \<longleftrightarrow> (\<exists>y ds. m = Rd y ds \<and> g y ds = Rd x cs)"
  by (cases m) auto

section \<open>Loops over items\<close>

primrec save_each :: "('a \<Rightarrow> ofile \<Rightarrow> wr) \<Rightarrow> 'a list \<Rightarrow> ofile \<Rightarrow> wr" where
  "save_each save [] f = Wr 0 f"
| "save_each save (x # xs) f = and_then (save x f) (save_each save xs)"

primrec rd_iter :: "nat \<Rightarrow> ('s \<Rightarrow> byte list \<Rightarrow> 's rd) \<Rightarrow> 's \<Rightarrow> byte list \<Rightarrow> 's rd" where
  "rd_iter 0 g s bs = Rd s bs"
| "rd_iter (Suc n) g s bs = rd_bind (g s bs) (rd_iter n g)"

text \<open>
  The contract of a pair of functions that save and load an item: what a successful save wrote is
  loaded again, up to a relation between the item saved and the item loaded. A count and the items
  one after the other, which is how the sources write every collection, inherit the contract.
\<close>

locale codec =
  fixes save :: "'a \<Rightarrow> ofile \<Rightarrow> wr"
    and load :: "byte list \<Rightarrow> 'b rd"
    and ok :: "'a \<Rightarrow> bool"
    and rel :: "'a \<Rightarrow> 'b \<Rightarrow> bool"
  assumes save_load: "save x f = Wr 0 f' \<Longrightarrow> ok x \<Longrightarrow>
     \<exists>bs. wrote bs f f' \<and> (\<forall>cs. \<exists>y. load (bs @ cs) = Rd y cs \<and> rel x y)"
begin

lemma save_each_load:
  assumes "save_each save xs f = Wr 0 f'" and "\<forall>x \<in> set xs. ok x"
    and step: "\<And>s bs y cs. load bs = Rd y cs \<Longrightarrow> g s bs = Rd (ins y s) cs"
  shows "\<exists>bs. wrote bs f f' \<and> (\<forall>cs s. \<exists>ys. list_all2 rel xs ys
     \<and> rd_iter (length xs) g s (bs @ cs) = Rd (fold ins ys s) cs)"
  using assms(1,2)
proof (induction xs arbitrary: f)
  case Nil
  then show ?case by (intro exI[of _ "[]"]) simp
next
  case (Cons x xs)
  then obtain f1 where f1: "save x f = Wr 0 f1" "save_each save xs f1 = Wr 0 f'"
    by (auto simp: and_then_0)
  from save_load[OF f1(1)] Cons.prems obtain b1
    where b1: "wrote b1 f f1" "\<And>cs. \<exists>y. load (b1 @ cs) = Rd y cs \<and> rel x y" by auto
  from Cons.IH[OF f1(2)] Cons.prems obtain b2 where b2: "wrote b2 f1 f'"
    "\<And>cs s. \<exists>ys. list_all2 rel xs ys \<and> rd_iter (length xs) g s (b2 @ cs) = Rd (fold ins ys s) cs" by auto
  have "\<exists>ys. list_all2 rel (x # xs) ys \<and> rd_iter (length (x # xs)) g s ((b1 @ b2) @ cs) = Rd (fold ins ys s) cs"
    for cs s
  proof -
    obtain y where y: "load (b1 @ b2 @ cs) = Rd y (b2 @ cs)" "rel x y" using b1(2) by blast
    obtain ys where ys: "list_all2 rel xs ys"
      "rd_iter (length xs) g (ins y s) (b2 @ cs) = Rd (fold ins ys (ins y s)) cs" using b2(2) by blast
    show ?thesis by (rule exI[of _ "y # ys"]) (use y ys step in simp)
  qed
  with wrote_trans[OF b1(1) b2(1)] show ?case by blast
qed

text \<open>The count and the items.\<close>

lemma save_count_load:
  assumes "and_then (file_write_uint32 (of_nat (length xs)) f) (save_each save xs) = Wr 0 f'"
    and "\<forall>x \<in> set xs. ok x" and "length xs < 2 ^ 32"
    and "\<And>s bs y cs. load bs = Rd y cs \<Longrightarrow> g s bs = Rd (ins y s) cs"
  shows "\<exists>bs. wrote bs f f' \<and> (\<forall>cs s. \<exists>ys. list_all2 rel xs ys
     \<and> rd_bind (file_read_uint32 (bs @ cs)) (\<lambda>n. rd_iter (unat n) g s) = Rd (fold ins ys s) cs)"
proof -
  obtain f1 where f1: "wrote (mem32 (htonl (of_nat (length xs)))) f f1" "save_each save xs f1 = Wr 0 f'"
    using assms(1) by (auto simp: and_then_0 file_write_uint32_0)
  have "\<exists>bs. wrote bs f1 f' \<and> (\<forall>cs s. \<exists>ys. list_all2 rel xs ys
     \<and> rd_iter (length xs) g s (bs @ cs) = Rd (fold ins ys s) cs)"
    by (rule save_each_load[OF f1(2) assms(2)]) (rule assms(4))
  then obtain bs where bs: "wrote bs f1 f'"
    "\<And>cs s. \<exists>ys. list_all2 rel xs ys \<and> rd_iter (length xs) g s (bs @ cs) = Rd (fold ins ys s) cs" by blast
  have "unat (of_nat (length xs) :: u32) = length xs" using assms(3) by (simp add: unat_of_nat)
  then show ?thesis
    using wrote_trans[OF f1(1) bs(1)] bs(2)
    by (intro exI[of _ "mem32 (htonl (of_nat (length xs))) @ bs"]) simp
qed

end

text \<open>Two parts of an item, one after the other.\<close>

lemma codec_pair:
  assumes "codec s1 l1 ok1 rel1" and "codec s2 l2 ok2 rel2"
  shows "codec (\<lambda>x f. and_then (s1 (p x) f) (s2 (q x)))
     (\<lambda>bs. rd_bind (l1 bs) (\<lambda>a bs. rd_bind (l2 bs) (\<lambda>b. Rd (a, b))))
     (\<lambda>x. ok1 (p x) \<and> ok2 (q x)) (\<lambda>x y. rel1 (p x) (fst y) \<and> rel2 (q x) (snd y))"
proof
  fix x f f' assume s: "and_then (s1 (p x) f) (s2 (q x)) = Wr 0 f'" and ok: "ok1 (p x) \<and> ok2 (q x)"
  then obtain f1 where f1: "s1 (p x) f = Wr 0 f1" "s2 (q x) f1 = Wr 0 f'" by (auto simp: and_then_0)
  obtain b1 where b1: "wrote b1 f f1" "\<And>cs. \<exists>y. l1 (b1 @ cs) = Rd y cs \<and> rel1 (p x) y"
    using codec.save_load[OF assms(1) f1(1)] ok by blast
  obtain b2 where b2: "wrote b2 f1 f'" "\<And>cs. \<exists>y. l2 (b2 @ cs) = Rd y cs \<and> rel2 (q x) y"
    using codec.save_load[OF assms(2) f1(2)] ok by blast
  have "\<exists>y. rd_bind (l1 ((b1 @ b2) @ cs)) (\<lambda>a bs. rd_bind (l2 bs) (\<lambda>b. Rd (a, b))) = Rd y cs
      \<and> rel1 (p x) (fst y) \<and> rel2 (q x) (snd y)" for cs
    using b1(2)[of "b2 @ cs"] b2(2)[of cs] by fastforce
  with wrote_trans[OF b1(1) b2(1)]
  show "\<exists>bs. wrote bs f f' \<and> (\<forall>cs. \<exists>y. rd_bind (l1 (bs @ cs)) (\<lambda>a bs. rd_bind (l2 bs) (\<lambda>b. Rd (a, b))) = Rd y cs
      \<and> rel1 (p x) (fst y) \<and> rel2 (q x) (snd y))" by blast
qed

text \<open>Strings are such items.\<close>

interpretation string_codec: codec file_write_string file_read_string "\<lambda>s. length s < 2 ^ 32" "(=)"
proof
  fix s f f' assume s: "file_write_string s f = Wr 0 f'" "length s < 2 ^ 32"
  then obtain f1 where "s \<noteq> []" "wrote (mem32 (htonl (of_nat (length s)))) f f1" "wrote s f1 f'"
    by (auto simp: file_write_string_0)
  then show "\<exists>bs. wrote bs f f' \<and> (\<forall>cs. \<exists>y. file_read_string (bs @ cs) = Rd y cs \<and> s = y)"
    using s(2) wrote_trans by (intro exI[of _ "mem32 (htonl (of_nat (length s))) @ s"]) auto
qed

interpretation uint32_codec: codec file_write_uint32 file_read_uint32 "\<lambda>_. True" "(=)"
  by unfold_locales (auto simp: file_write_uint32_0)

end
