(* ===== verification/RobimsBitmap.thy ===== *)
theory RobimsBitmap
  imports RobimsIO
begin

text \<open>
  The struct \<^verbatim>\<open>RoaringBitmap\<close> of \<^verbatim>\<open>robims/robims_common.h\<close>, which owns a CRoaring bitmap, and the
  helpers of \<^verbatim>\<open>robims_common.cpp\<close> over it. A bitmap that was loaded with the read-only flag is a view
  of the loaded buffer.
\<close>

record 'b RoaringBitmap =
  rbp :: "'b option"  \<comment> \<open>the owned \<^verbatim>\<open>roaring_bitmap_t*\<close>, \<open>None\<close> for a null pointer\<close>
  rb_readonly :: bool

definition new_RoaringBitmap :: "'b RoaringBitmap" where
  "new_RoaringBitmap = \<lparr>rbp = None, rb_readonly = False\<rparr>"

definition SetCRoaringBitmap :: "'b \<Rightarrow> 'b RoaringBitmap \<Rightarrow> 'b RoaringBitmap" where
  "SetCRoaringBitmap b p = p\<lparr>rbp := Some b\<rparr>"

definition NewCRoaringBitmap :: "'b roaring \<Rightarrow> 'b RoaringBitmap \<Rightarrow> 'b RoaringBitmap" where
  "NewCRoaringBitmap R p = p\<lparr>rbp := Some (rb_create R)\<rparr>"

text \<open>The content, where the pointer is not null.\<close>

definition rbm :: "'b RoaringBitmap \<Rightarrow> 'b" where
  "rbm p = the (rbp p)"

definition RoaringBitmap_Put :: "'b roaring \<Rightarrow> u32 \<Rightarrow> 'b RoaringBitmap \<Rightarrow> bool \<times> 'b RoaringBitmap" where
  "RoaringBitmap_Put R idx p = (\<not> rb_contains R (rbm p) idx, p\<lparr>rbp := Some (rb_add R (rbm p) idx)\<rparr>)"

definition RoaringBitmap_Remove :: "'b roaring \<Rightarrow> u32 \<Rightarrow> 'b RoaringBitmap \<Rightarrow> bool \<times> 'b RoaringBitmap" where
  "RoaringBitmap_Remove R idx p = (rb_contains R (rbm p) idx, p\<lparr>rbp := Some (rb_remove R (rbm p) idx)\<rparr>)"

text \<open>
  The vector has as many elements as the \<^verbatim>\<open>uint32_t\<close> cardinality says; when the cardinality does not
  fit, the array is written beyond the vector.
\<close>

definition bitmap_extract_ids :: "'b roaring \<Rightarrow> 'b \<Rightarrow> u32 list option" where
  "bitmap_extract_ids R out =
     (let n = unat (ucast (rb_cardinality R out) :: u32)
      in if n = length (rb_to_array R out) then Some (rb_to_array R out) else None)"

definition bimap_get_ids :: "'b roaring \<Rightarrow> ('b \<Rightarrow> 'b) \<Rightarrow> u32 list option" where
  "bimap_get_ids R op = bitmap_extract_ids R (op (rb_create R))"

text \<open>The callback is told every identifier in increasing order until it returns false.\<close>

fun iterate_ids :: "(u32 \<Rightarrow> 's \<Rightarrow> bool \<times> 's) \<Rightarrow> u32 list \<Rightarrow> 's \<Rightarrow> 's" where
  "iterate_ids func [] s = s"
| "iterate_ids func (x # xs) s =
     (case func x s of (go, s') \<Rightarrow> if go then iterate_ids func xs s' else s')"

definition iterate_bitmap :: "'b roaring \<Rightarrow> (u32 \<Rightarrow> 's \<Rightarrow> bool \<times> 's) \<Rightarrow> 'b \<Rightarrow> 's \<Rightarrow> 's" where
  "iterate_bitmap R func b s = iterate_ids func (rb_to_array R b) s"

section \<open>Saving and loading\<close>

definition bool_byte :: "bool \<Rightarrow> byte" where
  "bool_byte b = (if b then 1 else 0)"

definition RoaringBitmap_Save :: "'b roaring \<Rightarrow> bool \<Rightarrow> 'b RoaringBitmap \<Rightarrow> ofile \<Rightarrow> wr" where
  "RoaringBitmap_Save R readonly p f =
     (case rbp p of
        None \<Rightarrow> WrUndef
      | Some c \<Rightarrow>
          let b = rb_shrink_to_fit R (rb_run_optimize R c);
              mbuf = (if readonly then rb_frozen_serialize R b else rb_serialize R b)
          in and_then (file_write_uint32 (of_nat (length mbuf)) f) (\<lambda>f.
             and_then (fwrite_rc [bool_byte readonly] f) (\<lambda>f.
             fwrite_rc mbuf f)))"

definition RoaringBitmap_Load :: "'b roaring \<Rightarrow> 'b RoaringBitmap \<Rightarrow> byte list \<Rightarrow> 'b RoaringBitmap rd" where
  "RoaringBitmap_Load R p bs =
     rd_bind (file_read_uint32 bs) (\<lambda>n bs.
     rd_bind (fread 1 bs) (\<lambda>flag bs.
       let readonly = (hd flag \<noteq> 0)
       in rd_bind (fread (unat n) bs) (\<lambda>mbuf bs.
            case (if readonly then rb_frozen_view R mbuf else rb_deserialize R mbuf) of
              None \<Rightarrow> RdErr (-1)
            | Some b \<Rightarrow> Rd (p\<lparr>rbp := Some b, rb_readonly := readonly\<rparr>) bs)))"

text \<open>The size of a serialised bitmap fits the \<^verbatim>\<open>uint32_t\<close> it is written as.\<close>

definition rbm_savable :: "'b roaring \<Rightarrow> bool \<Rightarrow> 'b RoaringBitmap \<Rightarrow> bool" where
  "rbm_savable R readonly p \<longleftrightarrow>
     (let b = rb_shrink_to_fit R (rb_run_optimize R (rbm p))
      in length (if readonly then rb_frozen_serialize R b else rb_serialize R b) < 2 ^ 32)"

definition rbm_same :: "'b roaring \<Rightarrow> bool \<Rightarrow> 'b RoaringBitmap \<Rightarrow> 'b RoaringBitmap \<Rightarrow> bool" where
  "rbm_same R readonly p q \<longleftrightarrow> rbp q \<noteq> None \<and> rb_bits R (rbm q) = rb_bits R (rbm p)
     \<and> rb_readonly q = readonly"

context roaring_api
begin

lemma view_serialize:
  "\<exists>c. (if readonly then rb_frozen_view R (if readonly then rb_frozen_serialize R b else rb_serialize R b)
        else rb_deserialize R (if readonly then rb_frozen_serialize R b else rb_serialize R b)) = Some c
     \<and> rb_bits R c = rb_bits R b"
  using deserialize_serialize[of b] frozen_view_serialize[of b] by auto

lemma RoaringBitmap_Save_Load:
  assumes "RoaringBitmap_Save R readonly p f = Wr 0 f'" and "rbm_savable R readonly p"
  shows "\<exists>bs. wrote bs f f' \<and> (\<forall>cs. \<exists>y. RoaringBitmap_Load R q (bs @ cs) = Rd y cs \<and> rbm_same R readonly p y)"
proof -
  obtain c where c: "rbp p = Some c" "rbm p = c"
    using assms(1) by (cases "rbp p") (auto simp: RoaringBitmap_Save_def rbm_def)
  define b where "b = rb_shrink_to_fit R (rb_run_optimize R (rbm p))"
  define mbuf where "mbuf = (if readonly then rb_frozen_serialize R b else rb_serialize R b)"
  have "RoaringBitmap_Save R readonly p f = and_then (file_write_uint32 (of_nat (length mbuf)) f)
      (\<lambda>f. and_then (fwrite_rc [bool_byte readonly] f) (fwrite_rc mbuf))"
    by (simp add: RoaringBitmap_Save_def c b_def mbuf_def Let_def)
  from assms(1)[unfolded this] obtain f1 f2 where w: "wrote (mem32 (htonl (of_nat (length mbuf)))) f f1"
    "wrote [bool_byte readonly] f1 f2" "mbuf \<noteq> []" "wrote mbuf f2 f'"
    by (auto simp: and_then_0 file_write_uint32_0 fwrite_rc_0)
  have "unat (of_nat (length mbuf) :: u32) = length mbuf"
    using assms(2) unfolding rbm_savable_def Let_def b_def[symmetric] mbuf_def[symmetric]
    by (simp add: unat_of_nat)
  moreover obtain c where "(if readonly then rb_frozen_view R mbuf else rb_deserialize R mbuf) = Some c"
    "rb_bits R c = rb_bits R b"
    using view_serialize[of readonly b] unfolding mbuf_def by blast
  moreover have "rb_bits R b = rb_bits R (rbm p)" by (simp add: b_def)
  ultimately have "\<exists>y. RoaringBitmap_Load R q ((mem32 (htonl (of_nat (length mbuf))) @ [bool_byte readonly] @ mbuf) @ cs)
      = Rd y cs \<and> rbm_same R readonly p y" for cs
    using w(3) fread_append[of 1 "[bool_byte readonly]" "mbuf @ cs"]
    by (auto simp: RoaringBitmap_Load_def Let_def rbm_same_def rbm_def bool_byte_def)
  with wrote_trans[OF w(1) wrote_trans[OF w(2,4)]] show ?thesis by blast
qed

end

sublocale roaring_api < bitmap_codec: codec "RoaringBitmap_Save R readonly" "RoaringBitmap_Load R q"
  "rbm_savable R readonly" "rbm_same R readonly"
  by unfold_locales (rule RoaringBitmap_Save_Load)

end
