(* ===== verification/RobimsFloat.thy ===== *)
theory RobimsFloat
  imports Prelude
begin

text \<open>
  The order-preserving maps between floating point numbers and unsigned integers of
  \<^verbatim>\<open>robims/robims_bsi.cpp\<close> (lines 39 to 81). A \<^verbatim>\<open>float\<close> is its IEEE 754 binary32 bit pattern
  (what \<^verbatim>\<open>memcpy\<close> copies), a \<^verbatim>\<open>double\<close> its binary64 pattern. \<open>float_num\<close> is the number a
  pattern denotes, scaled by \<open>2 ^ 149\<close> (so that it is an integer; the infinities get the value
  their exponent would have, above every finite one), and comparisons of floats are comparisons
  of these numbers, false on a NaN.
\<close>

section \<open>Binary32\<close>

definition float_sign :: "u32 \<Rightarrow> bool" where
  "float_sign b \<longleftrightarrow> bit b 31"

definition float_magnitude :: "u32 \<Rightarrow> nat" where
  "float_magnitude b = unat (take_bit 31 b)"

definition float_is_nan :: "u32 \<Rightarrow> bool" where
  "float_is_nan b \<longleftrightarrow> float_magnitude b > 255 * 2 ^ 23"

text \<open>The value of a magnitude with exponent field \<open>m div 2 ^ 23\<close>, scaled by \<open>2 ^ 149\<close>.\<close>

definition magnitude_num :: "nat \<Rightarrow> nat" where
  "magnitude_num m =
     (let e = m div 2 ^ 23; f = m mod 2 ^ 23
      in if e = 0 then f else (2 ^ 23 + f) * 2 ^ (e - 1))"

definition float_num :: "u32 \<Rightarrow> int" where
  "float_num b = (if float_sign b then - int (magnitude_num (float_magnitude b))
                  else int (magnitude_num (float_magnitude b)))"

definition float_lt :: "u32 \<Rightarrow> u32 \<Rightarrow> bool" where
  "float_lt a b \<longleftrightarrow> \<not> float_is_nan a \<and> \<not> float_is_nan b \<and> float_num a < float_num b"

definition float_eq :: "u32 \<Rightarrow> u32 \<Rightarrow> bool" where
  "float_eq a b \<longleftrightarrow> \<not> float_is_nan a \<and> \<not> float_is_nan b \<and> float_num a = float_num b"

definition float_ge_0 :: "u32 \<Rightarrow> bool" where
  "float_ge_0 a \<longleftrightarrow> \<not> float_is_nan a \<and> 0 \<le> float_num a"

definition float_to_uint32 :: "u32 \<Rightarrow> u32" where
  "float_to_uint32 v = (if float_ge_0 v then v OR 0x80000000 else NOT v)"

definition uint32_to_float :: "u32 \<Rightarrow> u32" where
  "uint32_to_float v = (if 0 < v AND 0x80000000 then v AND NOT 0x80000000 else NOT v)"

section \<open>Binary64\<close>

definition double_sign :: "u64 \<Rightarrow> bool" where
  "double_sign b \<longleftrightarrow> bit b 63"

definition double_magnitude :: "u64 \<Rightarrow> nat" where
  "double_magnitude b = unat (take_bit 63 b)"

definition double_is_nan :: "u64 \<Rightarrow> bool" where
  "double_is_nan b \<longleftrightarrow> double_magnitude b > 2047 * 2 ^ 52"

definition double_ge_0 :: "u64 \<Rightarrow> bool" where
  "double_ge_0 a \<longleftrightarrow> \<not> double_is_nan a \<and> (\<not> double_sign a \<or> double_magnitude a = 0)"

definition double_to_uint64 :: "u64 \<Rightarrow> u64" where
  "double_to_uint64 v = (if double_ge_0 v then v OR 0x8000000000000000 else NOT v)"

definition uint64_to_double :: "u64 \<Rightarrow> u64" where
  "uint64_to_double v = (if 0 < v AND 0x8000000000000000 then v AND NOT 0x8000000000000000 else NOT v)"

section \<open>The value of a magnitude is monotone\<close>

lemma magnitude_num_mono_step: "magnitude_num m < magnitude_num (Suc m)"
proof (cases "Suc (m mod 2 ^ 23) = 2 ^ 23")
  case True
  have e: "Suc m div 2 ^ 23 = Suc (m div 2 ^ 23)" and f: "Suc m mod 2 ^ 23 = 0"
    using True by (simp_all add: div_Suc mod_Suc)
  have m: "m mod 2 ^ 23 < 2 ^ 23" by simp
  show ?thesis
  proof (cases "m div 2 ^ 23")
    case 0
    with e f m show ?thesis by (simp add: magnitude_num_def Let_def)
  next
    case (Suc k)
    have "(2 ^ 23 + m mod 2 ^ 23) * 2 ^ k < (2 ^ 23 + 2 ^ 23) * (2::nat) ^ k"
      using m by (intro mult_strict_right_mono) simp_all
    also have "\<dots> = 2 ^ 23 * 2 ^ Suc k" by simp
    finally show ?thesis using Suc e f by (simp add: magnitude_num_def Let_def)
  qed
next
  case False
  then have "Suc m div 2 ^ 23 = m div 2 ^ 23" "Suc m mod 2 ^ 23 = Suc (m mod 2 ^ 23)"
    by (simp_all add: div_Suc mod_Suc)
  then show ?thesis by (simp add: magnitude_num_def Let_def)
qed

lemma magnitude_num_less_iff: "magnitude_num m < magnitude_num n \<longleftrightarrow> m < n"
  using magnitude_num_mono_step strict_mono_Suc_iff[of magnitude_num]
  by (simp add: strict_mono_less)

lemma magnitude_num_eq_iff: "magnitude_num m = magnitude_num n \<longleftrightarrow> m = n"
  using magnitude_num_less_iff by (metis linorder_neq_iff)

lemma magnitude_num_0 [simp]: "magnitude_num 0 = 0"
  by (simp add: magnitude_num_def)

lemma magnitude_num_eq_0 [simp]: "magnitude_num m = 0 \<longleftrightarrow> m = 0"
  using magnitude_num_eq_iff[of m 0] by simp

section \<open>Bit patterns as numbers\<close>

lemma unat_split_31:
  "unat (v :: u32) = 2 ^ 31 * of_bool (bit v 31) + unat (take_bit 31 v)"
proof -
  have "unat v = take_bit (Suc 31) (unat v)"
    using unsigned_less[of v, where ?'a = nat] by (simp add: take_bit_nat_eq_self)
  also have "\<dots> = 2 ^ 31 * of_bool (bit (unat v) 31) + take_bit 31 (unat v)"
    by (rule take_bit_Suc_from_most)
  finally show ?thesis by (simp add: unsigned_take_bit_eq bit_unsigned_iff)
qed

lemma float_magnitude_less: "float_magnitude v < 2 ^ 31"
  using take_bit_nat_less_exp[of 31 "unat v"] by (simp add: float_magnitude_def unsigned_take_bit_eq)

lemma unat_float: "unat v = 2 ^ 31 * of_bool (float_sign v) + float_magnitude v"
  using unat_split_31[of v] by (simp only: float_sign_def float_magnitude_def)

lemma bit_top_u32: "bit (0x80000000 :: u32) k \<longleftrightarrow> k = 31"
  using bit_push_bit_iff[of 31 "1 :: u32" k] by (auto simp: bit_1_iff dest: bit_imp_le_length)

lemma unat_or_top: "unat (v OR 0x80000000 :: u32) = 2 ^ 31 + float_magnitude v"
proof -
  have "take_bit 31 (v OR 0x80000000) = take_bit 31 v"
    by (rule bit_word_eqI) (auto simp: bit_take_bit_iff bit_or_iff bit_top_u32)
  moreover have "bit (v OR 0x80000000) 31"
    by (simp add: bit_or_iff bit_top_u32)
  ultimately show ?thesis
    unfolding unat_split_31[of "v OR 0x80000000"] by (simp add: float_magnitude_def)
qed

lemma unat_not_u32: "unat (NOT v :: u32) = 2 ^ 32 - 1 - unat v"
proof -
  have "NOT v = -1 - v" by (simp add: not_eq_complement)
  moreover have "unat (-1 - v) = unat (-1 :: u32) - unat v"
    by (rule unat_sub) (rule word_order.extremum)
  ultimately show ?thesis by (simp add: unsigned_minus_1_eq_mask mask_eq_exp_minus_1)
qed

lemma and_top_u32: "0 < v AND 0x80000000 \<longleftrightarrow> float_sign v"
proof -
  have "v AND 0x80000000 = 0 \<longleftrightarrow> \<not> bit v 31"
  proof
    assume "v AND 0x80000000 = 0"
    then have "\<not> bit (v AND 0x80000000) 31" by simp
    then show "\<not> bit v 31" by (simp add: bit_and_iff bit_top_u32)
  next
    assume "\<not> bit v 31"
    then have "\<not> bit (v AND 0x80000000) n" for n
      by (metis bit_and_iff bit_top_u32)
    then show "v AND 0x80000000 = 0" by (simp add: bit_eq_iff)
  qed
  then show ?thesis by (simp add: word_gt_0 float_sign_def)
qed

lemma and_not_top_u32: "v AND NOT 0x80000000 = (take_bit 31 v :: u32)"
proof (rule bit_word_eqI)
  fix n assume n: "n < LENGTH(32)"
  have "bit (v AND NOT 0x80000000) n \<longleftrightarrow> bit v n \<and> n \<noteq> 31"
    unfolding bit_and_iff bit_not_iff bit_top_u32 using n by auto
  moreover have "bit (take_bit 31 v) n \<longleftrightarrow> n < 31 \<and> bit v n"
    by (rule bit_take_bit_iff)
  ultimately show "bit (v AND NOT 0x80000000) n = bit (take_bit 31 v) n"
    using n by auto
qed

lemma float_num_ge_0: "0 \<le> float_num v \<longleftrightarrow> \<not> float_sign v \<or> float_magnitude v = 0"
  by (simp add: float_num_def)

lemma unat_float_to_uint32:
  assumes "\<not> float_is_nan v"
  shows "unat (float_to_uint32 v) =
    (if \<not> float_sign v \<or> float_magnitude v = 0 then 2 ^ 31 + float_magnitude v
     else 2 ^ 31 - 1 - float_magnitude v)"
proof -
  have "float_ge_0 v \<longleftrightarrow> \<not> float_sign v \<or> float_magnitude v = 0"
    using assms by (simp only: float_ge_0_def float_num_ge_0 simp_thms)
  then show ?thesis
    unfolding float_to_uint32_def using unat_or_top[of v] unat_not_u32[of v] unat_float[of v] by auto
qed

lemma float_num_less_iff_key:
  assumes "\<not> float_is_nan a" and "\<not> float_is_nan b"
  shows "unat (float_to_uint32 a) < unat (float_to_uint32 b) \<longleftrightarrow> float_num a < float_num b"
  unfolding unat_float_to_uint32[OF assms(1)] unat_float_to_uint32[OF assms(2)] float_num_def
  using magnitude_num_less_iff[of "float_magnitude a" "float_magnitude b"]
    magnitude_num_less_iff[of "float_magnitude b" "float_magnitude a"]
    magnitude_num_less_iff[of 0 "float_magnitude a"] magnitude_num_less_iff[of 0 "float_magnitude b"]
    float_magnitude_less[of a] float_magnitude_less[of b]
  by (auto split: if_splits)

lemma u32_eqI: "unat a = unat b \<Longrightarrow> a = (b :: u32)"
  by (simp add: word_unat_eq_iff)

lemma uint32_to_float_neg: "\<not> float_sign k \<Longrightarrow> uint32_to_float k = NOT k"
  and uint32_to_float_pos: "float_sign k \<Longrightarrow> uint32_to_float k = take_bit 31 k"
  by (simp_all only: uint32_to_float_def and_top_u32 and_not_top_u32 if_True if_False not_False_eq_True)

lemma float_sign_unat: "float_sign v \<longleftrightarrow> 2 ^ 31 \<le> unat v"
  using unat_float[of v] float_magnitude_less[of v] by auto

lemma uint32_to_float_to_uint32:
  assumes "\<not> float_is_nan v" and "v \<noteq> 0x80000000"
  shows "uint32_to_float (float_to_uint32 v) = v"
proof (cases "float_sign v")
  case True
  have nz: "float_magnitude v \<noteq> 0"
  proof
    assume "float_magnitude v = 0"
    with True have "unat v = unat (0x80000000 :: u32)" by (simp add: unat_float[of v])
    with assms(2) show False by (blast dest: u32_eqI)
  qed
  then have u: "unat (float_to_uint32 v) = 2 ^ 31 - 1 - float_magnitude v"
    using True assms(1) by (simp add: unat_float_to_uint32)
  then have "\<not> float_sign (float_to_uint32 v)" by (simp add: float_sign_unat)
  then have "uint32_to_float (float_to_uint32 v) = NOT (float_to_uint32 v)"
    by (rule uint32_to_float_neg)
  moreover have "unat (NOT (float_to_uint32 v)) = unat v"
    using u True float_magnitude_less[of v] by (simp add: unat_not_u32 unat_float[of v])
  ultimately show ?thesis by (simp add: u32_eqI)
next
  case False
  then have u: "unat (float_to_uint32 v) = 2 ^ 31 + float_magnitude v"
    using assms(1) by (simp add: unat_float_to_uint32)
  then have s: "float_sign (float_to_uint32 v)" by (simp add: float_sign_unat)
  then have "uint32_to_float (float_to_uint32 v) = take_bit 31 (float_to_uint32 v)"
    by (rule uint32_to_float_pos)
  moreover have "unat (take_bit 31 (float_to_uint32 v)) = unat v"
    using u s False unat_float[of "float_to_uint32 v"] unat_float[of v]
    by (simp add: float_magnitude_def)
  ultimately show ?thesis by (simp add: u32_eqI)
qed

lemma float_eq_iff_key:
  assumes "\<not> float_is_nan a" and "\<not> float_is_nan b"
  shows "float_to_uint32 a = float_to_uint32 b \<longleftrightarrow> float_num a = float_num b"
  using float_num_less_iff_key[OF assms] float_num_less_iff_key[OF assms(2,1)]
  by (auto simp: word_unat_eq_iff linorder_neq_iff)

section \<open>Properties\<close>

text \<open>
  \<^verbatim>\<open>float_to_uint32\<close> maps the floats other than NaN to unsigned integers in
  their numerical order, with the two zeros mapped to the same integer, and \<^verbatim>\<open>uint32_to_float\<close>
  inverts it on all of them but the negative zero.
\<close>

theorem float_key_order:
  assumes "\<not> float_is_nan a" and "\<not> float_is_nan b"
  shows "(float_to_uint32 a < float_to_uint32 b \<longleftrightarrow> float_lt a b)
    \<and> (float_to_uint32 a = float_to_uint32 b \<longleftrightarrow> float_eq a b)
    \<and> (a \<noteq> 0x80000000 \<longrightarrow> uint32_to_float (float_to_uint32 a) = a)"
  using assms float_num_less_iff_key[OF assms] float_eq_iff_key[OF assms]
  by (simp add: float_lt_def float_eq_def word_less_nat_alt uint32_to_float_to_uint32)

theorem float_key_order_witness:
  "float_to_uint32 0xBF800000 < float_to_uint32 0x3F800000
   \<and> uint32_to_float (float_to_uint32 0xBF800000) = 0xBF800000"
proof -
  have "\<not> float_is_nan 0xBF800000" "\<not> float_is_nan 0x3F800000" "float_lt 0xBF800000 0x3F800000"
    by (simp_all add: float_lt_def float_is_nan_def float_magnitude_def float_num_def float_sign_def
        magnitude_num_def)
  then show ?thesis using float_key_order[of "0xBF800000" "0x3F800000"] by simp
qed

end
