(* ===== verification/RobimsTypes.thy ===== *)
theory RobimsTypes
  imports RobimsFloat
begin

text \<open>
  The data types of the \<^verbatim>\<open>robims\<close> library that its components share: the messages and enums of
  \<^verbatim>\<open>robims/robims.proto\<close>, the error codes of \<^verbatim>\<open>robims/robims_err.h\<close> and the argument of a field
  selection. A protobuf \<^verbatim>\<open>double\<close> is its bit pattern. The floating point conversions and
  arithmetic of the C++ implementation are the fields of the record \<open>fpu\<close>, an argument of the
  definitions that use them.
\<close>

datatype FieldIndexType =
    UNKNOWN_INDEX | SET_INDEX | WEIGHT_SET_INDEX | MUTEX_INDEX | INT_INDEX | FLOAT_INDEX | BOOL_INDEX

record FieldMeta =
  fm_name :: string
  fm_index_type :: FieldIndexType
  fm_min :: u64
  fm_max :: u64
  fm_topk_limit :: i64
  fm_max_set_num :: i64

record TableSchema =
  ts_name :: string
  ts_id_field :: string
  ts_index_field :: "FieldMeta list"
  ts_disable_local_id_creation :: bool

datatype FieldOperator =
    FIELD_OP_EQ | FIELD_OP_NEQ | FIELD_OP_GT | FIELD_OP_GTE | FIELD_OP_LT | FIELD_OP_LTE
  | FIELD_OP_BETWEEN | FIELD_OP_ALL

datatype FieldArg = ArgStr string | ArgInt i64 | ArgDouble u64

definition ROBIMS_OK :: int where "ROBIMS_OK = 0"
definition ROBIMS_ERR_UNIMPLEMENTED :: int where "ROBIMS_ERR_UNIMPLEMENTED = -10000"
definition ROBIMS_ERR_NOTFOUND :: int where "ROBIMS_ERR_NOTFOUND = -10001"
definition ROBIMS_ERR_INVALID_ARGS :: int where "ROBIMS_ERR_INVALID_ARGS = -10002"
definition ROBIMS_ERR_INVALID_OPERATOR :: int where "ROBIMS_ERR_INVALID_OPERATOR = -10003"
definition ROBIMS_QUERY_ERR_INVALID_OPERATOR :: int where "ROBIMS_QUERY_ERR_INVALID_OPERATOR = -20000"
definition ROBIMS_QUERY_ERR_INVALID_FIELD_ARGS :: int where "ROBIMS_QUERY_ERR_INVALID_FIELD_ARGS = -20001"
definition ROBIMS_QUERY_ERR_INVALID_TABLE_NAME :: int where "ROBIMS_QUERY_ERR_INVALID_TABLE_NAME = -20002"
definition ROBIMS_QUERY_ERR_INVALID_FIELD_NAME :: int where "ROBIMS_QUERY_ERR_INVALID_FIELD_NAME = -20003"
definition ROBIMS_QUERY_ERR_EMPTY_FIELD_INSTANCE :: int where "ROBIMS_QUERY_ERR_EMPTY_FIELD_INSTANCE = -20004"
definition ROBIMS_QUERY_ERR_INVALID_OPERAND :: int where "ROBIMS_QUERY_ERR_INVALID_OPERAND = -20005"
definition ROBIMS_QUERY_ERR_NIL_INTERPRETER :: int where "ROBIMS_QUERY_ERR_NIL_INTERPRETER = -20006"

lemmas robims_codes = ROBIMS_OK_def ROBIMS_ERR_UNIMPLEMENTED_def ROBIMS_ERR_NOTFOUND_def
  ROBIMS_ERR_INVALID_ARGS_def ROBIMS_ERR_INVALID_OPERATOR_def
  ROBIMS_QUERY_ERR_INVALID_OPERATOR_def ROBIMS_QUERY_ERR_INVALID_FIELD_ARGS_def
  ROBIMS_QUERY_ERR_INVALID_TABLE_NAME_def ROBIMS_QUERY_ERR_INVALID_FIELD_NAME_def
  ROBIMS_QUERY_ERR_EMPTY_FIELD_INSTANCE_def ROBIMS_QUERY_ERR_INVALID_OPERAND_def
  ROBIMS_QUERY_ERR_NIL_INTERPRETER_def

record fpu =
  d2i :: "u64 \<Rightarrow> i64"
  d2f :: "u64 \<Rightarrow> u32"
  i2d :: "i64 \<Rightarrow> u64"
  i2f :: "i64 \<Rightarrow> u32"
  d_add :: "u64 \<Rightarrow> u64 \<Rightarrow> u64"
  d_sub :: "u64 \<Rightarrow> u64 \<Rightarrow> u64"
  d_mul :: "u64 \<Rightarrow> u64 \<Rightarrow> u64"
  d_div :: "u64 \<Rightarrow> u64 \<Rightarrow> u64"
  d_lt :: "u64 \<Rightarrow> u64 \<Rightarrow> bool"
  d_eq :: "u64 \<Rightarrow> u64 \<Rightarrow> bool"

end
