(* ===== verification/RobimsBsi.thy ===== *)
theory RobimsBsi
  imports RobimsBitmap RobimsTypes
begin

text \<open>
  The bit-sliced index of \<^verbatim>\<open>robims/robims_bsi.h\<close> and \<^verbatim>\<open>robims/robims_bsi.cpp\<close>: an index over
  numbers keeps one bitmap of the identifiers that have a value and, for every bit of the value,
  one bitmap of the identifiers whose value has that bit. This theory holds the state and every
  operation of the class \<^verbatim>\<open>BitSliceIndex\<close>; the theories that import it prove what the operations
  compute.

  A loop over the slices is a recursion over the number of slices left; the argument \<open>Suc i\<close> is
  the iteration for slice \<open>i\<close>. A scratch bitmap from \<^verbatim>\<open>acquire_bitmap\<close> starts empty (the theory
  \<open>RobimsCache\<close> shows that the pool hands out empty bitmaps only), so it is \<open>rb_create\<close> here.
  \<open>None\<close> as the result of an operation means that the C++ code has undefined behaviour there:
  a shift of an \<^verbatim>\<open>int\<close> by 32 or more, or an element access beyond the end of a vector.
\<close>

section \<open>Options\<close>

record bsi_options =
  min_int :: i64
  max_int :: i64
  opt_min :: u64
  opt_max :: u64
  limit_topk :: u32

definition INT_MAX :: i64 where
  "INT_MAX = 2147483647"

text \<open>\<^verbatim>\<open>(float)INT_MAX\<close> rounds to \<open>2 ^ 31\<close>.\<close>

definition float_INT_MAX :: u32 where
  "float_INT_MAX = 0x4F000000"

definition SetMinMax_int :: "i64 \<Rightarrow> i64 \<Rightarrow> bsi_options \<Rightarrow> bsi_options" where
  "SetMinMax_int min_i max_i o1 =
     (let mx = (if min_i = 0 \<and> max_i = 0 then INT_MAX else max_i)
      in o1\<lparr>min_int := min_i, max_int := mx, opt_min := 0, opt_max := mx - min_i\<rparr>)"

definition SetMinMax_float :: "u32 \<Rightarrow> u32 \<Rightarrow> bsi_options \<Rightarrow> bsi_options" where
  "SetMinMax_float min_d max_d o1 =
     (let mx = (if float_eq 0 min_d \<and> float_eq 0 max_d then float_INT_MAX else max_d)
      in o1\<lparr>opt_min := ucast (float_to_uint32 min_d), opt_max := ucast (float_to_uint32 mx)\<rparr>)"

definition new_options :: bsi_options where
  "new_options = SetMinMax_int 0 INT_MAX
     \<lparr>min_int = 0, max_int = 0, opt_min = 0, opt_max = 0, limit_topk = 0\<rparr>"

definition Distance :: "bsi_options \<Rightarrow> u64" where
  "Distance o1 = opt_max o1 - opt_min o1"

definition GetActualIntVal :: "bsi_options \<Rightarrow> u64 \<Rightarrow> i64" where
  "GetActualIntVal o1 v = v + min_int o1"

definition GetActualFloatVal :: "bsi_options \<Rightarrow> u64 \<Rightarrow> u32" where
  "GetActualFloatVal o1 v = uint32_to_float (ucast (v + opt_min o1))"

definition ToLocalVal_int :: "bsi_options \<Rightarrow> i64 \<Rightarrow> u64" where
  "ToLocalVal_int o1 v = v - min_int o1"

definition ToLocalVal_float :: "bsi_options \<Rightarrow> u32 \<Rightarrow> u64" where
  "ToLocalVal_float o1 v = ucast (float_to_uint32 v) - opt_min o1"

section \<open>The index\<close>

record 'b bsi =
  options :: bsi_options
  bitmaps :: "'b RoaringBitmap list"
  bit_depth :: nat

definition new_bsi :: "'b bsi" where
  "new_bsi = \<lparr>options = new_options, bitmaps = [], bit_depth = 0\<rparr>"

definition bsi_row :: "'b bsi \<Rightarrow> nat \<Rightarrow> 'b" where
  "bsi_row b k = rbm (bitmaps b ! k)"

definition exist_row :: "'b bsi \<Rightarrow> 'b" where
  "exist_row b = bsi_row b 0"

definition bsi_slice :: "'b bsi \<Rightarrow> nat \<Rightarrow> 'b" where
  "bsi_slice b i = bsi_row b (Suc i)"

definition set_row :: "nat \<Rightarrow> 'b \<Rightarrow> 'b bsi \<Rightarrow> 'b bsi" where
  "set_row k c b = b\<lparr>bitmaps := (bitmaps b)[k := (bitmaps b ! k)\<lparr>rbp := Some c\<rparr>]\<rparr>"

definition bsi_DoInit :: "fpu \<Rightarrow> FieldMeta \<Rightarrow> 'b bsi \<Rightarrow> 'b bsi" where
  "bsi_DoInit F meta b =
     (let o1 = (if fm_index_type meta = FLOAT_INDEX
                then SetMinMax_float (d2f F (fm_min meta)) (d2f F (fm_max meta)) (options b)
                else if fm_index_type meta = SET_INDEX \<or> fm_index_type meta = WEIGHT_SET_INDEX
                then SetMinMax_int 0 (fm_max_set_num meta) (options b)
                else SetMinMax_int (d2i F (fm_min meta)) (d2i F (fm_max meta)) (options b));
          o2 = o1\<lparr>limit_topk := ucast (fm_topk_limit meta)\<rparr>;
          distance = Distance o2;
          depth = (case find (\<lambda>i. distance < push_bit i 1) [0..<64] of
                     Some i \<Rightarrow> i | None \<Rightarrow> bit_depth b)
      in b\<lparr>options := o2, bit_depth := depth\<rparr>)"

definition bsi_Init :: "'b roaring \<Rightarrow> fpu \<Rightarrow> FieldMeta \<Rightarrow> 'b bsi \<Rightarrow> 'b bsi" where
  "bsi_Init R F meta b =
     (let b1 = bsi_DoInit F meta b
      in b1\<lparr>bitmaps := bitmaps b1 @ replicate (bit_depth b1 + 1) (NewCRoaringBitmap R new_RoaringBitmap)\<rparr>)"

text \<open>What every query does first with the bitmap it is given.\<close>

definition start_filter :: "'b roaring \<Rightarrow> 'b bsi \<Rightarrow> 'b \<Rightarrow> 'b" where
  "start_filter R b out =
     (if rb_is_empty R out then rb_overwrite R out (exist_row b) else rb_and R out (exist_row b))"

text \<open>A scratch bitmap overwritten with \<open>src\<close>.\<close>

definition scratch_copy :: "'b roaring \<Rightarrow> 'b \<Rightarrow> 'b" where
  "scratch_copy R src = rb_overwrite R (rb_create R) src"

text \<open>
  The C++ expression \<^verbatim>\<open>(1 << i)\<close> on \<^verbatim>\<open>int\<close>, added to a \<^verbatim>\<open>uint64_t\<close>: the 32-bit result is sign
  extended, and a shift by 32 or more is undefined.
\<close>

definition shl1_int :: "nat \<Rightarrow> u64 option" where
  "shl1_int i = (if i < 32 then Some (scast (push_bit i (1 :: u32))) else None)"

section \<open>Minimum and maximum\<close>

fun max_loop :: "'b roaring \<Rightarrow> 'b bsi \<Rightarrow> nat \<Rightarrow> u64 \<Rightarrow> i64 \<Rightarrow> i64 \<Rightarrow> 'b \<Rightarrow> (u64 \<times> i64) option" where
  "max_loop R b 0 max_val count lnz f = Some (max_val, count)"
| "max_loop R b (Suc i) max_val count lnz f =
     (let tmp = rb_and R (scratch_copy R f) (bsi_slice b i);
          and_count = rb_cardinality R tmp
      in if 0 <s and_count
         then (case shl1_int i of
                 None \<Rightarrow> None
               | Some s \<Rightarrow> max_loop R b i (max_val + s) and_count and_count tmp)
         else max_loop R b i max_val (if i = 0 then lnz else count) lnz f)"

text \<open>\<open>input\<close> is \<open>None\<close> for a null filter; the result holds the filter's new content.\<close>

definition bsi_DoGetMax :: "'b roaring \<Rightarrow> 'b bsi \<Rightarrow> 'b option \<Rightarrow> (u64 \<times> i64 \<times> 'b) option" where
  "bsi_DoGetMax R b input =
     (let f0 = (case input of None \<Rightarrow> rb_create R | Some f \<Rightarrow> f);
          f = start_filter R b f0
      in case max_loop R b (bit_depth b) 0 0 (rb_cardinality R f) f of
           None \<Rightarrow> None
         | Some (mx, count) \<Rightarrow> Some (mx, count, f))"

fun min_loop :: "'b roaring \<Rightarrow> 'b bsi \<Rightarrow> nat \<Rightarrow> u64 \<Rightarrow> i64 \<Rightarrow> i64 \<Rightarrow> 'b \<Rightarrow> (u64 \<times> i64 \<times> 'b) option" where
  "min_loop R b 0 min_val count lnz f = Some (min_val, count, f)"
| "min_loop R b (Suc i) min_val count lnz f =
     (let f' = rb_andnot R f (bsi_slice b i);
          diff_count = rb_cardinality R f'
      in if 0 <s diff_count
         then min_loop R b i min_val diff_count diff_count f'
         else (case shl1_int i of
                 None \<Rightarrow> None
               | Some s \<Rightarrow> min_loop R b i (min_val + s) (if i = 0 then lnz else count) lnz f'))"

definition bsi_DoGetMin :: "'b roaring \<Rightarrow> 'b bsi \<Rightarrow> 'b option \<Rightarrow> (u64 \<times> i64 \<times> 'b) option" where
  "bsi_DoGetMin R b input =
     (let f0 = (case input of None \<Rightarrow> rb_create R | Some f \<Rightarrow> f)
      in min_loop R b (bit_depth b) 0 0 (-1) (start_filter R b f0))"

section \<open>Range queries\<close>

fun lt_loop :: "'b roaring \<Rightarrow> 'b bsi \<Rightarrow> u64 \<Rightarrow> bool \<Rightarrow> nat \<Rightarrow> bool \<Rightarrow> 'b \<Rightarrow> 'b \<Rightarrow> 'b" where
  "lt_loop R b e allow_eq 0 leading_zero keep f = f"
| "lt_loop R b e allow_eq (Suc i) leading_zero keep f =
     (if leading_zero \<and> \<not> bit e i
      then lt_loop R b e allow_eq i True keep (rb_andnot R f (bsi_slice b i))
      else if i = 0 \<and> \<not> allow_eq
      then (if \<not> bit e i then rb_overwrite R f keep
            else rb_andnot R f (rb_andnot R (rb_xor R keep (bsi_slice b i)) (bsi_slice b i)))
      else if \<not> bit e i
      then lt_loop R b e allow_eq i False keep
             (rb_andnot R f (rb_andnot R (scratch_copy R (bsi_slice b i)) keep))
      else if 0 < i
      then lt_loop R b e allow_eq i False
             (rb_or R keep (rb_andnot R (scratch_copy R f) (bsi_slice b i))) f
      else lt_loop R b e allow_eq i False keep f)"

definition bsi_DoRangeLT :: "'b roaring \<Rightarrow> 'b bsi \<Rightarrow> u64 \<Rightarrow> bool \<Rightarrow> 'b \<Rightarrow> 'b" where
  "bsi_DoRangeLT R b expect_val allow_eq out =
     lt_loop R b expect_val allow_eq (bit_depth b) True (rb_create R) (start_filter R b out)"

fun gt_loop :: "'b roaring \<Rightarrow> 'b bsi \<Rightarrow> u64 \<Rightarrow> bool \<Rightarrow> nat \<Rightarrow> 'b \<Rightarrow> 'b \<Rightarrow> 'b" where
  "gt_loop R b e allow_eq 0 keep f = f"
| "gt_loop R b e allow_eq (Suc i) keep f =
     (let unset = rb_andnot R (rb_andnot R (scratch_copy R f) (bsi_slice b i)) keep
      in if i = 0 \<and> \<not> allow_eq
         then (if bit e i then rb_overwrite R f keep else rb_andnot R f unset)
         else if bit e i
         then gt_loop R b e allow_eq i keep (rb_andnot R f unset)
         else if 0 < i
         then gt_loop R b e allow_eq i (rb_or R keep (rb_and R (scratch_copy R f) (bsi_slice b i))) f
         else gt_loop R b e allow_eq i keep f)"

definition bsi_DoRangeGT :: "'b roaring \<Rightarrow> 'b bsi \<Rightarrow> u64 \<Rightarrow> bool \<Rightarrow> 'b \<Rightarrow> 'b" where
  "bsi_DoRangeGT R b expect_val allow_eq out =
     gt_loop R b expect_val allow_eq (bit_depth b) (rb_create R) (start_filter R b out)"

fun eq_loop :: "'b roaring \<Rightarrow> 'b bsi \<Rightarrow> u64 \<Rightarrow> nat \<Rightarrow> 'b \<Rightarrow> 'b" where
  "eq_loop R b e 0 out = out"
| "eq_loop R b e (Suc i) out =
     eq_loop R b e i
       (if bit e i then rb_and R out (bsi_slice b i) else rb_andnot R out (bsi_slice b i))"

definition bsi_DoRangeEQ :: "'b roaring \<Rightarrow> 'b bsi \<Rightarrow> u64 \<Rightarrow> 'b \<Rightarrow> 'b" where
  "bsi_DoRangeEQ R b expect_val out =
     eq_loop R b expect_val (bit_depth b) (start_filter R b out)"

definition bsi_DoRangeNEQ :: "'b roaring \<Rightarrow> 'b bsi \<Rightarrow> u64 \<Rightarrow> 'b \<Rightarrow> 'b" where
  "bsi_DoRangeNEQ R b expect out =
     (let out1 = rb_overwrite R out (exist_row b);
          eq = bsi_DoRangeEQ R b expect (rb_create R)
      in rb_andnot R out1 eq)"

fun between_loop :: "'b roaring \<Rightarrow> 'b bsi \<Rightarrow> u64 \<Rightarrow> u64 \<Rightarrow> nat \<Rightarrow> 'b \<Rightarrow> 'b \<Rightarrow> 'b \<Rightarrow> 'b" where
  "between_loop R b lo hi 0 keep1 keep2 f = f"
| "between_loop R b lo hi (Suc i) keep1 keep2 f =
     (let row = bsi_slice b i;
          f1 = (if bit lo i
                then rb_andnot R f (rb_andnot R (rb_andnot R (scratch_copy R f) row) keep1)
                else f);
          keep1' = (if \<not> bit lo i \<and> 0 < i
                    then rb_or R keep1 (rb_and R (scratch_copy R f) row) else keep1);
          f2 = (if \<not> bit hi i
                then rb_andnot R f1 (rb_andnot R (scratch_copy R row) keep2) else f1);
          keep2' = (if bit hi i \<and> 0 < i
                    then rb_or R keep2 (rb_andnot R (scratch_copy R f1) row) else keep2)
      in between_loop R b lo hi i keep1' keep2' f2)"

definition bsi_DoRangeBetween :: "'b roaring \<Rightarrow> 'b bsi \<Rightarrow> u64 \<Rightarrow> u64 \<Rightarrow> 'b \<Rightarrow> 'b" where
  "bsi_DoRangeBetween R b expect_min expect_max f =
     between_loop R b expect_min expect_max (bit_depth b) (rb_create R) (rb_create R)
       (start_filter R b f)"

section \<open>The largest values\<close>

text \<open>
  The comparison of the \<^verbatim>\<open>int\<close> cardinality with the \<^verbatim>\<open>uint32_t\<close> rest converts the former to
  \<^verbatim>\<open>uint32_t\<close>.
\<close>

fun topk_loop :: "'b roaring \<Rightarrow> 'b bsi \<Rightarrow> u32 \<Rightarrow> nat \<Rightarrow> u32 \<Rightarrow> 'b \<Rightarrow> 'b \<Rightarrow> 'b" where
  "topk_loop R b k 0 rest_k f out = out"
| "topk_loop R b k (Suc i) rest_k f out =
     (let tmp = scratch_copy R f;
          f1 = rb_and R f (bsi_slice b i);
          n = (ucast (rb_cardinality R f1) :: u32)
      in if rest_k < n then topk_loop R b k i rest_k f1 out
         else if n < rest_k
         then (if n = 0 \<and> 0 < i then topk_loop R b k i rest_k (rb_overwrite R f1 tmp) out
               else let out1 = rb_or R out f1;
                        rest1 = ucast (ucast k - rb_cardinality R out1);
                        tmp1 = rb_andnot R tmp out1
                    in topk_loop R b k i rest1 (rb_overwrite R f1 tmp1) out1)
         else rb_or R out f1)"

definition bsi_TopK :: "'b roaring \<Rightarrow> 'b bsi \<Rightarrow> u32 \<Rightarrow> 'b \<Rightarrow> 'b" where
  "bsi_TopK R b k out = topk_loop R b k (bit_depth b) k (scratch_copy R (exist_row b)) out"

section \<open>Reading and writing values\<close>

primrec remove_bits :: "'b roaring \<Rightarrow> u32 \<Rightarrow> u64 \<Rightarrow> nat \<Rightarrow> 'b bsi \<Rightarrow> 'b bsi" where
  "remove_bits R idx val 0 b = b"
| "remove_bits R idx val (Suc i) b =
     (let b1 = remove_bits R idx val i b
      in if bit val i then set_row (i + 1) (rb_remove R (bsi_slice b1 i) idx) b1 else b1)"

definition bsi_DoRemove :: "'b roaring \<Rightarrow> u32 \<Rightarrow> u64 \<Rightarrow> 'b bsi \<Rightarrow> 'b bsi" where
  "bsi_DoRemove R idx val b =
     remove_bits R idx val (bit_depth b) (set_row 0 (rb_remove R (exist_row b) idx) b)"

definition bsi_DoRemoveMin :: "'b roaring \<Rightarrow> 'b bsi \<Rightarrow> (u64 \<times> 'b bsi) option" where
  "bsi_DoRemoveMin R b =
     (case bsi_DoGetMin R b (Some (rb_create R)) of
        None \<Rightarrow> None
      | Some (min_val, min_count, _) \<Rightarrow>
          if 0 <s min_count
          then (case bitmap_extract_ids R (bsi_DoRangeEQ R b min_val (rb_create R)) of
                  Some (idx # _) \<Rightarrow> Some (min_val, bsi_DoRemove R idx min_val b)
                | _ \<Rightarrow> None)
          else Some (0, b))"

primrec put_bits :: "'b roaring \<Rightarrow> u32 \<Rightarrow> u64 \<Rightarrow> nat \<Rightarrow> 'b bsi \<Rightarrow> 'b bsi" where
  "put_bits R idx val 0 b = b"
| "put_bits R idx val (Suc i) b =
     (let b1 = put_bits R idx val i b
      in set_row (i + 1)
           (if bit val i then rb_add R (bsi_slice b1 i) idx else rb_remove R (bsi_slice b1 i) idx) b1)"

primrec get_bits :: "'b roaring \<Rightarrow> u32 \<Rightarrow> nat \<Rightarrow> 'b bsi \<Rightarrow> u64" where
  "get_bits R idx 0 b = 0"
| "get_bits R idx (Suc i) b =
     (if rb_contains R (bsi_slice b i) idx then get_bits R idx i b + push_bit i 1 else get_bits R idx i b)"

text \<open>
  The result of \<open>bsi_DoPut\<close> is the new index and, when the identifier was present before, its old
  value. The loop of the update branch reads slice \<open>i\<close> before it writes it, so the old value is
  read from the index as it was.
\<close>

definition bsi_DoPut :: "'b roaring \<Rightarrow> u32 \<Rightarrow> u64 \<Rightarrow> 'b bsi \<Rightarrow> ('b bsi \<times> u64 option) option" where
  "bsi_DoPut R idx val b =
     (let inserted = (\<not> rb_contains R (exist_row b) idx);
          b1 = set_row 0 (rb_add R (exist_row b) idx) b
      in if inserted
         then (let b2 = put_bits R idx val (bit_depth b1) b1
               in if 0 < limit_topk (options b2) \<and>
                     ucast (limit_topk (options b2)) < rb_cardinality R (exist_row b2)
                  then (case bsi_DoRemoveMin R b2 of
                          None \<Rightarrow> None | Some (_, b3) \<Rightarrow> Some (b3, None))
                  else Some (b2, None))
         else Some (put_bits R idx val (bit_depth b1) b1, Some (get_bits R idx (bit_depth b1) b1)))"

definition bsi_DoGet :: "'b roaring \<Rightarrow> u32 \<Rightarrow> 'b bsi \<Rightarrow> u64 option" where
  "bsi_DoGet R idx b =
     (if \<not> rb_contains R (exist_row b) idx then None else Some (get_bits R idx (bit_depth b) b))"

end
