(* ===== verification/RobimsBsiRange.thy ===== *)
theory RobimsBsiRange
  imports RobimsBsi
begin

text \<open>
  What the range queries of the bit-sliced index compute. \<open>bsi_val\<close> is the number the slices hold
  for an identifier; a query over the index is characterised by a condition on these numbers. The
  lemmas are proved once for every bitmap library that meets the laws of \<open>roaring_api\<close>.
\<close>

definition bsi_ids :: "'b roaring \<Rightarrow> 'b bsi \<Rightarrow> u32 set" where
  "bsi_ids R b = rb_bits R (exist_row b)"

definition bsi_val :: "'b roaring \<Rightarrow> 'b bsi \<Rightarrow> u32 \<Rightarrow> nat" where
  "bsi_val R b x =
     horner_sum of_bool 2 (map (\<lambda>i. rb_contains R (bsi_slice b i) x) [0..<bit_depth b])"

text \<open>The identifiers a query with the bitmap \<open>out\<close> starts from.\<close>

definition bsi_sel :: "'b roaring \<Rightarrow> 'b bsi \<Rightarrow> 'b \<Rightarrow> u32 set" where
  "bsi_sel R b out =
     (if rb_bits R out = {} then bsi_ids R b else rb_bits R out \<inter> bsi_ids R b)"

text \<open>The part of an operand the slices can represent.\<close>

definition bsi_operand :: "'b bsi \<Rightarrow> u64 \<Rightarrow> nat" where
  "bsi_operand b e = take_bit (bit_depth b) (unat e)"

lemma bit_bsi_val: "bit (bsi_val R b x) i \<longleftrightarrow> i < bit_depth b \<and> x \<in> rb_bits R (bsi_slice b i)"
  by (auto simp: bsi_val_def bit_horner_sum_bit_iff rb_bits_def)

lemma bsi_val_less: "bsi_val R b x < 2 ^ bit_depth b"
  using horner_sum_of_bool_2_less[of "map (\<lambda>i. rb_contains R (bsi_slice b i) x) [0..<bit_depth b]"]
  by (simp add: bsi_val_def)

lemma bsi_operand_less: "bsi_operand b e < 2 ^ bit_depth b"
  by (simp add: bsi_operand_def)

lemma bsi_operand_eq: "unat e < 2 ^ bit_depth b \<Longrightarrow> bsi_operand b e = unat e"
  by (simp add: bsi_operand_def take_bit_nat_eq_self)

lemma bit_bsi_operand: "bit (bsi_operand b e) i \<longleftrightarrow> i < bit_depth b \<and> bit e i"
  by (auto simp: bsi_operand_def bit_take_bit_iff bit_unsigned_iff dest: bit_imp_le_length)

lemma drop_bit_step: "drop_bit i n = 2 * drop_bit (Suc i) n + of_bool (bit n i)" for n :: nat
  by (simp add: bit_iff_odd_drop_bit drop_bit_Suc drop_bit_half mod_2_eq_odd[symmetric])

lemma drop_bit_eq_0: "n < 2 ^ k \<Longrightarrow> drop_bit k n = 0" for n :: nat
  by (simp add: drop_bit_eq_div)

lemma bsi_val_step:
  "i < bit_depth b \<Longrightarrow>
     drop_bit i (bsi_val R b x) = 2 * drop_bit (Suc i) (bsi_val R b x)
       + (if x \<in> rb_bits R (bsi_slice b i) then 1 else 0)"
  using drop_bit_step[of i "bsi_val R b x"] by (simp add: bit_bsi_val)

lemma bsi_operand_step:
  "i < bit_depth b \<Longrightarrow>
     drop_bit i (bsi_operand b e) = 2 * drop_bit (Suc i) (bsi_operand b e)
       + (if bit e i then 1 else 0)"
  using drop_bit_step[of i "bsi_operand b e"] by (simp add: bit_bsi_operand)

text \<open>Comparisons of two numbers whose last bits are known.\<close>

lemma double_cmp:
  "Suc (2 * m) \<le> 2 * n \<longleftrightarrow> m < n"
  "2 * m \<le> Suc (2 * n) \<longleftrightarrow> m \<le> n"
  "Suc (2 * m) < 2 * n \<longleftrightarrow> m < n"
  "2 * m < Suc (2 * n) \<longleftrightarrow> m \<le> n"
  "Suc (2 * m) \<noteq> 2 * n"
  "2 * m \<noteq> Suc (2 * n)"
  by arith+

lemma half_cmp:
  "odd n \<Longrightarrow> m \<le> n \<longleftrightarrow> m div 2 \<le> n div 2"
  "even n \<Longrightarrow> m < n \<longleftrightarrow> m div 2 < n div 2"
  "odd n \<Longrightarrow> n < m \<longleftrightarrow> n div 2 < m div 2"
  "even n \<Longrightarrow> n < m \<longleftrightarrow> n div 2 \<le> m div 2 \<and> (odd m \<or> n div 2 < m div 2)"
  for m n :: nat
  by presburger+

lemmas bsi_top = drop_bit_eq_0[OF bsi_val_less] drop_bit_eq_0[OF bsi_operand_less]

text \<open>
  What \<^verbatim>\<open>DoRangeLT\<close> tests of a value \<open>v\<close> with the operand \<open>e\<close>. Without equality this is \<open>v < e\<close>
  for an even operand other than 0 only.
\<close>

definition lt_test :: "bool \<Rightarrow> nat \<Rightarrow> nat \<Rightarrow> bool" where
  "lt_test allow_eq e v \<longleftrightarrow>
     (if allow_eq then v \<le> e
      else if e = 0 then v = 0
      else if even e then v < e
      else v \<le> e \<and> (v div 2 < e div 2 \<longrightarrow> odd v))"

context roaring_api
begin

lemma bits_start_filter [simp]: "rb_bits R (start_filter R b out) = bsi_sel R b out"
  by (simp add: start_filter_def bsi_sel_def bsi_ids_def)

lemma bits_scratch_copy [simp]: "rb_bits R (scratch_copy R c) = rb_bits R c"
  by (simp add: scratch_copy_def)

lemma eq_loop_bits:
  assumes "n \<le> bit_depth b"
    and "rb_bits R f = {x \<in> F. drop_bit n (bsi_val R b x) = drop_bit n (bsi_operand b e)}"
  shows "rb_bits R (eq_loop R b e n f) = {x \<in> F. bsi_val R b x = bsi_operand b e}"
  using assms
proof (induction n arbitrary: f)
  case 0
  then show ?case by simp
next
  case (Suc i)
  then have i: "i < bit_depth b" by simp
  show ?case
    unfolding eq_loop.simps
  proof (rule Suc.IH)
    show "i \<le> bit_depth b" using i by simp
    show "rb_bits R (if bit e i then rb_and R f (bsi_slice b i) else rb_andnot R f (bsi_slice b i)) =
        {x \<in> F. drop_bit i (bsi_val R b x) = drop_bit i (bsi_operand b e)}"
      unfolding bsi_val_step[OF i] bsi_operand_step[OF i]
      by (rule set_eqI) (simp add: Suc.prems(2) double_cmp)
  qed
qed

text \<open>The slices and the operand at the last bit, in terms of parity and halves.\<close>

lemma last_bit:
  assumes "0 < bit_depth b"
  shows "x \<in> rb_bits R (bsi_slice b 0) \<longleftrightarrow> odd (bsi_val R b x)"
    and "bit e 0 \<longleftrightarrow> odd (bsi_operand b e)"
  using assms bit_bsi_val[of R b x 0] bit_bsi_operand[of b e 0] by (simp_all add: bit_0)

lemma drop_bit_Suc_0: "drop_bit (Suc 0) n = n div 2" for n :: nat
  by (simp add: drop_bit_Suc)

lemma lt_last_bits:
  assumes d: "0 < bit_depth b"
    and f: "rb_bits R f = {x \<in> F. drop_bit (Suc 0) (bsi_val R b x) \<le> drop_bit (Suc 0) (bsi_operand b e)}"
    and k: "rb_bits R keep = {x \<in> F. drop_bit (Suc 0) (bsi_val R b x) < drop_bit (Suc 0) (bsi_operand b e)}"
    and lz: "lz \<longleftrightarrow> drop_bit (Suc 0) (bsi_operand b e) = 0"
    and nlz: "\<not> (lz \<and> \<not> bit e 0)"
  shows "rb_bits R (lt_loop R b e False (Suc 0) lz keep f)
       = {x \<in> F. lt_test False (bsi_operand b e) (bsi_val R b x)}"
proof (cases "bit e 0")
  case True
  then have odd: "odd (bsi_operand b e)" by (simp add: last_bit[OF d])
  have "lt_test False (bsi_operand b e) v \<longleftrightarrow> v div 2 \<le> bsi_operand b e div 2
      \<and> (v div 2 < bsi_operand b e div 2 \<longrightarrow> odd v)" for v
    using odd odd_pos[OF odd] half_cmp(1)[OF odd, of v] by (simp add: lt_test_def)
  moreover have "rb_bits R (lt_loop R b e False (Suc 0) lz keep f)
      = rb_bits R f - (rb_bits R keep - rb_bits R (bsi_slice b 0))"
    using True by auto
  moreover have "\<dots> = {x \<in> F. bsi_val R b x div 2 \<le> bsi_operand b e div 2
      \<and> (bsi_val R b x div 2 < bsi_operand b e div 2 \<longrightarrow> odd (bsi_val R b x))}"
    unfolding f k drop_bit_Suc_0 using last_bit(1)[OF d] by blast
  ultimately show ?thesis by simp
next
  case False
  then have even: "even (bsi_operand b e)" by (simp add: last_bit[OF d])
  from False nlz lz have "bsi_operand b e div 2 \<noteq> 0" by (simp add: drop_bit_Suc_0)
  then have "lt_test False (bsi_operand b e) v \<longleftrightarrow> v div 2 < bsi_operand b e div 2" for v
    using even half_cmp(2)[OF even, of v] by (auto simp: lt_test_def)
  moreover have "rb_bits R (lt_loop R b e False (Suc 0) lz keep f) = rb_bits R keep"
    using False nlz by auto
  ultimately show ?thesis by (simp add: k drop_bit_Suc_0)
qed

lemma lt_loop_bits:
  assumes "n \<le> bit_depth b"
    and "rb_bits R f = {x \<in> F. drop_bit n (bsi_val R b x) \<le> drop_bit n (bsi_operand b e)}"
    and "0 < n \<Longrightarrow> rb_bits R keep = {x \<in> F. drop_bit n (bsi_val R b x) < drop_bit n (bsi_operand b e)}"
    and "lz \<longleftrightarrow> drop_bit n (bsi_operand b e) = 0"
    and "n = 0 \<Longrightarrow> allow_eq \<or> lz"
  shows "rb_bits R (lt_loop R b e allow_eq n lz keep f)
       = {x \<in> F. lt_test allow_eq (bsi_operand b e) (bsi_val R b x)}"
  using assms
proof (induction n arbitrary: f keep lz)
  case 0
  then show ?case by (cases allow_eq) (simp_all add: lt_test_def)
next
  case (Suc i)
  then have i: "i < bit_depth b" by simp
  note step = bsi_val_step[OF i] bsi_operand_step[OF i]
  have f: "rb_bits R f = {x \<in> F. drop_bit (Suc i) (bsi_val R b x) \<le> drop_bit (Suc i) (bsi_operand b e)}"
    and k: "rb_bits R keep = {x \<in> F. drop_bit (Suc i) (bsi_val R b x) < drop_bit (Suc i) (bsi_operand b e)}"
    using Suc.prems by simp_all
  consider (lead) "lz" "\<not> bit e i"
    | (last0) "\<not> (lz \<and> \<not> bit e i)" "i = 0" "\<not> allow_eq"
    | (zero) "\<not> lz" "\<not> bit e i" "\<not> (i = 0 \<and> \<not> allow_eq)"
    | (one) "bit e i" "0 < i"
    | (one0) "bit e i" "i = 0" "allow_eq"
    by blast
  then show ?case
  proof cases
    case lead
    then have "rb_bits R (lt_loop R b e allow_eq i True keep (rb_andnot R f (bsi_slice b i)))
       = {x \<in> F. lt_test allow_eq (bsi_operand b e) (bsi_val R b x)}"
      using Suc.prems i
      by (intro Suc.IH) (auto simp: step f k double_cmp)
    with lead show ?thesis by simp
  next
    case zero
    then have "rb_bits R (lt_loop R b e allow_eq i False keep
           (rb_andnot R f (rb_andnot R (scratch_copy R (bsi_slice b i)) keep)))
       = {x \<in> F. lt_test allow_eq (bsi_operand b e) (bsi_val R b x)}"
      using Suc.prems i
      by (intro Suc.IH) (auto simp: step f k double_cmp)
    with zero show ?thesis by (auto simp del: bits_laws)
  next
    case one
    then have "rb_bits R (lt_loop R b e allow_eq i False
           (rb_or R keep (rb_andnot R (scratch_copy R f) (bsi_slice b i))) f)
       = {x \<in> F. lt_test allow_eq (bsi_operand b e) (bsi_val R b x)}"
      using Suc.prems i
      by (intro Suc.IH) (auto simp: step f k double_cmp)
    with one show ?thesis by simp
  next
    case one0
    then have "odd (bsi_operand b e)"
      using bit_bsi_operand[of b e 0] i by (simp add: bit_0)
    with one0 half_cmp(1)[of "bsi_operand b e"] show ?thesis
      by (auto simp: f lt_test_def drop_bit_Suc)
  next
    case last0
    have "rb_bits R (lt_loop R b e False (Suc 0) lz keep f)
       = {x \<in> F. lt_test False (bsi_operand b e) (bsi_val R b x)}"
      by (rule lt_last_bits) (use i f k Suc.prems(4) last0 in auto)
    with last0 show ?thesis by simp
  qed
qed

lemma gt_last_bits:
  assumes d: "0 < bit_depth b"
    and f: "rb_bits R f = {x \<in> F. drop_bit (Suc 0) (bsi_operand b e) \<le> drop_bit (Suc 0) (bsi_val R b x)}"
    and k: "rb_bits R keep = {x \<in> F. drop_bit (Suc 0) (bsi_operand b e) < drop_bit (Suc 0) (bsi_val R b x)}"
  shows "rb_bits R (gt_loop R b e False (Suc 0) keep f) = {x \<in> F. bsi_operand b e < bsi_val R b x}"
proof (cases "bit e 0")
  case True
  then have odd: "odd (bsi_operand b e)" by (simp add: last_bit[OF d])
  from True show ?thesis by (simp add: Let_def k drop_bit_Suc_0 half_cmp(3)[OF odd])
next
  case False
  then have even: "even (bsi_operand b e)" by (simp add: last_bit[OF d])
  from False have "rb_bits R (gt_loop R b e False (Suc 0) keep f)
      = rb_bits R f \<inter> (rb_bits R (bsi_slice b 0) \<union> rb_bits R keep)"
    by auto
  also have "\<dots> = {x \<in> F. bsi_operand b e < bsi_val R b x}"
    unfolding f k drop_bit_Suc_0 half_cmp(4)[OF even] using last_bit(1)[OF d] by blast
  finally show ?thesis .
qed

lemma gt_loop_bits:
  assumes "n \<le> bit_depth b"
    and "rb_bits R f = {x \<in> F. drop_bit n (bsi_operand b e) \<le> drop_bit n (bsi_val R b x)}"
    and "0 < n \<Longrightarrow> rb_bits R keep = {x \<in> F. drop_bit n (bsi_operand b e) < drop_bit n (bsi_val R b x)}"
    and "n = 0 \<Longrightarrow> allow_eq"
  shows "rb_bits R (gt_loop R b e allow_eq n keep f)
       = {x \<in> F. if allow_eq then bsi_operand b e \<le> bsi_val R b x
                  else bsi_operand b e < bsi_val R b x}"
  using assms
proof (induction n arbitrary: f keep)
  case 0
  then show ?case by simp
next
  case (Suc i)
  then have i: "i < bit_depth b" by simp
  note step = bsi_val_step[OF i] bsi_operand_step[OF i]
  have f: "rb_bits R f = {x \<in> F. drop_bit (Suc i) (bsi_operand b e) \<le> drop_bit (Suc i) (bsi_val R b x)}"
    and k: "rb_bits R keep = {x \<in> F. drop_bit (Suc i) (bsi_operand b e) < drop_bit (Suc i) (bsi_val R b x)}"
    using Suc.prems by simp_all
  let ?unset = "rb_andnot R (rb_andnot R (scratch_copy R f) (bsi_slice b i)) keep"
  let ?keep = "rb_or R keep (rb_and R (scratch_copy R f) (bsi_slice b i))"
  consider (last0) "i = 0" "\<not> allow_eq" | (one) "bit e i" "i = 0 \<Longrightarrow> allow_eq"
    | (zero) "\<not> bit e i" "0 < i" | (zero0) "\<not> bit e i" "i = 0" "allow_eq"
    by blast
  then show ?case
  proof cases
    case last0
    then show ?thesis using gt_last_bits[of b f F e keep] f k i by simp
  next
    case one
    then have "gt_loop R b e allow_eq (Suc i) keep f = gt_loop R b e allow_eq i keep (rb_andnot R f ?unset)"
      by (auto simp: Let_def)
    then show ?thesis
      using one i by (simp only:, intro Suc.IH) (auto simp: step f k double_cmp)
  next
    case zero
    then have "gt_loop R b e allow_eq (Suc i) keep f = gt_loop R b e allow_eq i ?keep f"
      by (auto simp: Let_def)
    then show ?thesis
      using zero i by (simp only:, intro Suc.IH) (auto simp: step f k double_cmp)
  next
    case zero0
    then have "even (bsi_operand b e)" using i by (simp add: last_bit)
    with zero0 have "bsi_operand b e \<le> m \<longleftrightarrow> bsi_operand b e div 2 \<le> m div 2" for m by presburger
    with zero0 show ?thesis by (simp add: f drop_bit_Suc_0)
  qed
qed

text \<open>
  In \<^verbatim>\<open>DoRangeBetween\<close> the kept sets matter only on the identifiers still in the filter, since the
  other bound may have removed some of them.
\<close>

lemma between_loop_bits:
  assumes "n \<le> bit_depth b"
    and "\<And>x. x \<in> rb_bits R f \<longleftrightarrow> x \<in> F \<and> drop_bit n (bsi_operand b lo) \<le> drop_bit n (bsi_val R b x)
            \<and> drop_bit n (bsi_val R b x) \<le> drop_bit n (bsi_operand b hi)"
    and "\<And>x. 0 < n \<Longrightarrow> x \<in> rb_bits R f \<Longrightarrow>
            x \<in> rb_bits R keep1 \<longleftrightarrow> drop_bit n (bsi_operand b lo) < drop_bit n (bsi_val R b x)"
    and "\<And>x. 0 < n \<Longrightarrow> x \<in> rb_bits R f \<Longrightarrow>
            x \<in> rb_bits R keep2 \<longleftrightarrow> drop_bit n (bsi_val R b x) < drop_bit n (bsi_operand b hi)"
  shows "rb_bits R (between_loop R b lo hi n keep1 keep2 f)
       = {x \<in> F. bsi_operand b lo \<le> bsi_val R b x \<and> bsi_val R b x \<le> bsi_operand b hi}"
  using assms
proof (induction n arbitrary: f keep1 keep2)
  case 0
  then show ?case by auto
next
  case (Suc i)
  then have i: "i < bit_depth b" by simp
  note step = bsi_val_step[OF i] bsi_operand_step[OF i]
  have f: "x \<in> rb_bits R f \<longleftrightarrow> x \<in> F \<and> drop_bit (Suc i) (bsi_operand b lo) \<le> drop_bit (Suc i) (bsi_val R b x)
            \<and> drop_bit (Suc i) (bsi_val R b x) \<le> drop_bit (Suc i) (bsi_operand b hi)" for x
    by (rule Suc.prems)
  have k1: "x \<in> rb_bits R keep1 \<longleftrightarrow> drop_bit (Suc i) (bsi_operand b lo) < drop_bit (Suc i) (bsi_val R b x)"
    if "x \<in> rb_bits R f" for x
    using Suc.prems(3) that by simp
  have k2: "x \<in> rb_bits R keep2 \<longleftrightarrow> drop_bit (Suc i) (bsi_val R b x) < drop_bit (Suc i) (bsi_operand b hi)"
    if "x \<in> rb_bits R f" for x
    using Suc.prems(4) that by simp
  note k = k1[unfolded f] k2[unfolded f]
  show ?case
    unfolding between_loop.simps Let_def
    by (intro Suc.IH) (use i in \<open>auto simp: step f k double_cmp split: if_splits\<close>)
qed

lemma DoRangeEQ_bits:
  "rb_bits R (bsi_DoRangeEQ R b e out) = {x \<in> bsi_sel R b out. bsi_val R b x = bsi_operand b e}"
  unfolding bsi_DoRangeEQ_def by (rule eq_loop_bits) (simp_all add: bsi_top)

lemma DoRangeNEQ_bits:
  "rb_bits R (bsi_DoRangeNEQ R b e out) = {x \<in> bsi_ids R b. bsi_val R b x \<noteq> bsi_operand b e}"
  by (auto simp: bsi_DoRangeNEQ_def Let_def DoRangeEQ_bits bsi_sel_def bsi_ids_def)

lemma DoRangeLT_bits:
  "rb_bits R (bsi_DoRangeLT R b e allow_eq out)
     = {x \<in> bsi_sel R b out. lt_test allow_eq (bsi_operand b e) (bsi_val R b x)}"
  unfolding bsi_DoRangeLT_def by (rule lt_loop_bits) (simp_all add: bsi_top)

lemma DoRangeGT_bits:
  "0 < bit_depth b \<or> allow_eq \<Longrightarrow> rb_bits R (bsi_DoRangeGT R b e allow_eq out)
     = {x \<in> bsi_sel R b out. if allow_eq then bsi_operand b e \<le> bsi_val R b x
                               else bsi_operand b e < bsi_val R b x}"
  unfolding bsi_DoRangeGT_def by (rule gt_loop_bits) (auto simp: bsi_top)

lemma DoRangeBetween_bits:
  "rb_bits R (bsi_DoRangeBetween R b lo hi out)
     = {x \<in> bsi_sel R b out. bsi_operand b lo \<le> bsi_val R b x \<and> bsi_val R b x \<le> bsi_operand b hi}"
  unfolding bsi_DoRangeBetween_def by (rule between_loop_bits) (simp_all add: bsi_top)

end

section \<open>Properties\<close>

text \<open>
  An index of depth 3 over the list instance, with the values 5, 2 and 7 for the identifiers 1, 2
  and 3, on which the properties are evaluated.
\<close>

definition sample_bsi :: "u32 list bsi" where
  "sample_bsi = \<lparr>options = new_options,
     bitmaps = map (\<lambda>c. \<lparr>rbp = Some c, rb_readonly = False\<rparr>) [[1, 2, 3], [1, 3], [2, 3], [1, 3]],
     bit_depth = 3\<rparr>"

lemma sample_bsi_simps:
  "bit_depth sample_bsi = 3"
  "bsi_ids list_roaring sample_bsi = {1, 2, 3}"
  "bsi_val list_roaring sample_bsi 1 = 5"
  "bsi_val list_roaring sample_bsi 2 = 2"
  "bsi_val list_roaring sample_bsi 3 = 7"
  by (simp_all add: sample_bsi_def bsi_ids_def exist_row_def bsi_row_def rbm_def bsi_val_def bsi_slice_def
      upt_rec eval_nat_numeral)

text \<open>
  \<^verbatim>\<open>DoRangeEQ\<close> leaves in the output bitmap exactly the identifiers of the
  selection (the output bitmap cut down to the existing identifiers, or all of them when it came in
  empty) whose value is the operand; \<^verbatim>\<open>DoRangeNEQ\<close> leaves all existing identifiers with another
  value, whatever the output bitmap held.
\<close>

theorem bsi_range_eq:
  assumes "roaring_api R" and "unat e < 2 ^ bit_depth b"
  shows "rb_bits R (bsi_DoRangeEQ R b e out) = {x \<in> bsi_sel R b out. bsi_val R b x = unat e}
    \<and> rb_bits R (bsi_DoRangeNEQ R b e out) = {x \<in> bsi_ids R b. bsi_val R b x \<noteq> unat e}"
  using assms
  by (simp add: roaring_api.DoRangeEQ_bits roaring_api.DoRangeNEQ_bits bsi_operand_eq)

theorem bsi_range_eq_witness:
  "set (bsi_DoRangeEQ list_roaring sample_bsi 5 []) = {1}
   \<and> set (bsi_DoRangeNEQ list_roaring sample_bsi 5 []) = {2, 3}"
  using bsi_range_eq[OF lr.roaring_api_axioms, of 5 sample_bsi "[]"]
  by (simp add: sample_bsi_simps bsi_sel_def filter_insert del: insert_iff)

text \<open>
  \<^verbatim>\<open>DoRangeGT\<close> leaves exactly the selected identifiers whose value is greater
  than the operand, or at least the operand when equality is allowed.
\<close>

theorem bsi_range_gt:
  assumes "roaring_api R" and "unat e < 2 ^ bit_depth b" and "0 < bit_depth b"
  shows "rb_bits R (bsi_DoRangeGT R b e allow_eq out)
    = {x \<in> bsi_sel R b out. unat e < bsi_val R b x \<or> allow_eq \<and> unat e = bsi_val R b x}"
  using assms by (auto simp: roaring_api.DoRangeGT_bits bsi_operand_eq)

theorem bsi_range_gt_witness:
  "set (bsi_DoRangeGT list_roaring sample_bsi 5 False []) = {3}
   \<and> set (bsi_DoRangeGT list_roaring sample_bsi 5 True []) = {1, 3}"
  using bsi_range_gt[OF lr.roaring_api_axioms, of 5 sample_bsi False "[]"]
    bsi_range_gt[OF lr.roaring_api_axioms, of 5 sample_bsi True "[]"]
  by (simp add: sample_bsi_simps bsi_sel_def filter_insert del: insert_iff)



text \<open>
  \<^verbatim>\<open>DoRangeBetween\<close> leaves exactly the selected identifiers whose value
  lies between the two operands, both included.
\<close>

theorem bsi_range_between:
  assumes "roaring_api R" and "unat lo < 2 ^ bit_depth b" and "unat hi < 2 ^ bit_depth b"
  shows "rb_bits R (bsi_DoRangeBetween R b lo hi out)
    = {x \<in> bsi_sel R b out. unat lo \<le> bsi_val R b x \<and> bsi_val R b x \<le> unat hi}"
  using assms by (simp add: roaring_api.DoRangeBetween_bits bsi_operand_eq)

theorem bsi_range_between_witness:
  "set (bsi_DoRangeBetween list_roaring sample_bsi 3 7 []) = {1, 3}"
  using bsi_range_between[OF lr.roaring_api_axioms, of 3 sample_bsi 7 "[]"]
  by (simp add: sample_bsi_simps bsi_sel_def filter_insert del: insert_iff)

end
