(* ===== verification/RobimsBsiOrder.thy ===== *)
theory RobimsBsiOrder
  imports RobimsBsiRange
begin

text \<open>
  The minimum and maximum queries of the bit-sliced index, the removal of the minimum and the query
  for the largest values. The maximum is found by following the greatest value from the top slice
  down. The minimum query subtracts every slice from its filter and never restores it, so it finds
  the smallest value only when that value is a power of two less one; the lemmas state what it
  computes in general.
\<close>

section \<open>Cardinalities and shifts\<close>

lemma signed_pos_iff:
  fixes w :: u64
  assumes "unat w < 2 ^ 63"
  shows "0 <s w \<longleftrightarrow> w \<noteq> 0"
proof -
  have "int (unat w) < int (2 ^ 63)" using assms by (simp only: of_nat_less_iff)
  then have "uint w < 2 ^ 63" by simp
  moreover have "- (2 ^ 63) \<le> uint w" by (rule order_trans[OF _ uint_ge_0]) simp
  ultimately have "signed_take_bit 63 (uint w) = uint w"
    by (rule signed_take_bit_int_eq_self[rotated])
  then have "sint w = uint w" by (simp add: sint_uint)
  moreover have "0 < uint w \<longleftrightarrow> w \<noteq> 0"
    using uint_0_iff[of w] uint_ge_0[of w] by linarith
  ultimately show ?thesis by (simp add: word_sless_alt)
qed

lemma of_nat_exp_minus_1: "of_nat (2 ^ L - 1) = (2 ^ L - 1 :: u64)"
  by (simp add: of_nat_diff)

lemma signed_pos_card:
  assumes "S \<noteq> {}"
  shows "0 <s (of_nat (card (S :: u32 set)) :: u64)"
proof -
  have "card S \<le> card (UNIV :: u32 set)" by (rule card_mono) simp_all
  then have c: "card S \<le> 2 ^ 32" by (simp add: card_word)
  then have u: "unat (of_nat (card S) :: u64) = card S" by (simp add: unat_of_nat)
  moreover have "card S \<noteq> 0" using assms by simp
  ultimately have "(of_nat (card S) :: u64) \<noteq> 0" by (metis unat_0)
  then show ?thesis using c u by (subst signed_pos_iff) simp_all
qed

lemma shl1_int_small: 
  assumes i: "i < 31" 
  shows "shl1_int i = Some (push_bit i 1)"
proof -
  have "scast (push_bit i (1 :: u32)) = (push_bit i 1 :: u64)"
    using i by (intro bit_word_eqI) (auto simp: bit_simps bit_signed_iff)
  then show ?thesis using i by (simp add: shl1_int_def)
qed

lemma push_bit_drop_bit_step:
  "push_bit i (drop_bit i n) = push_bit (Suc i) (drop_bit (Suc i) n) + (if bit n i then 2 ^ i else 0)"
  for n :: nat
  unfolding drop_bit_step[of i n] by (simp add: push_bit_eq_mult algebra_simps)

text \<open>The number of binary digits of a number.\<close>

fun bit_len :: "nat \<Rightarrow> nat" where
  "bit_len n = (if n = 0 then 0 else Suc (bit_len (n div 2)))"

declare bit_len.simps [simp del]

lemma bit_len_0 [simp]: "bit_len 0 = 0"
  by (simp add: bit_len.simps)

lemma drop_bit_eq_0_iff_bit_len: "drop_bit i n = 0 \<longleftrightarrow> bit_len n \<le> i" for n :: nat
proof (induction i arbitrary: n)
  case 0
  then show ?case by (simp add: bit_len.simps)
next
  case (Suc i)
  then show ?case by (simp add: bit_len.simps[of n] drop_bit_Suc)
qed

lemma bit_len_le_iff: "bit_len n \<le> i \<longleftrightarrow> n < 2 ^ i"
  by (simp add: drop_bit_eq_div div_eq_0_iff flip: drop_bit_eq_0_iff_bit_len)

lemma less_exp_bit_len: "n < 2 ^ bit_len n"
  using bit_len_le_iff[of n "bit_len n"] by simp

text \<open>
  The identifiers among the \<open>k\<close> largest values: those with at most \<open>k\<close> identifiers at or above
  them. The value 0 is left out.
\<close>

definition top_set :: "('a \<Rightarrow> nat) \<Rightarrow> 'a set \<Rightarrow> nat \<Rightarrow> 'a set" where
  "top_set v E k = {x \<in> E. v x \<noteq> 0 \<and> card {z \<in> E. v x \<le> v z} \<le> k}"

lemma drop_bit_mono: "m \<le> n \<Longrightarrow> drop_bit i m \<le> drop_bit i n" for m n :: nat
  by (simp add: drop_bit_eq_div div_le_mono)

lemma drop_bit_less_imp: "drop_bit i m < drop_bit i n \<Longrightarrow> m < n" for m n :: nat
  using drop_bit_mono[of n m i] by (cases "n \<le> m") simp_all

lemma card_above_less:
  fixes v :: "'a \<Rightarrow> nat"
  assumes "finite E" and "y \<in> E" and "drop_bit i (v y) \<le> Q"
  shows "card {x \<in> E. Q < drop_bit i (v x)} < card {z \<in> E. v y \<le> v z}"
proof (rule psubset_card_mono)
  have "v y < v x" if "Q < drop_bit i (v x)" for x
    using assms(3) that by (simp add: drop_bit_less_imp[of i])
  then have "{x \<in> E. Q < drop_bit i (v x)} \<subseteq> {z \<in> E. v y \<le> v z}"
    by (simp add: Collect_mono less_imp_le)
  moreover have "y \<in> {z \<in> E. v y \<le> v z}" "y \<notin> {x \<in> E. Q < drop_bit i (v x)}"
    using assms(2,3) by simp_all
  ultimately show "{x \<in> E. Q < drop_bit i (v x)} \<subset> {z \<in> E. v y \<le> v z}" by blast
qed (use assms(1) in simp)

lemma top_set_eqI:
  assumes "finite E" and "T = {x \<in> E. P < drop_bit n (v x)}" and "card T \<le> k"
    and "\<And>y. y \<in> E \<Longrightarrow> drop_bit n (v y) \<le> P \<Longrightarrow> v y = 0 \<or> k < card {z \<in> E. v y \<le> v z}"
  shows "T = top_set v E k"
proof -
  have up: "x \<in> top_set v E k" if "x \<in> T" for x
  proof -
    have "{z \<in> E. v x \<le> v z} \<subseteq> T"
      using that assms(2) drop_bit_mono[of "v x" _ n] by (auto intro: less_le_trans)
    then have "card {z \<in> E. v x \<le> v z} \<le> card T"
      using assms(1,2) by (intro card_mono) auto
    then show ?thesis using that assms(2,3) by (auto simp: top_set_def intro: ccontr)
  qed
  have down: "x \<in> T" if "x \<in> top_set v E k" for x
    using that assms(2) assms(4)[of x] by (force simp: top_set_def)
  show ?thesis using up down by (intro subset_antisym subsetI)
qed

lemma topk_base:
  fixes v :: "u32 \<Rightarrow> nat"
  assumes f: "G = {x \<in> E. v x = P}" and out: "T = {x \<in> E. P < v x}" and "card T \<le> k"
    and low: "\<And>y. y \<in> E \<Longrightarrow> v y < P \<Longrightarrow> k < card {z \<in> E. v y \<le> v z}"
    and big: "P \<noteq> 0 \<Longrightarrow> k < card T + card G"
  shows "T = top_set v E k"
proof (rule top_set_eqI[where n = 0 and P = P])
  show "v y = 0 \<or> k < card {z \<in> E. v y \<le> v z}" if y: "y \<in> E" "drop_bit 0 (v y) \<le> P" for y
  proof (cases "v y = P \<and> P \<noteq> 0")
    case True
    then have "{z \<in> E. v y \<le> v z} = T \<union> G" "T \<inter> G = {}" using f out by auto
    then show ?thesis using True big by (simp add: card_Un_disjoint)
  next
    case False
    then show ?thesis using low[of y] y by (cases "P = 0") auto
  qed
qed (use assms in simp_all)

context roaring_api
begin

lemma cardinality_signed_pos [simp]: "0 <s rb_cardinality R c \<longleftrightarrow> rb_bits R c \<noteq> {}"
  using card_bits_le[of c] by (subst signed_pos_iff) (simp_all add: cardinality)

text \<open>
  The maximum: the filter holds the identifiers whose value agrees with the maximum \<open>M\<close> above the
  slices still to come.
\<close>

lemma max_loop_result:
  assumes "n \<le> bit_depth b" and "bit_depth b \<le> 31"
    and M: "y \<in> F" "bsi_val R b y = M" "\<And>x. x \<in> F \<Longrightarrow> bsi_val R b x \<le> M"
    and "rb_bits R f = {x \<in> F. drop_bit n (bsi_val R b x) = drop_bit n M}"
    and "max_val = of_nat (push_bit n (drop_bit n M))"
    and "lnz = rb_cardinality R f" and "n = 0 \<Longrightarrow> count = rb_cardinality R f"
  shows "\<exists>cnt. max_loop R b n max_val count lnz f = Some (of_nat M, cnt)
           \<and> unat cnt = card {x \<in> F. bsi_val R b x = M}"
  using assms(1,2,6-)
proof (induction n arbitrary: f max_val count lnz)
  case 0
  then show ?case by (simp add: cardinality)
next
  case (Suc i)
  then have i: "i < bit_depth b" "i < 31" by simp_all
  let ?tmp = "rb_and R (scratch_copy R f) (bsi_slice b i)"
  have in_slice: "x \<in> rb_bits R (bsi_slice b i) \<longleftrightarrow> bit (bsi_val R b x) i" for x
    using i by (simp add: bit_bsi_val)
  have low: "\<not> bit (bsi_val R b x) i" if "x \<in> rb_bits R f" "\<not> bit M i" for x
  proof
    assume "bit (bsi_val R b x) i"
    then have "drop_bit i M < drop_bit i (bsi_val R b x)"
      using that Suc.prems(3) drop_bit_step[of i M] drop_bit_step[of i "bsi_val R b x"] by simp
    moreover have "drop_bit i (bsi_val R b x) \<le> drop_bit i M"
      using M(3)[of x] that Suc.prems(3) by (simp add: drop_bit_eq_div div_le_mono)
    ultimately show False by simp
  qed
  have f: "{x \<in> F. drop_bit i (bsi_val R b x) = drop_bit i M}
      = {x \<in> rb_bits R f. bit (bsi_val R b x) i \<longleftrightarrow> bit M i}"
    unfolding Suc.prems(3) drop_bit_step[of i M] drop_bit_step[of i "bsi_val R b _"]
    by (auto simp: double_cmp)
  show ?case
  proof (cases "bit M i")
    case True
    then have tmp: "rb_bits R ?tmp = {x \<in> F. drop_bit i (bsi_val R b x) = drop_bit i M}"
      unfolding f by (auto simp: in_slice)
    moreover have "y \<in> rb_bits R ?tmp" unfolding tmp using M by simp
    ultimately have "max_loop R b (Suc i) max_val count lnz f
        = max_loop R b i (max_val + push_bit i 1) (rb_cardinality R ?tmp) (rb_cardinality R ?tmp) ?tmp"
      unfolding max_loop.simps Let_def shl1_int_small[OF i(2)] by (subst if_P) auto
    moreover have "max_val + push_bit i 1 = of_nat (push_bit i (drop_bit i M))"
      unfolding push_bit_drop_bit_step[of i M] Suc.prems(4) using True by (simp add: push_bit_eq_mult)
    ultimately show ?thesis using Suc.IH[OF _ Suc.prems(2) tmp] i by simp
  next
    case False
    then have "rb_bits R ?tmp = {}" using low by (auto simp: in_slice)
    moreover have f': "rb_bits R f = {x \<in> F. drop_bit i (bsi_val R b x) = drop_bit i M}"
      unfolding f using low False by auto
    ultimately have "max_loop R b (Suc i) max_val count lnz f
        = max_loop R b i max_val (if i = 0 then lnz else count) lnz f"
      unfolding max_loop.simps Let_def by (subst if_not_P) auto
    moreover have "max_val = of_nat (push_bit i (drop_bit i M))"
      unfolding push_bit_drop_bit_step[of i M] Suc.prems(4) using False by simp
    ultimately show ?thesis using Suc.IH[OF _ Suc.prems(2) f'] i Suc.prems(5) by simp
  qed
qed

lemma DoGetMax_result:
  assumes "0 < bit_depth b" and "bit_depth b \<le> 31" and "S \<noteq> {}"
    and S: "S = bsi_sel R b (case input of None \<Rightarrow> rb_create R | Some f \<Rightarrow> f)"
  shows "\<exists>mx cnt f. bsi_DoGetMax R b input = Some (mx, cnt, f) \<and> rb_bits R f = S
    \<and> unat mx = Max (bsi_val R b ` S) \<and> unat cnt = card {x \<in> S. bsi_val R b x = Max (bsi_val R b ` S)}"
proof -
  let ?M = "Max (bsi_val R b ` S)"
  let ?f = "start_filter R b (case input of None \<Rightarrow> rb_create R | Some f \<Rightarrow> f)"
  have "?M \<in> bsi_val R b ` S" using \<open>S \<noteq> {}\<close> by (intro Max_in) auto
  then obtain y where y: "y \<in> S" "bsi_val R b y = ?M" by auto
  have f: "rb_bits R ?f = S" using S by simp
  have M: "?M < 2 ^ bit_depth b" using bsi_val_less[of R b y] y by simp
  have "\<exists>cnt. max_loop R b (bit_depth b) 0 0 (rb_cardinality R ?f) ?f = Some (of_nat ?M, cnt)
           \<and> unat cnt = card {x \<in> S. bsi_val R b x = ?M}"
    by (rule max_loop_result[OF _ _ y]) (use assms f M in \<open>auto simp: bsi_top drop_bit_eq_0\<close>)
  moreover have "?M < 2 ^ 64"
    using M \<open>bit_depth b \<le> 31\<close> power_increasing[of "bit_depth b" 64 "2 :: nat"] by linarith
  ultimately show ?thesis using f by (auto simp: bsi_DoGetMax_def Let_def unat_of_nat)
qed

text \<open>
  The minimum query: the filter holds the identifiers whose value has no bit above the slices still
  to come, so it becomes empty for good at the top bit of the least value \<open>m\<close>.
\<close>

lemma less_exp_Suc_iff:
  "i < bit_depth b \<Longrightarrow>
     bsi_val R b x < 2 ^ i \<longleftrightarrow> bsi_val R b x < 2 ^ Suc i \<and> x \<notin> rb_bits R (bsi_slice b i)"
  unfolding bit_len_le_iff[symmetric] drop_bit_eq_0_iff_bit_len[symmetric]
  by (simp add: bsi_val_step)

lemma min_loop_result:
  assumes "n \<le> bit_depth b" and d: "bit_depth b \<le> 31"
    and m: "y \<in> F" "bsi_val R b y = m" "\<And>x. x \<in> F \<Longrightarrow> m \<le> bsi_val R b x"
    and "lnz = (if max n (bit_len m) < bit_depth b
                then of_nat (card {x \<in> F. bsi_val R b x < 2 ^ max n (bit_len m)}) else -1)"
    and "rb_bits R f = {x \<in> F. bsi_val R b x < 2 ^ n}"
    and "min_val = of_nat (2 ^ bit_len m - 2 ^ min n (bit_len m))"
    and "n = 0 \<Longrightarrow> count = lnz"
  shows "\<exists>f'. min_loop R b n min_val count lnz f
      = Some (of_nat (2 ^ bit_len m - 1),
              (if bit_len m < bit_depth b then of_nat (card {x \<in> F. bsi_val R b x < 2 ^ bit_len m}) else -1), f')
      \<and> rb_bits R f' = {x \<in> F. bsi_val R b x = 0}"
  using assms(1,6-)
proof (induction n arbitrary: f min_val count lnz)
  case 0
  then show ?case by auto
next
  case (Suc i)
  then have i: "i < bit_depth b" "i < 31" using d by simp_all
  let ?f = "rb_andnot R f (bsi_slice b i)"
  have f: "rb_bits R ?f = {x \<in> F. bsi_val R b x < 2 ^ i}"
    using Suc.prems(3) by (auto simp: less_exp_Suc_iff[OF i(1)])
  have card: "rb_cardinality R ?f = of_nat (card {x \<in> F. bsi_val R b x < 2 ^ i})"
    unfolding f[symmetric] cardinality[symmetric] by simp
  have ne: "rb_bits R ?f \<noteq> {} \<longleftrightarrow> bit_len m \<le> i"
    unfolding f bit_len_le_iff using m by (auto intro: le_less_trans)
  show ?case
  proof (cases "bit_len m \<le> i")
    case True
    then have "min_loop R b (Suc i) min_val count lnz f
        = min_loop R b i min_val (rb_cardinality R ?f) (rb_cardinality R ?f) ?f"
      unfolding min_loop.simps Let_def by (subst if_P) (use ne in auto)
    with True show ?thesis
      using i Suc.prems(4) by (simp only:, intro Suc.IH f) (simp_all add: card max_def min_def)
  next
    case False
    then have "min_loop R b (Suc i) min_val count lnz f
        = min_loop R b i (min_val + push_bit i 1) (if i = 0 then lnz else count) lnz ?f"
      unfolding min_loop.simps Let_def shl1_int_small[OF i(2)] by (subst if_not_P) (use ne in auto)
    moreover have "2 ^ Suc i \<le> (2 :: nat) ^ bit_len m"
      using False by (intro power_increasing) auto
    then have "(2 :: nat) ^ bit_len m - 2 ^ i = (2 ^ bit_len m - 2 ^ Suc i) + 2 ^ i" by simp
    then have "of_nat (2 ^ bit_len m - 2 ^ i) = (of_nat (2 ^ bit_len m - 2 ^ Suc i) + 2 ^ i :: u64)"
      by (metis of_nat_add of_nat_numeral of_nat_power)
    ultimately show ?thesis
      using False i Suc.prems(2,4)
      by (simp only:, intro Suc.IH f) (auto simp: max_def min_def push_bit_eq_mult)
  qed
qed

lemma DoGetMin_result:
  assumes d: "0 < bit_depth b" "bit_depth b \<le> 31" and "S \<noteq> {}"
    and S: "S = bsi_sel R b (case input of None \<Rightarrow> rb_create R | Some f \<Rightarrow> f)"
    and L: "L = bit_len (Min (bsi_val R b ` S))"
  shows "\<exists>f. bsi_DoGetMin R b input
      = Some (2 ^ L - 1,
              (if L < bit_depth b then of_nat (card {x \<in> S. bsi_val R b x < 2 ^ L}) else -1), f)
      \<and> rb_bits R f = {x \<in> S. bsi_val R b x = 0}"
proof -
  let ?m = "Min (bsi_val R b ` S)"
  let ?f = "start_filter R b (case input of None \<Rightarrow> rb_create R | Some f \<Rightarrow> f)"
  have "?m \<in> bsi_val R b ` S" using \<open>S \<noteq> {}\<close> by (intro Min_in) auto
  then obtain y where y: "y \<in> S" "bsi_val R b y = ?m" by auto
  have "L \<le> bit_depth b"
    unfolding L bit_len_le_iff using bsi_val_less[of R b y] y by simp
  moreover have "rb_bits R ?f = {x \<in> S. bsi_val R b x < 2 ^ bit_depth b}"
    using S bsi_val_less by auto
  ultimately show ?thesis
    unfolding bsi_DoGetMin_def Let_def L of_nat_exp_minus_1[symmetric]
    by (intro min_loop_result[OF _ _ y]) (use d L in \<open>auto simp: max_def\<close>)
qed

lemma to_array_hd: "rb_bits R c \<noteq> {} \<Longrightarrow> \<exists>r. rb_to_array R c = Min (rb_bits R c) # r"
proof -
  assume "rb_bits R c \<noteq> {}"
  then obtain x r where xr: "rb_to_array R c = x # r"
    by (metis list.exhaust to_array_eq_Nil)
  have "Min (rb_bits R c) = x"
    using sorted_to_array[of c] set_to_array[of c] unfolding xr by (intro Min_eqI) auto
  with xr show ?thesis by simp
qed

lemma unat_ucast_cardinality:
  "card (rb_bits R c) < 2 ^ 32 \<Longrightarrow> unat (ucast (rb_cardinality R c) :: u32) = card (rb_bits R c)"
  by (simp add: unat_ucast_u32 cardinality)

lemma DoRemoveMin_result:
  assumes d: "0 < bit_depth b" "bit_depth b \<le> 31"
    and ne: "bsi_ids R b \<noteq> {}" "card (bsi_ids R b) < 2 ^ 32"
    and L: "L = bit_len (Min (bsi_val R b ` bsi_ids R b))"
    and H: "H = {x \<in> bsi_ids R b. bsi_val R b x = 2 ^ L - 1}"
  shows "bsi_DoRemoveMin R b =
    (if L < bit_depth b
     then (if H = {} then None
           else Some (2 ^ L - 1, bsi_DoRemove R (Min H) (2 ^ L - 1) b))
     else Some (0, b))"
proof -
  let ?v = "2 ^ L - 1 :: u64" and ?S = "{x \<in> bsi_ids R b. bsi_val R b x < 2 ^ L}"
  let ?eq = "bsi_DoRangeEQ R b ?v (rb_create R)"
  have S: "bsi_ids R b = bsi_sel R b (case Some (rb_create R) of None \<Rightarrow> rb_create R | Some f \<Rightarrow> f)"
    by (simp add: bsi_sel_def)
  obtain f where f: "bsi_DoGetMin R b (Some (rb_create R))
      = Some (?v, (if L < bit_depth b then of_nat (card ?S) else -1), f)"
    using DoGetMin_result[OF d ne(1) S L] by auto
  show ?thesis
  proof (cases "L < bit_depth b")
    case True
    have "Min (bsi_val R b ` bsi_ids R b) \<in> bsi_val R b ` bsi_ids R b"
      using ne(1) by (intro Min_in) auto
    then have "?S \<noteq> {}" using less_exp_bit_len L by fastforce
    then have pos: "0 <s (of_nat (card ?S) :: u64)" by (rule signed_pos_card)
    have "(2 :: nat) ^ L < 2 ^ bit_depth b" using True by simp
    moreover have "(2 :: nat) ^ bit_depth b < 2 ^ 64"
      using d by (intro power_strict_increasing) simp_all
    ultimately have "(2 :: nat) ^ L - 1 < 2 ^ bit_depth b" "(2 :: nat) ^ L - 1 < 2 ^ 64"
      by linarith+
    then have "(2 :: nat) ^ L - 1 < 2 ^ bit_depth b" "unat ?v = 2 ^ L - 1"
      by (simp_all only: unat_of_nat_small flip: of_nat_exp_minus_1)
    then have "bsi_operand b ?v = 2 ^ L - 1" by (metis bsi_operand_eq)
    then have eq: "rb_bits R ?eq = H"
      by (simp add: DoRangeEQ_bits H bsi_sel_def)
    then have "card (rb_bits R ?eq) < 2 ^ 32"
      using ne(2) card_mono[of "bsi_ids R b" H] by (simp add: H)
    then have ids: "bitmap_extract_ids R ?eq = Some (rb_to_array R ?eq)"
      by (simp add: bitmap_extract_ids_def unat_ucast_cardinality length_to_array)
    have "bsi_DoRemoveMin R b = (case Some (rb_to_array R ?eq) of
          Some (idx # _) \<Rightarrow> Some (?v, bsi_DoRemove R idx ?v b) | _ \<Rightarrow> None)"
      using True pos by (simp add: bsi_DoRemoveMin_def f ids)
    also have "\<dots> = (if H = {} then None else Some (?v, bsi_DoRemove R (Min H) ?v b))"
    proof (cases "H = {}")
      case H: True
      then have "rb_to_array R ?eq = []" using eq to_array_eq_Nil by blast
      with H show ?thesis by (simp del: to_array_eq_Nil)
    next
      case H: False
      then obtain r where "rb_to_array R ?eq = Min H # r" using eq to_array_hd by blast
      with H show ?thesis by simp
    qed
    finally show ?thesis using True by simp
  next
    case False
    then show ?thesis by (simp add: bsi_DoRemoveMin_def f)
  qed
qed

lemma unat_rest:
  fixes k :: u32
  assumes "card (rb_bits R c) \<le> unat k"
  shows "unat (ucast (ucast k - rb_cardinality R c) :: u32) = unat k - card (rb_bits R c)"
proof -
  have "rb_cardinality R c \<le> ucast k"
    using assms by (simp add: word_le_nat_alt cardinality)
  then have "unat (ucast k - rb_cardinality R c) = unat k - card (rb_bits R c)"
    by (simp add: unat_sub cardinality)
  moreover have "unat k < 2 ^ 32" using unsigned_less[of k, where ?'a = nat] by simp
  ultimately show ?thesis by (subst unat_ucast_u32) simp_all
qed

lemma topk_step_sets:
  fixes b :: "'b bsi" and E
  defines "v \<equiv> bsi_val R b"
  assumes i: "i < bit_depth b"
    and f: "rb_bits R f = {x \<in> E. drop_bit (Suc i) (v x) = P}"
    and out: "rb_bits R out = {x \<in> E. P < drop_bit (Suc i) (v x)}"
  shows "rb_bits R (rb_and R f (bsi_slice b i)) = {x \<in> E. drop_bit i (v x) = 2 * P + 1}"
    and "rb_bits R f - rb_bits R (rb_and R f (bsi_slice b i)) = {x \<in> E. drop_bit i (v x) = 2 * P}"
    and "rb_bits R out = {x \<in> E. 2 * P + 1 < drop_bit i (v x)}"
    and "rb_bits R out \<union> rb_bits R (rb_and R f (bsi_slice b i)) = {x \<in> E. 2 * P < drop_bit i (v x)}"
    and "card (rb_bits R out \<union> rb_bits R (rb_and R f (bsi_slice b i)))
       = card (rb_bits R out) + card (rb_bits R (rb_and R f (bsi_slice b i)))"
proof -
  have step: "drop_bit i (v x) = 2 * drop_bit (Suc i) (v x)
      + (if x \<in> rb_bits R (bsi_slice b i) then 1 else 0)" for x
    unfolding v_def by (rule bsi_val_step[OF i])
  show f1: "rb_bits R (rb_and R f (bsi_slice b i)) = {x \<in> E. drop_bit i (v x) = 2 * P + 1}"
    unfolding step using f by (auto simp: double_cmp)
  show "rb_bits R f - rb_bits R (rb_and R f (bsi_slice b i)) = {x \<in> E. drop_bit i (v x) = 2 * P}"
    unfolding step using f by (auto simp: double_cmp)
  show "rb_bits R out = {x \<in> E. 2 * P + 1 < drop_bit i (v x)}"
    unfolding out step by (auto simp: double_cmp)
  show "rb_bits R out \<union> rb_bits R (rb_and R f (bsi_slice b i)) = {x \<in> E. 2 * P < drop_bit i (v x)}"
    unfolding f1 out step using double_cmp by auto
  show "card (rb_bits R out \<union> rb_bits R (rb_and R f (bsi_slice b i)))
       = card (rb_bits R out) + card (rb_bits R (rb_and R f (bsi_slice b i)))"
    unfolding f1 out step by (intro card_Un_disjoint) (auto simp: double_cmp)
qed

lemma topk_loop_bits:
  fixes b :: "'b bsi" and E defines "v \<equiv> bsi_val R b"
  assumes "n \<le> bit_depth b" and E: "card E < 2 ^ 32"
    and "rb_bits R f = {x \<in> E. drop_bit n (v x) = P}"
    and "rb_bits R out = {x \<in> E. P < drop_bit n (v x)}"
    and "card (rb_bits R out) \<le> unat k"
    and "unat rest = unat k - card (rb_bits R out)"
    and "\<And>y. y \<in> E \<Longrightarrow> drop_bit n (v y) < P \<Longrightarrow> unat k < card {z \<in> E. v y \<le> v z}"
    and "P \<noteq> 0 \<Longrightarrow> unat k < card (rb_bits R out) + card (rb_bits R f)"
  shows "rb_bits R (topk_loop R b k n rest f out) = top_set v E (unat k)"
  using assms(2,4-)
proof (induction n arbitrary: f out rest P)
  case 0
  then have "rb_bits R out = top_set v E (unat k)"
    by (intro topk_base[of "rb_bits R f" E v P "rb_bits R out"]) simp_all
  then show ?case by simp
next
  case (Suc i)
  then have i: "i < bit_depth b" by simp
  let ?f1 = "rb_and R f (bsi_slice b i)"
  note sets = topk_step_sets[OF i Suc.prems(2,3)[unfolded v_def], folded v_def]
  note f1 = sets(1) and rest = sets(2) and out = sets(3) and out1 = sets(4) and c = sets(5)
  have low: "unat k < card {z \<in> E. v y \<le> v z}" if "y \<in> E" "drop_bit i (v y) < 2 * P" for y
    using Suc.prems(6)[of y] that unfolding v_def by (auto simp: bsi_val_step[OF i] split: if_splits)
  have "card (rb_bits R ?f1) \<le> card E" unfolding f1 by (intro card_mono) auto
  then have n: "unat (ucast (rb_cardinality R ?f1) :: u32) = card (rb_bits R ?f1)"
    using E by (intro unat_ucast_cardinality) simp
  consider (more) "unat rest < card (rb_bits R ?f1)" | (none) "card (rb_bits R ?f1) = 0" "0 < unat rest" "0 < i"
    | (less) "card (rb_bits R ?f1) < unat rest" "0 < card (rb_bits R ?f1) \<or> i = 0"
    | (eq) "card (rb_bits R ?f1) = unat rest"
    by linarith
  then show ?case
  proof cases
    case more
    then have "topk_loop R b k (Suc i) rest f out = topk_loop R b k i rest ?f1 out"
      by (simp add: Let_def word_less_nat_alt n del: bits_laws)
    moreover have "rb_bits R (topk_loop R b k i rest ?f1 out) = top_set v E (unat k)"
    proof (rule Suc.IH[OF _ f1 out Suc.prems(4,5)])
      show big: "unat k < card (rb_bits R out) + card (rb_bits R ?f1)"
        using more Suc.prems(4,5) by linarith
      show "unat k < card {z \<in> E. v y \<le> v z}" if "y \<in> E" "drop_bit i (v y) < 2 * P + 1" for y
      proof -
        have "drop_bit i (v y) \<le> 2 * P" using that by simp
        then show ?thesis using card_above_less[of E y i v "2 * P"] that(1) big c[unfolded out1] by simp
      qed
    qed (use i in simp)
    ultimately show ?thesis by simp
  next
    case none
    then have "topk_loop R b k (Suc i) rest f out
        = topk_loop R b k i rest (rb_overwrite R ?f1 (scratch_copy R f)) out"
      by (simp add: Let_def word_less_nat_alt n word_unat_eq_iff del: bits_laws)
    moreover have "rb_bits R (topk_loop R b k i rest (rb_overwrite R ?f1 (scratch_copy R f)) out)
        = top_set v E (unat k)"
      by (rule Suc.IH[where P = "2 * P"]) (use i none rest out1 low Suc.prems in auto)
    ultimately show ?thesis by simp
  next
    case less
    let ?out = "rb_or R out ?f1"
    let ?f = "rb_overwrite R ?f1 (rb_andnot R (scratch_copy R f) ?out)"
    let ?rest = "ucast (ucast k - rb_cardinality R ?out) :: u32"
    from less have "topk_loop R b k (Suc i) rest f out = topk_loop R b k i ?rest ?f ?out"
      by (auto simp add: Let_def word_less_nat_alt n word_unat_eq_iff del: bits_laws)
    moreover have "rb_bits R (topk_loop R b k i ?rest ?f ?out) = top_set v E (unat k)"
    proof (rule Suc.IH[where P = "2 * P"])
      have "rb_bits R f - (rb_bits R out \<union> rb_bits R ?f1) = rb_bits R f - rb_bits R ?f1"
        using Suc.prems(2,3) by auto
      then show f: "rb_bits R ?f = {x \<in> E. drop_bit i (v x) = 2 * P}" using rest by simp
      show o: "card (rb_bits R ?out) \<le> unat k" using less c Suc.prems(4,5) by simp
      show "unat ?rest = unat k - card (rb_bits R ?out)" by (rule unat_rest[OF o])
      have "card (rb_bits R f) = card (rb_bits R f - rb_bits R ?f1) + card (rb_bits R ?f1)"
        using card_Diff_subset[of "rb_bits R ?f1" "rb_bits R f"] card_mono[of "rb_bits R f" "rb_bits R ?f1"]
        by simp
      then show "unat k < card (rb_bits R ?out) + card (rb_bits R ?f)" if "2 * P \<noteq> 0"
        using that Suc.prems(7) c rest f by simp
    qed (use i out1 low in simp_all)
    ultimately show ?thesis by simp
  next
    case eq
    then have "topk_loop R b k (Suc i) rest f out = rb_or R out ?f1"
      by (simp add: Let_def word_less_nat_alt n del: bits_laws)
    moreover have "rb_bits R out \<union> rb_bits R ?f1 = top_set v E (unat k)"
    proof (rule top_set_eqI[OF _ out1])
      show o: "card (rb_bits R out \<union> rb_bits R ?f1) \<le> unat k" using eq c Suc.prems(4,5) by simp
      show "v y = 0 \<or> unat k < card {z \<in> E. v y \<le> v z}"
        if "y \<in> E" "drop_bit i (v y) \<le> 2 * P" for y
        using card_above_less[of E y i v "2 * P"] that eq c[unfolded out1] Suc.prems(4,5) by simp
    qed simp
    ultimately show ?thesis by simp
  qed
qed

lemma TopK_bits:
  assumes "rb_bits R out = {}" and "card (bsi_ids R b) < 2 ^ 32"
  shows "rb_bits R (bsi_TopK R b k out) = top_set (bsi_val R b) (bsi_ids R b) (unat k)"
  unfolding bsi_TopK_def
  by (rule topk_loop_bits[where P = 0]) (use assms in \<open>auto simp: bsi_ids_def bsi_top\<close>)

end

section \<open>Properties\<close>

text \<open>
  On a non-empty selection, \<^verbatim>\<open>DoGetMax\<close> returns the largest value of the selected
  identifiers and the number of them that have it, and leaves the filter bitmap, if one was given,
  cut down to the selection. The depth is at most 31, since the code adds up powers of two that are
  computed as \<^verbatim>\<open>int\<close>.
\<close>

theorem bsi_get_max:
  assumes "roaring_api R" and "0 < bit_depth b" and "bit_depth b \<le> 31"
    and "S = bsi_sel R b (case input of None \<Rightarrow> rb_create R | Some f \<Rightarrow> f)" and "S \<noteq> {}"
  shows "\<exists>mx cnt f. bsi_DoGetMax R b input = Some (mx, cnt, f) \<and> rb_bits R f = S
    \<and> unat mx = Max (bsi_val R b ` S) \<and> unat cnt = card {x \<in> S. bsi_val R b x = Max (bsi_val R b ` S)}"
  by (rule roaring_api.DoGetMax_result[OF assms(1-3,5,4)])

theorem bsi_get_max_witness:
  "\<exists>mx cnt f. bsi_DoGetMax list_roaring sample_bsi (Some [1, 2, 9]) = Some (mx, cnt, f)
     \<and> set f = {1, 2} \<and> unat mx = 5 \<and> unat cnt = 1"
proof -
  have S: "bsi_sel list_roaring sample_bsi [1, 2, 9] = {1, 2}"
    by (auto simp: bsi_sel_def sample_bsi_simps)
  show ?thesis
    using bsi_get_max[OF lr.roaring_api_axioms, of sample_bsi "{1, 2}" "Some [1, 2, 9]"] S
    by (simp add: sample_bsi_simps filter_insert del: insert_iff)
qed

text \<open>
  On a non-empty selection whose least value has \<open>L\<close> binary digits, \<^verbatim>\<open>DoGetMin\<close>
  returns \<open>2 ^ L - 1\<close> and, as the count, the number of selected identifiers below \<open>2 ^ L\<close>, or
  \<open>- 1\<close> when \<open>L\<close> is the depth; it leaves in the filter the identifiers with value 0 only. So the
  answer is the minimum only when the minimum is a power of two less one: the filter that a slice
  has emptied is not restored.
\<close>

theorem bsi_get_min:
  assumes "roaring_api R" and "0 < bit_depth b" and "bit_depth b \<le> 31"
    and "S = bsi_sel R b (case input of None \<Rightarrow> rb_create R | Some f \<Rightarrow> f)" and "S \<noteq> {}"
    and "L = bit_len (Min (bsi_val R b ` S))"
  shows "\<exists>f. bsi_DoGetMin R b input
      = Some (2 ^ L - 1,
              (if L < bit_depth b then of_nat (card {x \<in> S. bsi_val R b x < 2 ^ L}) else -1), f)
      \<and> rb_bits R f = {x \<in> S. bsi_val R b x = 0}"
  by (rule roaring_api.DoGetMin_result[OF assms(1-3,5,4,6)])

theorem bsi_get_min_witness:
  "\<exists>f. bsi_DoGetMin list_roaring sample_bsi None = Some (3, 1, f) \<and> set f = {}"
  using bsi_get_min[OF lr.roaring_api_axioms, of sample_bsi "{1, 2, 3}" None 2]
  by (simp add: sample_bsi_simps bsi_sel_def filter_insert bit_len.simps[of 2] bit_len.simps[of "Suc 0"]
      del: insert_iff)

text \<open>
  \<^verbatim>\<open>DoRemoveMin\<close> removes the least identifier that has the value
  \<^verbatim>\<open>DoGetMin\<close> returned. When the least value uses the top slice it removes nothing and returns 0;
  when no identifier has that value, it reads the first element of an empty vector, which is
  undefined.
\<close>

theorem bsi_remove_min:
  assumes "roaring_api R" and "0 < bit_depth b" and "bit_depth b \<le> 31"
    and "bsi_ids R b \<noteq> {}" and "card (bsi_ids R b) < 2 ^ 32"
    and "L = bit_len (Min (bsi_val R b ` bsi_ids R b))"
    and "H = {x \<in> bsi_ids R b. bsi_val R b x = 2 ^ L - 1}"
  shows "bsi_DoRemoveMin R b =
    (if L < bit_depth b
     then (if H = {} then None
           else Some (2 ^ L - 1, bsi_DoRemove R (Min H) (2 ^ L - 1) b))
     else Some (0, b))"
  by (rule roaring_api.DoRemoveMin_result[OF assms])

theorem bsi_remove_min_witness: "bsi_DoRemoveMin list_roaring sample_bsi = None"
proof -
  have ids: "bsi_ids list_roaring sample_bsi \<noteq> {}" "card (bsi_ids list_roaring sample_bsi) < 2 ^ 32"
    by (simp_all add: sample_bsi_simps)
  have L: "2 = bit_len (Min (bsi_val list_roaring sample_bsi ` bsi_ids list_roaring sample_bsi))"
    by (simp add: sample_bsi_simps bit_len.simps[of 2] bit_len.simps[of "Suc 0"])
  have H: "{} = {x \<in> bsi_ids list_roaring sample_bsi. bsi_val list_roaring sample_bsi x = 2 ^ 2 - 1}"
    by (simp add: sample_bsi_simps filter_insert del: insert_iff)
  show ?thesis
    by (rule trans[OF bsi_remove_min[OF lr.roaring_api_axioms _ _ ids L H]])
      (simp_all add: sample_bsi_simps(1))
qed

text \<open>
  C4. Into an empty bitmap, \<^verbatim>\<open>TopK\<close> puts exactly the identifiers with a value other than
  0 that have at most \<open>k\<close> identifiers at or above them: at most \<open>k\<close> of them, every one above all
  that are left out, and a group of equal values is left out when it does not fit.
\<close>

theorem bsi_topk:
  assumes "roaring_api R" and "rb_bits R out = {}" and "card (bsi_ids R b) < 2 ^ 32"
  shows "rb_bits R (bsi_TopK R b k out)
    = {x \<in> bsi_ids R b. bsi_val R b x \<noteq> 0
         \<and> card {z \<in> bsi_ids R b. bsi_val R b x \<le> bsi_val R b z} \<le> unat k}"
  using roaring_api.TopK_bits[OF assms] by (simp add: top_set_def)

theorem bsi_topk_witness: "set (bsi_TopK list_roaring sample_bsi 2 []) = {1, 3}"
proof -
  have "card {1, 2, 3 :: u32} = 3" "card {1, 3 :: u32} = 2" "card {3 :: u32} = 1" by simp_all
  then show ?thesis
    using bsi_topk[OF lr.roaring_api_axioms, of "[]" sample_bsi 2]
    by (simp add: sample_bsi_simps filter_insert del: insert_iff)
qed

end
