(* ===== verification/ValueIndex.thy ===== *)
theory ValueIndex
  imports Prelude
begin

text \<open>
  The contract of an index from identifiers to values, as the fields of a table rely on it: a value
  that has been put for an identifier is the one a lookup returns until it is replaced or removed.
  The laws are those of one operation; the lemmas extend them to sequences of operations. The
  bit-sliced indexes of \<^verbatim>\<open>robims\<close> are instances.
\<close>

datatype 'v index_op = PutOp u32 'v | DelOp u32

text \<open>The specification: a finite map and its update by one operation.\<close>

fun spec_op :: "'v index_op \<Rightarrow> (u32 \<rightharpoonup> 'v) \<Rightarrow> (u32 \<rightharpoonup> 'v)" where
  "spec_op (PutOp x v) m = m(x \<mapsto> v)"
| "spec_op (DelOp x) m = m(x := None)"

fun op_value_ok :: "('v \<Rightarrow> bool) \<Rightarrow> 'v index_op \<Rightarrow> bool" where
  "op_value_ok P (PutOp x v) = P v"
| "op_value_ok P (DelOp x) = True"

text \<open>
  One operation on an index. A removal looks the value up and hands it to the index, which needs
  it to find the slices to clear.
\<close>

fun index_apply :: "(u32 \<Rightarrow> 's \<Rightarrow> 'v option) \<Rightarrow> (u32 \<Rightarrow> 'v \<Rightarrow> 's \<Rightarrow> 's option) \<Rightarrow> (u32 \<Rightarrow> 'v \<Rightarrow> 's \<Rightarrow> 's)
    \<Rightarrow> 'v index_op \<Rightarrow> 's \<Rightarrow> 's option" where
  "index_apply get put del (PutOp x v) s = put x v s"
| "index_apply get put del (DelOp x) s = (case get x s of None \<Rightarrow> Some s | Some v \<Rightarrow> Some (del x v s))"

primrec index_run :: "(u32 \<Rightarrow> 's \<Rightarrow> 'v option) \<Rightarrow> (u32 \<Rightarrow> 'v \<Rightarrow> 's \<Rightarrow> 's option) \<Rightarrow> (u32 \<Rightarrow> 'v \<Rightarrow> 's \<Rightarrow> 's)
    \<Rightarrow> 'v index_op list \<Rightarrow> 's \<Rightarrow> 's option" where
  "index_run get put del [] s = Some s"
| "index_run get put del (p # ps) s =
     (case index_apply get put del p s of None \<Rightarrow> None | Some s' \<Rightarrow> index_run get put del ps s')"

locale value_index =
  fixes inv :: "'s \<Rightarrow> bool"
    and ok :: "'s \<Rightarrow> 'v \<Rightarrow> bool"
    and get :: "u32 \<Rightarrow> 's \<Rightarrow> 'v option"
    and put :: "u32 \<Rightarrow> 'v \<Rightarrow> 's \<Rightarrow> 's option"
    and del :: "u32 \<Rightarrow> 'v \<Rightarrow> 's \<Rightarrow> 's"
  assumes put_ok: "inv s \<Longrightarrow> ok s v \<Longrightarrow>
      \<exists>s'. put x v s = Some s' \<and> inv s' \<and> ok s' = ok s \<and> (\<lambda>y. get y s') = (\<lambda>y. get y s)(x \<mapsto> v)"
    and del_ok: "inv s \<Longrightarrow> get x s = Some v \<Longrightarrow>
      inv (del x v s) \<and> ok (del x v s) = ok s \<and> (\<lambda>y. get y (del x v s)) = (\<lambda>y. get y s)(x := None)"
begin

lemma index_apply_refines:
  assumes "inv s" and "op_value_ok (ok s) p"
  shows "\<exists>s'. index_apply get put del p s = Some s' \<and> inv s' \<and> ok s' = ok s
     \<and> (\<lambda>y. get y s') = spec_op p (\<lambda>y. get y s)"
proof (cases p)
  case (PutOp x v)
  then show ?thesis using put_ok[of s v x] assms by simp
next
  case (DelOp x)
  then show ?thesis using del_ok[of s x] assms(1) by (cases "get x s") auto
qed

lemma index_run_refines:
  "inv s \<Longrightarrow> list_all (op_value_ok (ok s)) ps \<Longrightarrow>
     \<exists>s'. index_run get put del ps s = Some s' \<and> inv s'
       \<and> (\<lambda>y. get y s') = fold spec_op ps (\<lambda>y. get y s)"
proof (induction ps arbitrary: s)
  case Nil
  then show ?case by simp
next
  case (Cons p ps)
  from index_apply_refines[of s p] Cons.prems obtain s1
    where "index_apply get put del p s = Some s1" "inv s1" "ok s1 = ok s"
      "(\<lambda>y. get y s1) = spec_op p (\<lambda>y. get y s)" by auto
  with Cons.IH[of s1] Cons.prems show ?case by simp
qed

end

text \<open>
  An index that stores an encoding of its values. The stored values are encodings of good ones, so
  that decoding and encoding again gives the stored value.
\<close>

locale coded_index = value_index inv ok get put del
  for inv :: "'s \<Rightarrow> bool" and ok :: "'s \<Rightarrow> 'v \<Rightarrow> bool" and get put del +
  fixes good :: "'s \<Rightarrow> 'w \<Rightarrow> bool"
    and enc :: "'s \<Rightarrow> 'w \<Rightarrow> 'v"
    and dec :: "'s \<Rightarrow> 'v \<Rightarrow> 'w"
  assumes good_ok: "good s w \<Longrightarrow> ok s (enc s w)"
    and dec_enc: "good s w \<Longrightarrow> dec s (enc s w) = w"
    and put_frame: "inv s \<Longrightarrow> put x v s = Some s' \<Longrightarrow> good s' = good s \<and> enc s' = enc s \<and> dec s' = dec s"
    and del_frame: "inv s \<Longrightarrow> good (del x v s) = good s \<and> enc (del x v s) = enc s \<and> dec (del x v s) = dec s"
begin

definition coded_inv :: "'s \<Rightarrow> bool" where
  "coded_inv s \<longleftrightarrow> inv s \<and> (\<forall>x u. get x s = Some u \<longrightarrow> (\<exists>w. good s w \<and> u = enc s w))"

lemma coded_value_index:
  "value_index coded_inv good (\<lambda>x s. map_option (dec s) (get x s))
     (\<lambda>x w s. put x (enc s w) s) (\<lambda>x w s. del x (enc s w) s)"
proof
  fix s x w
  assume s: "coded_inv s" and w: "good s w"
  obtain s' where s': "put x (enc s w) s = Some s'" "inv s'" "\<And>y. get y s' = ((\<lambda>y. get y s)(x \<mapsto> enc s w)) y"
    using put_ok[of s "enc s w" x] s w good_ok by (auto simp: coded_inv_def fun_eq_iff)
  have fr: "good s' = good s" "enc s' = enc s" "dec s' = dec s"
    using put_frame[OF _ s'(1)] s by (auto simp: coded_inv_def)
  have "coded_inv s'" using s s' w by (auto simp: coded_inv_def fr)
  then show "\<exists>s'. put x (enc s w) s = Some s' \<and> coded_inv s' \<and> good s' = good s
      \<and> (\<lambda>y. map_option (dec s') (get y s')) = (\<lambda>y. map_option (dec s) (get y s))(x \<mapsto> w)"
    by (intro exI[of _ s']) (simp add: fr s' dec_enc[OF w] fun_eq_iff)
next
  fix s x w
  assume s: "coded_inv s" and w: "map_option (dec s) (get x s) = Some w"
  then obtain w' where w': "get x s = Some (enc s w')" "good s w'" by (auto simp: coded_inv_def)
  then have "w' = w" using w dec_enc by simp
  with w' del_ok[of s x "enc s w"] s
  have d: "inv (del x (enc s w) s)" "\<And>y. get y (del x (enc s w) s) = ((\<lambda>y. get y s)(x := None)) y"
    by (auto simp: coded_inv_def fun_eq_iff)
  have fr: "good (del x (enc s w) s) = good s" "dec (del x (enc s w) s) = dec s" "enc (del x (enc s w) s) = enc s"
    using del_frame[of s] s by (auto simp: coded_inv_def)
  have "coded_inv (del x (enc s w) s)" using s d by (auto simp: coded_inv_def fr split: if_splits)
  then show "coded_inv (del x (enc s w) s) \<and> good (del x (enc s w) s) = good s
      \<and> (\<lambda>y. map_option (dec (del x (enc s w) s)) (get y (del x (enc s w) s)))
        = (\<lambda>y. map_option (dec s) (get y s))(x := None)"
    by (simp add: fr d fun_eq_iff)
qed

end

end
