(* ===== verification/RobimsBsiPut.thy ===== *)
theory RobimsBsiPut
  imports RobimsBsiOrder ValueIndex
begin

text \<open>
  Writing and reading values of the bit-sliced index: the well-formedness of an index, which
  initialisation establishes and the updates preserve, and the effect of the updates on the set of
  identifiers and their values.
\<close>

section \<open>Well-formedness\<close>

definition bsi_wf :: "'b bsi \<Rightarrow> bool" where
  "bsi_wf b \<longleftrightarrow> bit_depth b < 64 \<and> bit_depth b < length (bitmaps b)
     \<and> (\<forall>k \<le> bit_depth b. rbp (bitmaps b ! k) \<noteq> None)"

lemma set_row_simps [simp]:
  "bit_depth (set_row k c b) = bit_depth b"
  "options (set_row k c b) = options b"
  "length (bitmaps (set_row k c b)) = length (bitmaps b)"
  by (simp_all add: set_row_def)

lemma bsi_row_set_row:
  "k < length (bitmaps b) \<Longrightarrow> bsi_row (set_row k c b) j = (if j = k then c else bsi_row b j)"
  by (simp add: bsi_row_def rbm_def set_row_def)

lemma bsi_wf_set_row: "bsi_wf b \<Longrightarrow> bsi_wf (set_row k c b)"
  by (cases "k < length (bitmaps b)") (auto simp: bsi_wf_def set_row_def nth_list_update)

lemma put_bits_frame [simp]:
  "bit_depth (put_bits R x v n b) = bit_depth b"
  "options (put_bits R x v n b) = options b"
  "length (bitmaps (put_bits R x v n b)) = length (bitmaps b)"
  by (induction n) (simp_all add: Let_def)

lemma remove_bits_frame [simp]:
  "bit_depth (remove_bits R x v n b) = bit_depth b"
  "options (remove_bits R x v n b) = options b"
  "length (bitmaps (remove_bits R x v n b)) = length (bitmaps b)"
  by (induction n) (simp_all add: Let_def)

lemma bsi_wf_put_bits: "bsi_wf b \<Longrightarrow> bsi_wf (put_bits R x v n b)"
  by (induction n) (simp_all add: Let_def bsi_wf_set_row)

lemma bsi_wf_remove_bits: "bsi_wf b \<Longrightarrow> bsi_wf (remove_bits R x v n b)"
  by (induction n) (simp_all add: Let_def bsi_wf_set_row)

lemma bsi_wf_DoRemove: "bsi_wf b \<Longrightarrow> bsi_wf (bsi_DoRemove R x v b)"
  by (simp add: bsi_DoRemove_def bsi_wf_set_row bsi_wf_remove_bits)

lemma DoRemove_frame [simp]:
  "bit_depth (bsi_DoRemove R x v b) = bit_depth b"
  "options (bsi_DoRemove R x v b) = options b"
  by (simp_all add: bsi_DoRemove_def)

lemma DoRemoveMin_cases:
  "bsi_DoRemoveMin R b = Some (m, b') \<Longrightarrow> b' = b \<or> (\<exists>x. b' = bsi_DoRemove R x m b)"
  by (auto simp: bsi_DoRemoveMin_def split: option.splits prod.splits if_splits list.splits)

lemma bsi_wf_DoPut:
  assumes "bsi_wf b" and "bsi_DoPut R x v b = Some (b', old)"
  shows "bsi_wf b' \<and> bit_depth b' = bit_depth b \<and> options b' = options b"
proof -
  let ?b = "put_bits R x v (bit_depth b) (set_row 0 (rb_add R (exist_row b) x) b)"
  have "bsi_wf ?b" using assms(1) by (simp add: bsi_wf_set_row bsi_wf_put_bits)
  moreover have "b' = ?b \<or> (\<exists>m. bsi_DoRemoveMin R ?b = Some (m, b'))"
    using assms(2) by (auto simp: bsi_DoPut_def Let_def split: if_splits option.splits)
  ultimately show ?thesis
    using DoRemoveMin_cases[of R ?b _ b'] bsi_wf_DoRemove[of ?b R] by auto
qed

section \<open>The depth\<close>

lemma find_upt_le: "find (\<lambda>i. L \<le> i) [0..<n] = (if L < n then Some L else None)"
proof (cases "L < n")
  case True
  then have "find (\<lambda>i. L \<le> i) [0..<n] = Some L"
    unfolding find_Some_iff by (intro exI[of _ L]) auto
  with True show ?thesis by simp
next
  case False
  then show ?thesis by (simp add: find_None_iff)
qed

lemma unat_exp: "i < 64 \<Longrightarrow> unat (2 ^ i :: u64) = 2 ^ i"
  using unat_of_nat_small[of "2 ^ i"] power_strict_increasing[of i 64 "2 :: nat"] by simp

lemma less_exp_iff: "i < 64 \<Longrightarrow> d < 2 ^ i \<longleftrightarrow> bit_len (unat d) \<le> i" for d :: u64
  by (simp add: word_less_nat_alt bit_len_le_iff unat_exp)

lemma DoInit_depth:
  "bit_depth (bsi_DoInit F meta b)
     = (let L = bit_len (unat (Distance (options (bsi_DoInit F meta b))))
        in if L < 64 then L else bit_depth b)"
proof -
  have "find (\<lambda>i. d < 2 ^ i) [0..<64] = find (\<lambda>i. bit_len (unat d) \<le> i) [0..<64]" for d :: u64
    by (intro find_cong) (simp_all add: less_exp_iff)
  then show ?thesis by (simp add: bsi_DoInit_def Let_def find_upt_le)
qed

lemma DoInit_bitmaps [simp]: "bitmaps (bsi_DoInit F meta b) = bitmaps b"
  by (simp add: bsi_DoInit_def Let_def)

lemma bsi_wf_Init: "bit_depth b < 64 \<Longrightarrow> bitmaps b = [] \<Longrightarrow> bsi_wf (bsi_Init R F meta b)"
  by (auto simp: bsi_wf_def bsi_Init_def Let_def NewCRoaringBitmap_def new_RoaringBitmap_def nth_append DoInit_depth
      simp del: replicate.simps split: if_splits)

section \<open>The effect of an update\<close>

context roaring_api
begin

lemma put_bits_rows:
  assumes "bsi_wf b" and "n \<le> bit_depth b"
  shows "exist_row (put_bits R x v n b) = exist_row b"
    and "rb_bits R (bsi_slice (put_bits R x v n b) i)
       = (if i < n then (if bit v i then insert x (rb_bits R (bsi_slice b i))
                         else rb_bits R (bsi_slice b i) - {x})
          else rb_bits R (bsi_slice b i))"
  using assms
  by (induction n)
    (auto simp: Let_def exist_row_def bsi_slice_def bsi_row_set_row bsi_wf_def less_Suc_eq)

lemma remove_bits_rows:
  assumes "bsi_wf b" and "n \<le> bit_depth b"
  shows "exist_row (remove_bits R x v n b) = exist_row b"
    and "rb_bits R (bsi_slice (remove_bits R x v n b) i)
       = (if i < n \<and> bit v i then rb_bits R (bsi_slice b i) - {x} else rb_bits R (bsi_slice b i))"
  using assms
  by (induction n)
    (auto simp: Let_def exist_row_def bsi_slice_def bsi_row_set_row bsi_wf_def less_Suc_eq)

text \<open>The value of an identifier is determined by its bits.\<close>

lemma bsi_val_eqI:
  assumes "\<And>i. i < bit_depth b \<Longrightarrow> x \<in> rb_bits R (bsi_slice b i) \<longleftrightarrow> bit m i"
    and "m < 2 ^ bit_depth b"
  shows "bsi_val R b x = m"
proof (rule bit_eqI)
  fix i
  have "bit m i \<Longrightarrow> i < bit_depth b"
    using assms(2) by (metis bit_take_bit_iff take_bit_nat_eq_self)
  then show "bit (bsi_val R b x) i = bit m i" using assms(1) by (auto simp: bit_bsi_val)
qed

lemma bsi_val_cong:
  assumes "bit_depth c = bit_depth b"
    and "\<And>i. i < bit_depth b \<Longrightarrow> x \<in> rb_bits R (bsi_slice c i) \<longleftrightarrow> x \<in> rb_bits R (bsi_slice b i)"
  shows "bsi_val R c x = bsi_val R b x"
  by (rule bsi_val_eqI) (use assms bsi_val_less in \<open>auto simp: bit_bsi_val\<close>)

lemma wf_row_0: "bsi_wf b \<Longrightarrow> 0 < length (bitmaps b)"
  by (auto simp: bsi_wf_def)

lemma set_row_0:
  assumes "bsi_wf b"
  shows "exist_row (set_row 0 c b) = c" and "bsi_slice (set_row 0 c b) i = bsi_slice b i"
  using wf_row_0[OF assms] by (simp_all add: exist_row_def bsi_slice_def bsi_row_set_row)

text \<open>The index after the identifier and its bits have been written, before any eviction.\<close>

lemma put_effect:
  assumes "bsi_wf b" and b': "b' = put_bits R x v (bit_depth b) (set_row 0 (rb_add R (exist_row b) x) b)"
  shows "bsi_ids R b' = insert x (bsi_ids R b)"
    and "bsi_val R b' y = (if y = x then bsi_operand b v else bsi_val R b y)"
proof -
  have wf: "bsi_wf (set_row 0 (rb_add R (exist_row b) x) b)" by (rule bsi_wf_set_row[OF assms(1)])
  show "bsi_ids R b' = insert x (bsi_ids R b)"
    by (simp add: b' bsi_ids_def put_bits_rows[OF wf] set_row_0[OF assms(1)])
  have slice: "rb_bits R (bsi_slice b' i) = (if bit v i then insert x (rb_bits R (bsi_slice b i))
      else rb_bits R (bsi_slice b i) - {x})" if "i < bit_depth b" for i
    using that by (simp add: b' put_bits_rows[OF wf] set_row_0[OF assms(1)])
  have d: "bit_depth b' = bit_depth b" by (simp add: b')
  show "bsi_val R b' y = (if y = x then bsi_operand b v else bsi_val R b y)"
  proof (cases "y = x")
    case True
    then have "bsi_val R b' x = bsi_operand b v"
      using bsi_operand_less[of b v] by (intro bsi_val_eqI) (simp_all add: d slice bit_bsi_operand)
    with True show ?thesis by simp
  next
    case False
    then show ?thesis by (simp, intro bsi_val_cong) (auto simp: d slice)
  qed
qed

lemma remove_effect:
  assumes "bsi_wf b"
  shows "bsi_ids R (bsi_DoRemove R x v b) = bsi_ids R b - {x}"
    and "y \<noteq> x \<Longrightarrow> bsi_val R (bsi_DoRemove R x v b) y = bsi_val R b y"
proof -
  have wf: "bsi_wf (set_row 0 (rb_remove R (exist_row b) x) b)" by (rule bsi_wf_set_row[OF assms(1)])
  show "bsi_ids R (bsi_DoRemove R x v b) = bsi_ids R b - {x}"
    by (simp add: bsi_DoRemove_def bsi_ids_def remove_bits_rows[OF wf] set_row_0[OF assms(1)])
  show "y \<noteq> x \<Longrightarrow> bsi_val R (bsi_DoRemove R x v b) y = bsi_val R b y"
    by (intro bsi_val_cong)
      (simp_all add: bsi_DoRemove_def remove_bits_rows[OF wf] set_row_0[OF assms(1)])
qed

lemma get_bits_val:
  assumes "bit_depth b < 64" and "n \<le> bit_depth b"
  shows "unat (get_bits R x n b) = take_bit n (bsi_val R b x)"
  using assms
proof (induction n)
  case 0
  then show ?case by simp
next
  case (Suc n)
  have "take_bit n (bsi_val R b x) < 2 ^ n" by simp
  moreover have "(2 :: nat) ^ n + 2 ^ n \<le> 2 ^ 63"
    using Suc.prems power_increasing[of "Suc n" 63 "2 :: nat"] by simp
  moreover have "(2 :: nat) ^ 63 < 2 ^ 64" by simp
  ultimately have "take_bit n (bsi_val R b x) + 2 ^ n < 2 ^ 64" by linarith
  then have "unat (get_bits R x n b + 2 ^ n) = take_bit n (bsi_val R b x) + 2 ^ n"
    using Suc by (subst unat_add_lem[THEN iffD1]) (simp_all add: unat_exp)
  then show ?case
    using Suc by (simp add: take_bit_Suc_from_most bit_bsi_val rb_contains_iff)
qed

lemma DoGet_eq:
  assumes "bsi_wf b"
  shows "bsi_DoGet R x b = (if x \<in> bsi_ids R b then Some (of_nat (bsi_val R b x)) else None)"
proof -
  have "unat (get_bits R x (bit_depth b) b) = bsi_val R b x"
    using assms bsi_val_less[of R b x] by (subst get_bits_val) (simp_all add: bsi_wf_def take_bit_nat_eq_self)
  from arg_cong[OF this, of "of_nat :: nat \<Rightarrow> u64"]
  have "get_bits R x (bit_depth b) b = of_nat (bsi_val R b x)" by simp
  then show ?thesis by (simp add: bsi_DoGet_def bsi_ids_def rb_contains_iff)
qed

lemma DoPut_eq:
  assumes "bsi_wf b" and "limit_topk (options b) = 0"
  shows "bsi_DoPut R x v b = Some (put_bits R x v (bit_depth b) (set_row 0 (rb_add R (exist_row b) x) b),
           if x \<in> bsi_ids R b then Some (of_nat (bsi_val R b x)) else None)"
proof -
  have "get_bits R x (bit_depth b) (set_row 0 (rb_add R (exist_row b) x) b) = get_bits R x (bit_depth b) b"
  proof -
    have "get_bits R x n (set_row 0 c b) = get_bits R x n b" for n c
      by (induction n) (simp_all add: set_row_0[OF assms(1)])
    then show ?thesis .
  qed
  moreover have "x \<in> bsi_ids R b \<Longrightarrow> get_bits R x (bit_depth b) b = of_nat (bsi_val R b x)"
    using DoGet_eq[OF assms(1), of x] by (simp add: bsi_DoGet_def bsi_ids_def rb_contains_iff)
  ultimately show ?thesis
    using assms(2) by (simp add: bsi_DoPut_def Let_def bsi_ids_def rb_contains_iff)
qed

end

text \<open>An index without a limit is a value index for the values that fit its depth.\<close>

sublocale roaring_api < bsi_ix: value_index
  "\<lambda>b. bsi_wf b \<and> limit_topk (options b) = 0" "\<lambda>b v. unat v < 2 ^ bit_depth b"
  "bsi_DoGet R" "\<lambda>x v b. map_option fst (bsi_DoPut R x v b)" "bsi_DoRemove R"
proof
  fix b :: "'b bsi" and v :: u64 and x
  assume b: "bsi_wf b \<and> limit_topk (options b) = 0" and v: "unat v < 2 ^ bit_depth b"
  let ?b = "put_bits R x v (bit_depth b) (set_row 0 (rb_add R (exist_row b) x) b)"
  have wf: "bsi_wf ?b" using b by (simp add: bsi_wf_set_row bsi_wf_put_bits)
  have "of_nat (unat v) = v" by simp
  then have "bsi_DoGet R y ?b = ((\<lambda>y. bsi_DoGet R y b)(x \<mapsto> v)) y" for y
    using b v put_effect[of b ?b x v] by (simp add: DoGet_eq wf bsi_operand_eq)
  then show "\<exists>s'. map_option fst (bsi_DoPut R x v b) = Some s'
      \<and> (bsi_wf s' \<and> limit_topk (options s') = 0)
      \<and> (\<lambda>v. unat v < 2 ^ bit_depth s') = (\<lambda>v. unat v < 2 ^ bit_depth b)
      \<and> (\<lambda>y. bsi_DoGet R y s') = (\<lambda>y. bsi_DoGet R y b)(x \<mapsto> v)"
    using b wf by (intro exI[of _ ?b]) (simp add: DoPut_eq fun_eq_iff)
next
  fix b :: "'b bsi" and v :: u64 and x
  assume b: "bsi_wf b \<and> limit_topk (options b) = 0"
  then have "bsi_DoGet R y (bsi_DoRemove R x v b) = ((\<lambda>y. bsi_DoGet R y b)(x := None)) y" for y
    by (auto simp: DoGet_eq bsi_wf_DoRemove remove_effect)
  with b show "(bsi_wf (bsi_DoRemove R x v b) \<and> limit_topk (options (bsi_DoRemove R x v b)) = 0)
      \<and> (\<lambda>va. unat va < 2 ^ bit_depth (bsi_DoRemove R x v b)) = (\<lambda>v. unat v < 2 ^ bit_depth b)
      \<and> (\<lambda>y. bsi_DoGet R y (bsi_DoRemove R x v b)) = (\<lambda>y. bsi_DoGet R y b)(x := None)"
    by (simp add: bsi_wf_DoRemove fun_eq_iff)
qed

end
