(* ===== verification/RobimsBsiNum.thy ===== *)
theory RobimsBsiNum
  imports RobimsBsiPut
begin

text \<open>
  The classes \<^verbatim>\<open>BitSliceIntIndex\<close> and \<^verbatim>\<open>BitSliceFloatIndex\<close> of \<^verbatim>\<open>robims_bsi.cpp\<close>. They share the
  bit-sliced index and differ in how a number is stored: an integer as its distance from the least
  value, a float by its order-preserving encoding. The signed differences the code computes are
  wrapping here.
\<close>

section \<open>Integers\<close>

definition IntIndex_GetMax :: "'b roaring \<Rightarrow> 'b bsi \<Rightarrow> 'b option \<Rightarrow> (i64 \<times> i64 \<times> 'b) option" where
  "IntIndex_GetMax R b input =
     map_option (\<lambda>(mx, count, f). (GetActualIntVal (options b) mx, count, f)) (bsi_DoGetMax R b input)"

definition IntIndex_GetMin :: "'b roaring \<Rightarrow> 'b bsi \<Rightarrow> 'b option \<Rightarrow> (i64 \<times> i64 \<times> 'b) option" where
  "IntIndex_GetMin R b input =
     map_option (\<lambda>(mn, count, f). (GetActualIntVal (options b) mn, count, f)) (bsi_DoGetMin R b input)"

definition IntIndex_RangeLT :: "'b roaring \<Rightarrow> 'b bsi \<Rightarrow> i64 \<Rightarrow> bool \<Rightarrow> 'b \<Rightarrow> 'b" where
  "IntIndex_RangeLT R b expect allow_eq out =
     bsi_DoRangeLT R b (ToLocalVal_int (options b) expect) allow_eq out"

definition IntIndex_RangeGT :: "'b roaring \<Rightarrow> 'b bsi \<Rightarrow> i64 \<Rightarrow> bool \<Rightarrow> 'b \<Rightarrow> 'b" where
  "IntIndex_RangeGT R b expect allow_eq out =
     bsi_DoRangeGT R b (ToLocalVal_int (options b) expect) allow_eq out"

definition IntIndex_RangeEQ :: "'b roaring \<Rightarrow> 'b bsi \<Rightarrow> i64 \<Rightarrow> 'b \<Rightarrow> 'b" where
  "IntIndex_RangeEQ R b expect out = bsi_DoRangeEQ R b (ToLocalVal_int (options b) expect) out"

definition IntIndex_RangeNEQ :: "'b roaring \<Rightarrow> 'b bsi \<Rightarrow> i64 \<Rightarrow> 'b \<Rightarrow> 'b" where
  "IntIndex_RangeNEQ R b expect out = bsi_DoRangeNEQ R b (ToLocalVal_int (options b) expect) out"

definition IntIndex_RangeBetween :: "'b roaring \<Rightarrow> 'b bsi \<Rightarrow> i64 \<Rightarrow> i64 \<Rightarrow> 'b \<Rightarrow> 'b" where
  "IntIndex_RangeBetween R b mn mx f =
     bsi_DoRangeBetween R b (ToLocalVal_int (options b) mn) (ToLocalVal_int (options b) mx) f"

definition IntIndex_Remove :: "'b roaring \<Rightarrow> u32 \<Rightarrow> i64 \<Rightarrow> 'b bsi \<Rightarrow> 'b bsi" where
  "IntIndex_Remove R idx val b = bsi_DoRemove R idx (ToLocalVal_int (options b) val) b"

definition IntIndex_Put :: "'b roaring \<Rightarrow> u32 \<Rightarrow> i64 \<Rightarrow> 'b bsi \<Rightarrow> 'b bsi option" where
  "IntIndex_Put R idx val b = map_option fst (bsi_DoPut R idx (ToLocalVal_int (options b) val) b)"

definition IntIndex_Get :: "'b roaring \<Rightarrow> u32 \<Rightarrow> 'b bsi \<Rightarrow> i64 option" where
  "IntIndex_Get R idx b = map_option (GetActualIntVal (options b)) (bsi_DoGet R idx b)"

definition IntIndex_RemoveMin :: "'b roaring \<Rightarrow> 'b bsi \<Rightarrow> (i64 \<times> 'b bsi) option" where
  "IntIndex_RemoveMin R b =
     map_option (\<lambda>(v, b'). (GetActualIntVal (options b) v, b')) (bsi_DoRemoveMin R b)"

section \<open>Floats\<close>

definition FloatIndex_GetMax :: "'b roaring \<Rightarrow> 'b bsi \<Rightarrow> 'b option \<Rightarrow> (u32 \<times> i64 \<times> 'b) option" where
  "FloatIndex_GetMax R b input =
     map_option (\<lambda>(mx, count, f). (GetActualFloatVal (options b) mx, count, f)) (bsi_DoGetMax R b input)"

definition FloatIndex_GetMin :: "'b roaring \<Rightarrow> 'b bsi \<Rightarrow> 'b option \<Rightarrow> (u32 \<times> i64 \<times> 'b) option" where
  "FloatIndex_GetMin R b input =
     map_option (\<lambda>(mn, count, f). (GetActualFloatVal (options b) mn, count, f)) (bsi_DoGetMin R b input)"

definition FloatIndex_RangeLT :: "'b roaring \<Rightarrow> 'b bsi \<Rightarrow> u32 \<Rightarrow> bool \<Rightarrow> 'b \<Rightarrow> 'b" where
  "FloatIndex_RangeLT R b expect allow_eq out =
     bsi_DoRangeLT R b (ToLocalVal_float (options b) expect) allow_eq out"

definition FloatIndex_RangeGT :: "'b roaring \<Rightarrow> 'b bsi \<Rightarrow> u32 \<Rightarrow> bool \<Rightarrow> 'b \<Rightarrow> 'b" where
  "FloatIndex_RangeGT R b expect allow_eq out =
     bsi_DoRangeGT R b (ToLocalVal_float (options b) expect) allow_eq out"

definition FloatIndex_RangeEQ :: "'b roaring \<Rightarrow> 'b bsi \<Rightarrow> u32 \<Rightarrow> 'b \<Rightarrow> 'b" where
  "FloatIndex_RangeEQ R b expect out = bsi_DoRangeEQ R b (ToLocalVal_float (options b) expect) out"

definition FloatIndex_RangeNEQ :: "'b roaring \<Rightarrow> 'b bsi \<Rightarrow> u32 \<Rightarrow> 'b \<Rightarrow> 'b" where
  "FloatIndex_RangeNEQ R b expect out = bsi_DoRangeNEQ R b (ToLocalVal_float (options b) expect) out"

definition FloatIndex_RangeBetween :: "'b roaring \<Rightarrow> 'b bsi \<Rightarrow> u32 \<Rightarrow> u32 \<Rightarrow> 'b \<Rightarrow> 'b" where
  "FloatIndex_RangeBetween R b mn mx f =
     bsi_DoRangeBetween R b (ToLocalVal_float (options b) mn) (ToLocalVal_float (options b) mx) f"

definition FloatIndex_Remove :: "'b roaring \<Rightarrow> u32 \<Rightarrow> u32 \<Rightarrow> 'b bsi \<Rightarrow> 'b bsi" where
  "FloatIndex_Remove R idx val b = bsi_DoRemove R idx (ToLocalVal_float (options b) val) b"

text \<open>The old value is decoded without the offset of the least value, as in the code.\<close>

definition FloatIndex_Put :: "'b roaring \<Rightarrow> u32 \<Rightarrow> u32 \<Rightarrow> 'b bsi \<Rightarrow> ('b bsi \<times> u32 option) option" where
  "FloatIndex_Put R idx val b =
     map_option (\<lambda>(b', old). (b', map_option (\<lambda>v. uint32_to_float (ucast v)) old))
       (bsi_DoPut R idx (ToLocalVal_float (options b) val) b)"

definition FloatIndex_Get :: "'b roaring \<Rightarrow> u32 \<Rightarrow> 'b bsi \<Rightarrow> u32 option" where
  "FloatIndex_Get R idx b = map_option (GetActualFloatVal (options b)) (bsi_DoGet R idx b)"

text \<open>The \<^verbatim>\<open>double\<close> the code returns is the exact widening of this \<^verbatim>\<open>float\<close>.\<close>

definition FloatIndex_RemoveMin :: "'b roaring \<Rightarrow> 'b bsi \<Rightarrow> (u32 \<times> 'b bsi) option" where
  "FloatIndex_RemoveMin R b =
     map_option (\<lambda>(v, b'). (GetActualFloatVal (options b) v, b')) (bsi_DoRemoveMin R b)"

section \<open>Both are value indexes\<close>

definition int_in_range :: "'b bsi \<Rightarrow> i64 \<Rightarrow> bool" where
  "int_in_range b v \<longleftrightarrow> unat (ToLocalVal_int (options b) v) < 2 ^ bit_depth b"

definition float_in_range :: "'b bsi \<Rightarrow> u32 \<Rightarrow> bool" where
  "float_in_range b v \<longleftrightarrow> \<not> float_is_nan v \<and> v \<noteq> 0x80000000
     \<and> unat (ToLocalVal_float (options b) v) < 2 ^ bit_depth b"

sublocale roaring_api < int_ix: coded_index
  "\<lambda>b. bsi_wf b \<and> limit_topk (options b) = 0" "\<lambda>b v. unat v < 2 ^ bit_depth b"
  "bsi_DoGet R" "\<lambda>x v b. map_option fst (bsi_DoPut R x v b)" "bsi_DoRemove R"
  int_in_range "\<lambda>b. ToLocalVal_int (options b)" "\<lambda>b. GetActualIntVal (options b)"
  by unfold_locales
    (auto simp: int_in_range_def ToLocalVal_int_def GetActualIntVal_def fun_eq_iff dest: bsi_wf_DoPut)

sublocale roaring_api < float_ix: coded_index
  "\<lambda>b. bsi_wf b \<and> limit_topk (options b) = 0" "\<lambda>b v. unat v < 2 ^ bit_depth b"
  "bsi_DoGet R" "\<lambda>x v b. map_option fst (bsi_DoPut R x v b)" "bsi_DoRemove R"
  float_in_range "\<lambda>b. ToLocalVal_float (options b)" "\<lambda>b. GetActualFloatVal (options b)"
  by unfold_locales
    (auto simp: float_in_range_def ToLocalVal_float_def GetActualFloatVal_def fun_eq_iff
      uint32_to_float_to_uint32 dest: bsi_wf_DoPut)


section \<open>Ranges of actual values\<close>

definition int_val :: "'b roaring \<Rightarrow> 'b bsi \<Rightarrow> u32 \<Rightarrow> int" where
  "int_val R b x = sint (GetActualIntVal (options b) (of_nat (bsi_val R b x)))"

definition int_fits :: "'b bsi \<Rightarrow> bool" where
  "int_fits b \<longleftrightarrow> bit_depth b \<le> 63 \<and> sint (min_int (options b)) + 2 ^ bit_depth b \<le> 2 ^ 63"

definition int_expect :: "'b bsi \<Rightarrow> i64 \<Rightarrow> bool" where
  "int_expect b e \<longleftrightarrow> sint (min_int (options b)) \<le> sint e
     \<and> sint e < sint (min_int (options b)) + 2 ^ bit_depth b"

lemma sint_i64_bounds: "- (2 ^ 63) \<le> sint (w :: i64)" "sint (w :: i64) < 2 ^ 63"
  using sint_greater_eq[of w] sint_less[of w] by simp_all

lemma of_int_sint_i64: "of_int (sint w) = (w :: i64)"
  by simp

lemma sint_of_int_i64: "- (2 ^ 63) \<le> z \<Longrightarrow> z < 2 ^ 63 \<Longrightarrow> sint (of_int z :: i64) = z"
  by (simp add: sint_sbintrunc' signed_take_bit_int_eq_self)

lemma unat_of_int_u64: "0 \<le> z \<Longrightarrow> z < 2 ^ 64 \<Longrightarrow> unat (of_int z :: u64) = nat z"
  by (simp add: unsigned_of_int take_bit_int_eq_self)

lemma int_val_eq:
  assumes "int_fits b"
  shows "int_val R b x = sint (min_int (options b)) + int (bsi_val R b x)"
proof -
  let ?m = "min_int (options b)" and ?z = "sint (min_int (options b)) + int (bsi_val R b x)"
  have z: "GetActualIntVal (options b) (of_nat (bsi_val R b x)) = of_int ?z"
    by (simp add: GetActualIntVal_def add.commute)
  have "int (bsi_val R b x) < 2 ^ bit_depth b"
    using bsi_val_less[of R b x] by (metis of_nat_less_iff of_nat_numeral of_nat_power)
  then have "- (2 ^ 63) \<le> ?z" "?z < 2 ^ 63"
    using assms sint_i64_bounds[of ?m] unfolding int_fits_def by linarith+
  then show ?thesis unfolding int_val_def z by (rule sint_of_int_i64)
qed

lemma unat_ToLocalVal_int:
  assumes "int_expect b e"
  shows "int (unat (ToLocalVal_int (options b) e)) = sint e - sint (min_int (options b))"
proof -
  let ?m = "min_int (options b)"
  have "ToLocalVal_int (options b) e = of_int (sint e - sint ?m)"
    by (simp add: ToLocalVal_int_def)
  moreover have "0 \<le> sint e - sint ?m" "sint e - sint ?m < 2 ^ 64"
    using assms sint_i64_bounds[of e] sint_i64_bounds[of ?m] by (auto simp: int_expect_def)
  ultimately show ?thesis by (simp only: unat_of_int_u64 int_nat_eq if_True)
qed

lemma int_expect_local:
  assumes "int_expect b e"
  shows "unat (ToLocalVal_int (options b) e) < 2 ^ bit_depth b"
proof -
  have "int (unat (ToLocalVal_int (options b) e)) < int (2 ^ bit_depth b)"
    unfolding unat_ToLocalVal_int[OF assms] using assms by (simp add: int_expect_def)
  then show ?thesis by (simp only: of_nat_less_iff)
qed

lemma int_cmp:
  assumes "int_fits b" and "int_expect b e"
  shows "unat (ToLocalVal_int (options b) e) < bsi_val R b x \<longleftrightarrow> sint e < int_val R b x"
    and "bsi_val R b x < unat (ToLocalVal_int (options b) e) \<longleftrightarrow> int_val R b x < sint e"
    and "bsi_val R b x = unat (ToLocalVal_int (options b) e) \<longleftrightarrow> int_val R b x = sint e"
proof -
  note v = int_val_eq[OF assms(1), of R x] and e = unat_ToLocalVal_int[OF assms(2)]
  show "unat (ToLocalVal_int (options b) e) < bsi_val R b x \<longleftrightarrow> sint e < int_val R b x"
    "bsi_val R b x < unat (ToLocalVal_int (options b) e) \<longleftrightarrow> int_val R b x < sint e"
    "bsi_val R b x = unat (ToLocalVal_int (options b) e) \<longleftrightarrow> int_val R b x = sint e"
    using v e by linarith+
qed

definition float_val :: "'b roaring \<Rightarrow> 'b bsi \<Rightarrow> u32 \<Rightarrow> u32" where
  "float_val R b x = GetActualFloatVal (options b) (of_nat (bsi_val R b x))"

text \<open>Every stored number is the encoding of a float in range.\<close>

definition float_stored :: "'b roaring \<Rightarrow> 'b bsi \<Rightarrow> bool" where
  "float_stored R b \<longleftrightarrow> unat (opt_min (options b)) < 2 ^ 32 \<and> bit_depth b \<le> 32 \<and>
     (\<forall>x \<in> bsi_ids R b. \<not> float_is_nan (float_val R b x)
        \<and> ToLocalVal_float (options b) (float_val R b x) = of_nat (bsi_val R b x))"

lemma unat_ToLocalVal_float:
  assumes "unat (opt_min (options b)) < 2 ^ 32" and "bit_depth b \<le> 32"
    and "unat (ToLocalVal_float (options b) w) < 2 ^ bit_depth b"
  shows "unat (float_to_uint32 w) = unat (opt_min (options b)) + unat (ToLocalVal_float (options b) w)"
proof -
  let ?l = "ToLocalVal_float (options b) w" and ?m = "opt_min (options b)"
  have "(2 :: nat) ^ bit_depth b \<le> 2 ^ 32" using assms(2) by (intro power_increasing) simp_all
  then have "unat ?m + unat ?l < 2 ^ 64" using assms(1,3) by simp
  then have "unat (?m + ?l) = unat ?m + unat ?l" by (subst unat_add_lem[THEN iffD1]) simp_all
  moreover have "?m + ?l = ucast (float_to_uint32 w)" by (simp add: ToLocalVal_float_def)
  ultimately show ?thesis by simp
qed

lemma float_cmp:
  assumes "float_stored R b" and "x \<in> bsi_ids R b"
    and e: "\<not> float_is_nan e" "unat (ToLocalVal_float (options b) e) < 2 ^ bit_depth b"
  shows "unat (ToLocalVal_float (options b) e) < bsi_val R b x \<longleftrightarrow> float_lt e (float_val R b x)"
    and "bsi_val R b x < unat (ToLocalVal_float (options b) e) \<longleftrightarrow> float_lt (float_val R b x) e"
    and "bsi_val R b x = unat (ToLocalVal_float (options b) e) \<longleftrightarrow> float_eq (float_val R b x) e"
proof -
  have m: "unat (opt_min (options b)) < 2 ^ 32" "bit_depth b \<le> 32"
    and w: "\<not> float_is_nan (float_val R b x)"
      "ToLocalVal_float (options b) (float_val R b x) = of_nat (bsi_val R b x)"
    using assms by (auto simp: float_stored_def)
  have "(2 :: nat) ^ bit_depth b \<le> 2 ^ 32" using m(2) by (intro power_increasing) simp_all
  then have l: "unat (ToLocalVal_float (options b) (float_val R b x)) = bsi_val R b x"
    unfolding w(2) using bsi_val_less[of R b x] by (intro unat_of_nat_small) simp
  have k: "unat (float_to_uint32 (float_val R b x)) = unat (opt_min (options b)) + bsi_val R b x"
    using unat_ToLocalVal_float[OF m, of "float_val R b x"] bsi_val_less[of R b x] l by simp
  note ke = unat_ToLocalVal_float[OF m e(2)]
  show lt: "unat (ToLocalVal_float (options b) e) < bsi_val R b x \<longleftrightarrow> float_lt e (float_val R b x)"
    using float_num_less_iff_key[OF e(1) w(1)] k ke by (simp add: float_lt_def e w)
  show gt: "bsi_val R b x < unat (ToLocalVal_float (options b) e) \<longleftrightarrow> float_lt (float_val R b x) e"
    using float_num_less_iff_key[OF w(1) e(1)] k ke by (simp add: float_lt_def e w)
  show "bsi_val R b x = unat (ToLocalVal_float (options b) e) \<longleftrightarrow> float_eq (float_val R b x) e"
    using lt gt by (auto simp: float_lt_def float_eq_def e w)
qed

section \<open>Fresh indexes\<close>

lemma exist_row_Init: "exist_row (bsi_Init R F meta new_bsi) = rb_create R"
  by (simp add: bsi_Init_def new_bsi_def Let_def exist_row_def bsi_row_def rbm_def NewCRoaringBitmap_def)

lemma Init_frame [simp]:
  "options (bsi_Init R F meta b) = options (bsi_DoInit F meta b)"
  "bit_depth (bsi_Init R F meta b) = bit_depth (bsi_DoInit F meta b)"
  by (simp_all add: bsi_Init_def Let_def)

lemma bsi_wf_new: "bsi_wf (bsi_Init R F meta new_bsi)"
  by (rule bsi_wf_Init) (simp_all add: new_bsi_def)

lemma bit_len_le_32: "n < 2 ^ 32 \<Longrightarrow> bit_len n \<le> 32"
  by (simp add: bit_len_le_iff)

text \<open>With the bounds \<open>lo\<close> and \<open>hi\<close>, the depth of an integer index covers the distance.\<close>

lemma int_Init:
  fixes B :: "'b bsi"
  assumes B: "B = bsi_DoInit F meta new_bsi"
    and meta: "fm_index_type meta = INT_INDEX" "ucast (fm_topk_limit meta) = (0 :: u32)"
    and lo: "lo = d2i F (fm_min meta)" and hi: "hi = d2i F (fm_max meta)"
    and b: "\<not> (lo = 0 \<and> hi = 0)" "sint lo \<le> sint hi" "sint hi - sint lo < 2 ^ 63"
  shows "min_int (options B) = lo"
    and "limit_topk (options B) = 0"
    and "sint hi - sint lo < 2 ^ bit_depth B"
    and "bit_depth B \<le> 63"
proof -
  have o1: "options B = (SetMinMax_int lo hi new_options)\<lparr>limit_topk := ucast (fm_topk_limit meta)\<rparr>"
    using meta(1) lo hi by (simp add: B bsi_DoInit_def Let_def new_bsi_def)
  then show "min_int (options B) = lo" "limit_topk (options B) = 0"
    using meta(2) by (simp_all add: SetMinMax_int_def Let_def)
  have "Distance (options B) = hi - lo"
    unfolding o1 using b(1) by (auto simp: SetMinMax_int_def Let_def Distance_def)
  also have "\<dots> = of_int (sint hi - sint lo)" by simp
  finally have "Distance (options B) = of_int (sint hi - sint lo)" .
  moreover have "0 \<le> sint hi - sint lo" "sint hi - sint lo < 2 ^ 64" using b by simp_all
  ultimately have d: "unat (Distance (options B)) = nat (sint hi - sint lo)"
    by (simp only: unat_of_int_u64)
  have "nat (sint hi - sint lo) < 2 ^ 63" using b by (simp add: nat_less_iff)
  then have "bit_len (nat (sint hi - sint lo)) \<le> 63" by (simp only: bit_len_le_iff)
  then have "bit_depth B = bit_len (nat (sint hi - sint lo))"
    using DoInit_depth[of F meta "new_bsi :: 'b bsi"] unfolding B[symmetric] by (simp add: d Let_def)
  then show "bit_depth B \<le> 63" "sint hi - sint lo < 2 ^ bit_depth B"
    using \<open>bit_len _ \<le> 63\<close> less_exp_bit_len[of "nat (sint hi - sint lo)"] b
    by (simp_all add: nat_less_iff)
qed

lemma float_Init:
  fixes B :: "'b bsi"
  assumes B: "B = bsi_DoInit F meta new_bsi"
    and meta: "fm_index_type meta = FLOAT_INDEX" "ucast (fm_topk_limit meta) = (0 :: u32)"
    and lo: "lo = d2f F (fm_min meta)" and hi: "hi = d2f F (fm_max meta)"
    and b: "\<not> (float_eq 0 lo \<and> float_eq 0 hi)" "\<not> float_is_nan lo" "\<not> float_is_nan hi"
      "\<not> float_lt hi lo"
  shows "opt_min (options B) = ucast (float_to_uint32 lo)"
    and "limit_topk (options B) = 0"
    and "unat (float_to_uint32 hi) - unat (float_to_uint32 lo) < 2 ^ bit_depth B"
    and "bit_depth B \<le> 32"
proof -
  have o1: "options B = (SetMinMax_float lo hi new_options)\<lparr>limit_topk := ucast (fm_topk_limit meta)\<rparr>"
    using meta(1) lo hi by (simp add: B bsi_DoInit_def Let_def new_bsi_def)
  then show "opt_min (options B) = ucast (float_to_uint32 lo)" "limit_topk (options B) = 0"
    using meta(2) by (simp_all add: SetMinMax_float_def Let_def)
  let ?d = "unat (float_to_uint32 hi) - unat (float_to_uint32 lo)"
  have le: "unat (float_to_uint32 lo) \<le> unat (float_to_uint32 hi)"
    using b float_num_less_iff_key[of hi lo] by (auto simp: float_lt_def)
  have "Distance (options B) = ucast (float_to_uint32 hi) - ucast (float_to_uint32 lo)"
    unfolding o1 using b(1) by (auto simp: SetMinMax_float_def Let_def Distance_def)
  then have d: "unat (Distance (options B)) = ?d" using le by (simp add: unat_sub word_le_nat_alt)
  have "?d < 2 ^ 32" using unsigned_less[of "float_to_uint32 hi", where ?'a = nat] by simp
  then have L: "bit_len ?d \<le> 32" by (rule bit_len_le_32)
  then have "bit_depth B = bit_len ?d"
    using DoInit_depth[of F meta "new_bsi :: 'b bsi"] unfolding B[symmetric] by (simp add: d Let_def)
  then show "?d < 2 ^ bit_depth B" "bit_depth B \<le> 32" using less_exp_bit_len L by simp_all
qed

lemma int_in_range_Init:
  assumes "min_int (options b) = lo" and "sint hi - sint lo < 2 ^ bit_depth b" and "sint lo \<le> sint v" and "sint v \<le> sint hi"
  shows "int_in_range b v"
proof -
  have "int_expect b v" using assms by (simp add: int_expect_def)
  then show ?thesis unfolding int_in_range_def by (rule int_expect_local)
qed

lemma float_in_range_Init:
  assumes "opt_min (options b) = ucast (float_to_uint32 lo)"
    and "unat (float_to_uint32 hi) - unat (float_to_uint32 lo) < 2 ^ bit_depth b"
    and nan: "\<not> float_is_nan lo" "\<not> float_is_nan hi" "\<not> float_is_nan v"
    and v: "v \<noteq> 0x80000000" "\<not> float_lt v lo" "\<not> float_lt hi v"
  shows "float_in_range b v"
proof -
  have "unat (float_to_uint32 lo) \<le> unat (float_to_uint32 v)"
    "unat (float_to_uint32 v) \<le> unat (float_to_uint32 hi)"
    using v nan float_num_less_iff_key[of v lo] float_num_less_iff_key[of hi v]
    by (auto simp: float_lt_def)
  then have "unat (ToLocalVal_float (options b) v) < 2 ^ bit_depth b"
    using assms(1,2) by (simp add: ToLocalVal_float_def unat_sub word_le_nat_alt)
  then show ?thesis using nan v by (simp add: float_in_range_def)
qed

lemma op_value_ok_mono: "list_all (op_value_ok P) ps \<Longrightarrow> (\<And>v. P v \<Longrightarrow> Q v) \<Longrightarrow> list_all (op_value_ok Q) ps"
  by (induction ps) (auto elim: op_value_ok.elims)

context roaring_api
begin

lemma fresh_Get: "bsi_DoGet R x (bsi_Init R F meta new_bsi) = None"
  by (simp add: bsi_DoGet_def exist_row_Init rb_contains_iff)

lemma IntIndex_run:
  assumes "limit_topk (options (bsi_Init R F meta new_bsi)) = 0"
    and "list_all (op_value_ok (int_in_range (bsi_Init R F meta new_bsi))) ops"
  shows "\<exists>b'. index_run (IntIndex_Get R) (IntIndex_Put R) (IntIndex_Remove R) ops (bsi_Init R F meta new_bsi) = Some b'
    \<and> (\<lambda>x. IntIndex_Get R x b') = fold spec_op ops Map.empty"
proof -
  have ops: "(\<lambda>x s. map_option (GetActualIntVal (options s)) (bsi_DoGet R x s)) = IntIndex_Get R"
    "(\<lambda>x w s. map_option fst (bsi_DoPut R x (ToLocalVal_int (options s) w) s)) = IntIndex_Put R"
    "(\<lambda>x w s. bsi_DoRemove R x (ToLocalVal_int (options s) w) s) = IntIndex_Remove R"
    by (simp_all add: fun_eq_iff IntIndex_Get_def IntIndex_Put_def IntIndex_Remove_def)
  have "int_ix.coded_inv (bsi_Init R F meta new_bsi)"
    using assms(1) by (simp add: int_ix.coded_inv_def bsi_wf_new fresh_Get)
  from value_index.index_run_refines[OF int_ix.coded_value_index this assms(2), unfolded ops]
  show ?thesis by (auto simp: IntIndex_Get_def fresh_Get)
qed

lemma FloatIndex_run:
  assumes "limit_topk (options (bsi_Init R F meta new_bsi)) = 0"
    and "list_all (op_value_ok (float_in_range (bsi_Init R F meta new_bsi))) ops"
  shows "\<exists>b'. index_run (FloatIndex_Get R) (\<lambda>x v b. map_option fst (FloatIndex_Put R x v b)) (FloatIndex_Remove R)
        ops (bsi_Init R F meta new_bsi) = Some b'
    \<and> (\<lambda>x. FloatIndex_Get R x b') = fold spec_op ops Map.empty"
proof -
  have ops: "(\<lambda>x s. map_option (GetActualFloatVal (options s)) (bsi_DoGet R x s)) = FloatIndex_Get R"
    "(\<lambda>x w s. map_option fst (bsi_DoPut R x (ToLocalVal_float (options s) w) s))
       = (\<lambda>x v b. map_option fst (FloatIndex_Put R x v b))"
    "(\<lambda>x w s. bsi_DoRemove R x (ToLocalVal_float (options s) w) s) = FloatIndex_Remove R"
    by (simp_all add: fun_eq_iff FloatIndex_Get_def FloatIndex_Put_def FloatIndex_Remove_def
        option.map_comp comp_def case_prod_beta)
  have "float_ix.coded_inv (bsi_Init R F meta new_bsi)"
    using assms(1) by (simp add: float_ix.coded_inv_def bsi_wf_new fresh_Get)
  from value_index.index_run_refines[OF float_ix.coded_value_index this assms(2), unfolded ops]
  show ?thesis by (auto simp: FloatIndex_Get_def fresh_Get)
qed

end

section \<open>Properties\<close>

text \<open>
  C1. For every sequence of puts and removals of values between the bounds of an
  integer field without a limit, starting with a fresh index, every operation succeeds and
  \<^verbatim>\<open>Get\<close> returns for each identifier the value put last, or nothing when it was removed since or
  never put.
\<close>

theorem int_index_run:
  assumes "roaring_api R"
    and "fm_index_type meta = INT_INDEX" and "ucast (fm_topk_limit meta) = (0 :: u32)"
    and "lo = d2i F (fm_min meta)" and "hi = d2i F (fm_max meta)"
    and "\<not> (lo = 0 \<and> hi = 0)" and "sint lo \<le> sint hi" and "sint hi - sint lo < 2 ^ 63"
    and "list_all (op_value_ok (\<lambda>v. sint lo \<le> sint v \<and> sint v \<le> sint hi)) ops"
  shows "\<exists>b. index_run (IntIndex_Get R) (IntIndex_Put R) (IntIndex_Remove R) ops
            (bsi_Init R F meta new_bsi) = Some b
         \<and> (\<forall>x. IntIndex_Get R x b = fold spec_op ops Map.empty x)"
proof -
  note B = int_Init[OF refl assms(2-8)]
  have "list_all (op_value_ok (int_in_range (bsi_Init R F meta new_bsi))) ops"
    by (rule op_value_ok_mono[OF assms(9)]) (rule int_in_range_Init[of _ lo hi], simp_all add: B)
  then show ?thesis
    using roaring_api.IntIndex_run[OF assms(1), of F meta ops] B by (auto simp: fun_eq_iff)
qed

text \<open>Conversions that take a number's bit pattern as the number, for evaluation.\<close>

definition plain_fpu :: fpu where
  "plain_fpu = \<lparr>d2i = (\<lambda>x. x), d2f = ucast, i2d = (\<lambda>x. x), i2f = ucast, d_add = (+), d_sub = (-),
     d_mul = (*), d_div = (div), d_lt = (<s), d_eq = (=)\<rparr>"

definition int_meta :: FieldMeta where
  "int_meta = \<lparr>fm_name = ''age'', fm_index_type = INT_INDEX, fm_min = -2, fm_max = 5,
     fm_topk_limit = 0, fm_max_set_num = 0\<rparr>"

theorem int_index_run_witness:
  "\<exists>b. index_run (IntIndex_Get list_roaring) (IntIndex_Put list_roaring) (IntIndex_Remove list_roaring)
         [PutOp 1 3, PutOp 2 (-2), PutOp 1 5, DelOp 2] (bsi_Init list_roaring plain_fpu int_meta new_bsi) = Some b
       \<and> IntIndex_Get list_roaring 1 b = Some 5 \<and> IntIndex_Get list_roaring 2 b = None"
proof -
  let ?ops = "[PutOp 1 3, PutOp 2 (-2), PutOp 1 5, DelOp 2]"
  have "\<exists>b. index_run (IntIndex_Get list_roaring) (IntIndex_Put list_roaring) (IntIndex_Remove list_roaring)
         ?ops (bsi_Init list_roaring plain_fpu int_meta new_bsi) = Some b
       \<and> (\<forall>x. IntIndex_Get list_roaring x b = fold spec_op ?ops Map.empty x)"
    by (rule int_index_run[OF lr.roaring_api_axioms, where lo = "-2" and hi = 5])
      (simp_all add: int_meta_def plain_fpu_def)
  then show ?thesis by (elim exE conjE) (rule exI, rule conjI, assumption, simp)
qed

text \<open>
  C2. The same for a float field, for floats between the bounds other than NaN and
  the negative zero.
\<close>

theorem float_index_run:
  assumes "roaring_api R"
    and "fm_index_type meta = FLOAT_INDEX" and "ucast (fm_topk_limit meta) = (0 :: u32)"
    and "lo = d2f F (fm_min meta)" and "hi = d2f F (fm_max meta)"
    and "\<not> (float_eq 0 lo \<and> float_eq 0 hi)"
    and "\<not> float_is_nan lo" and "\<not> float_is_nan hi" and "\<not> float_lt hi lo"
    and "list_all (op_value_ok (\<lambda>v. \<not> float_is_nan v \<and> v \<noteq> 0x80000000
           \<and> \<not> float_lt v lo \<and> \<not> float_lt hi v)) ops"
  shows "\<exists>b. index_run (FloatIndex_Get R) (\<lambda>x v b. map_option fst (FloatIndex_Put R x v b))
            (FloatIndex_Remove R) ops (bsi_Init R F meta new_bsi) = Some b
         \<and> (\<forall>x. FloatIndex_Get R x b = fold spec_op ops Map.empty x)"
proof -
  note B = float_Init[OF refl assms(2-9)]
  have "list_all (op_value_ok (float_in_range (bsi_Init R F meta new_bsi))) ops"
    by (rule op_value_ok_mono[OF assms(10)])
      (rule float_in_range_Init[of _ lo hi], simp_all add: B assms(7,8))
  then show ?thesis
    using roaring_api.FloatIndex_run[OF assms(1), of F meta ops] B by (auto simp: fun_eq_iff)
qed

definition float_meta :: FieldMeta where
  "float_meta = \<lparr>fm_name = ''price'', fm_index_type = FLOAT_INDEX, fm_min = 0xBF800000, fm_max = 0x40000000,
     fm_topk_limit = 0, fm_max_set_num = 0\<rparr>"

lemma float_meta_facts:
  "float_is_nan 0xBF800000 = False" "float_is_nan 0x40000000 = False" "float_is_nan 0x3F800000 = False"
  "float_num 0xBF800000 = - (2 ^ 149)" "float_num 0x40000000 = 2 ^ 150" "float_num 0x3F800000 = 2 ^ 149"
  "float_num 0 = 0"
  by (simp_all add: float_is_nan_def float_num_def float_magnitude_def float_sign_def magnitude_num_def)

theorem float_index_run_witness:
  "\<exists>b. index_run (FloatIndex_Get list_roaring) (\<lambda>x v b. map_option fst (FloatIndex_Put list_roaring x v b))
         (FloatIndex_Remove list_roaring) [PutOp 7 0x3F800000, PutOp 8 0xBF800000, DelOp 8]
         (bsi_Init list_roaring plain_fpu float_meta new_bsi) = Some b
       \<and> FloatIndex_Get list_roaring 7 b = Some 0x3F800000 \<and> FloatIndex_Get list_roaring 8 b = None"
proof -
  let ?ops = "[PutOp 7 0x3F800000, PutOp 8 0xBF800000, DelOp 8]"
  have "\<exists>b. index_run (FloatIndex_Get list_roaring) (\<lambda>x v b. map_option fst (FloatIndex_Put list_roaring x v b))
         (FloatIndex_Remove list_roaring) ?ops (bsi_Init list_roaring plain_fpu float_meta new_bsi) = Some b
       \<and> (\<forall>x. FloatIndex_Get list_roaring x b = fold spec_op ?ops Map.empty x)"
    by (rule float_index_run[OF lr.roaring_api_axioms, where lo = "0xBF800000" and hi = "0x40000000"])
      (simp_all add: float_meta_def plain_fpu_def float_meta_facts float_lt_def float_eq_def)
  then show ?thesis by (elim exE conjE) (rule exI, rule conjI, assumption, simp)
qed


definition sample_int_bsi :: "u32 list bsi" where
  "sample_int_bsi = sample_bsi\<lparr>options := SetMinMax_int (-4) 3 new_options\<rparr>"

lemma sample_int_bsi_simps:
  "bit_depth sample_int_bsi = 3" "min_int (options sample_int_bsi) = -4"
  "bsi_ids list_roaring sample_int_bsi = {1, 2, 3}"
  "int_fits sample_int_bsi"
  "int_val list_roaring sample_int_bsi 1 = 1"
  "int_val list_roaring sample_int_bsi 2 = -2"
  "int_val list_roaring sample_int_bsi 3 = 3"
proof -
  show "bit_depth sample_int_bsi = 3" "min_int (options sample_int_bsi) = -4" 
    "bsi_ids list_roaring sample_int_bsi = {1, 2, 3}"
    by (simp_all add: sample_int_bsi_def sample_bsi_def SetMinMax_int_def Let_def bsi_ids_def
        exist_row_def bsi_row_def rbm_def)
  then show fits: "int_fits sample_int_bsi" by (simp add: int_fits_def)
  have "bsi_val list_roaring sample_int_bsi x = bsi_val list_roaring sample_bsi x" for x
    by (simp add: bsi_val_def sample_int_bsi_def bsi_slice_def bsi_row_def)
  then show "int_val list_roaring sample_int_bsi 1 = 1"
    "int_val list_roaring sample_int_bsi 2 = -2" "int_val list_roaring sample_int_bsi 3 = 3"
    using \<open>min_int (options sample_int_bsi) = -4\<close> by (simp_all add: int_val_eq[OF fits] sample_bsi_simps)
qed



definition sample_float_bsi :: "u32 list bsi" where
  "sample_float_bsi = sample_bsi\<lparr>options := SetMinMax_float 0x3F800000 0x3F800007 new_options\<rparr>"

lemma sample_float_bsi_simps:
  "bit_depth sample_float_bsi = 3" "opt_min (options sample_float_bsi) = 0xBF800000"
  "bsi_ids list_roaring sample_float_bsi = {1, 2, 3}"
  "float_val list_roaring sample_float_bsi 1 = 0x3F800005"
  "float_val list_roaring sample_float_bsi 2 = 0x3F800002"
  "float_val list_roaring sample_float_bsi 3 = 0x3F800007"
proof -
  have "float_ge_0 0x3F800000" "\<not> float_eq 0 0x3F800000"
    by (simp_all add: float_ge_0_def float_eq_def float_is_nan_def float_magnitude_def float_num_def
        float_sign_def magnitude_num_def)
  then show o: "bit_depth sample_float_bsi = 3" "opt_min (options sample_float_bsi) = 0xBF800000"
    "bsi_ids list_roaring sample_float_bsi = {1, 2, 3}"
    by (simp_all add: sample_float_bsi_def sample_bsi_def SetMinMax_float_def Let_def bsi_ids_def
        exist_row_def bsi_row_def rbm_def float_to_uint32_def)
  have "bsi_val list_roaring sample_float_bsi x = bsi_val list_roaring sample_bsi x" for x
    by (simp add: bsi_val_def sample_float_bsi_def bsi_slice_def bsi_row_def)
  then show "float_val list_roaring sample_float_bsi 1 = 0x3F800005"
    "float_val list_roaring sample_float_bsi 2 = 0x3F800002"
    "float_val list_roaring sample_float_bsi 3 = 0x3F800007"
    by (simp_all add: float_val_def GetActualFloatVal_def o sample_bsi_simps uint32_to_float_def)
qed

lemma sample_float_stored:
  "float_stored list_roaring sample_float_bsi"
  "unat (ToLocalVal_float (options sample_float_bsi) 0x3F800002) = 2"
  "unat (ToLocalVal_float (options sample_float_bsi) 0x3F800006) = 6"
proof -
  have val: "bsi_val list_roaring sample_float_bsi x = bsi_val list_roaring sample_bsi x" for x
    by (simp add: bsi_val_def sample_float_bsi_def bsi_slice_def bsi_row_def)
  show "float_stored list_roaring sample_float_bsi"
    by (simp add: float_stored_def sample_float_bsi_simps val sample_bsi_simps ToLocalVal_float_def
        float_to_uint32_def float_ge_0_def float_is_nan_def float_magnitude_def float_num_def float_sign_def)
  show "unat (ToLocalVal_float (options sample_float_bsi) 0x3F800002) = 2"
    "unat (ToLocalVal_float (options sample_float_bsi) 0x3F800006) = 6"
    by (simp_all add: sample_float_bsi_simps ToLocalVal_float_def
        float_to_uint32_def float_ge_0_def float_is_nan_def float_magnitude_def float_num_def float_sign_def)
qed


end
