(* ===== verification/RobimsBsiIO.thy ===== *)
theory RobimsBsiIO
  imports RobimsBsiNum
begin

text \<open>
  \<^verbatim>\<open>BitSliceIndex::Save\<close> and \<^verbatim>\<open>BitSliceIndex::Load\<close>. \<^verbatim>\<open>Load\<close> appends one empty entry per bitmap it
  reads but loads into the entries from index 0 on; an index that was initialised before keeps null
  entries at its end.
\<close>

definition bsi_Save :: "'b roaring \<Rightarrow> bool \<Rightarrow> 'b bsi \<Rightarrow> ofile \<Rightarrow> wr" where
  "bsi_Save R readonly b f =
     and_then (file_write_uint32 (of_nat (length (bitmaps b))) f)
       (save_each (RoaringBitmap_Save R readonly) (bitmaps b))"

fun bsi_load_step :: "'b roaring \<Rightarrow> nat \<times> 'b bsi \<Rightarrow> byte list \<Rightarrow> (nat \<times> 'b bsi) rd" where
  "bsi_load_step R (i, b) bs =
     (let ps = bitmaps b @ [new_RoaringBitmap]
      in rd_bind (RoaringBitmap_Load R (ps ! i) bs) (\<lambda>p. Rd (Suc i, b\<lparr>bitmaps := ps[i := p]\<rparr>)))"

definition bsi_Load :: "'b roaring \<Rightarrow> 'b bsi \<Rightarrow> byte list \<Rightarrow> 'b bsi rd" where
  "bsi_Load R b bs =
     rd_bind (file_read_uint32 bs) (\<lambda>n bs.
     rd_bind (rd_iter (unat n) (bsi_load_step R) (0, b) bs) (\<lambda>s. Rd (snd s)))"

definition bsi_savable :: "'b roaring \<Rightarrow> bool \<Rightarrow> 'b bsi \<Rightarrow> bool" where
  "bsi_savable R readonly b \<longleftrightarrow> length (bitmaps b) < 2 ^ 32 \<and> (\<forall>p \<in> set (bitmaps b). rbm_savable R readonly p)"

section \<open>Loading what was saved\<close>

fun bsi_load_ins :: "'b RoaringBitmap \<Rightarrow> nat \<times> 'b bsi \<Rightarrow> nat \<times> 'b bsi" where
  "bsi_load_ins p (i, b) = (Suc i, b\<lparr>bitmaps := (bitmaps b @ [new_RoaringBitmap])[i := p]\<rparr>)"

lemma RoaringBitmap_Load_any: "RoaringBitmap_Load R (p :: 'b RoaringBitmap) = RoaringBitmap_Load R q"
proof (rule ext)
  have upd: "p\<lparr>rbp := x, rb_readonly := r\<rparr> = q\<lparr>rbp := x, rb_readonly := r\<rparr>" for x r
    by (cases p; cases q) simp
  show "RoaringBitmap_Load R p bs = RoaringBitmap_Load R q bs" for bs
    unfolding RoaringBitmap_Load_def upd ..
qed

lemma bsi_load_step_ins:
  assumes "RoaringBitmap_Load R new_RoaringBitmap bs = Rd y cs"
  shows "bsi_load_step R s bs = Rd (bsi_load_ins y s) cs"
proof (cases s)
  case (Pair i b)
  show ?thesis
    using assms RoaringBitmap_Load_any[of R "(bitmaps b @ [new_RoaringBitmap]) ! i" new_RoaringBitmap]
    by (simp add: Pair Let_def)
qed

lemma fold_bsi_load_ins:
  assumes "i \<le> length (bitmaps b)"
  shows "fold bsi_load_ins ys (i, b)
    = (i + length ys, b\<lparr>bitmaps := take i (bitmaps b) @ ys
         @ drop (i + length ys) (bitmaps b @ replicate (length ys) new_RoaringBitmap)\<rparr>)"
  using assms
proof (induction ys arbitrary: i b)
  case Nil
  then show ?case by simp
next
  case (Cons y ys)
  let ?ps = "(bitmaps b @ [new_RoaringBitmap])[i := y]"
  have "take (Suc i) ?ps = take i (bitmaps b) @ [y]"
    using Cons.prems by (simp add: take_Suc_conv_app_nth nth_append)
  moreover have "drop (Suc i + length ys) (?ps @ replicate (length ys) new_RoaringBitmap)
      = drop (Suc i + length ys) (bitmaps b @ replicate (Suc (length ys)) new_RoaringBitmap)"
  proof -
    have "?ps @ replicate (length ys) new_RoaringBitmap
        = (bitmaps b @ replicate (Suc (length ys)) new_RoaringBitmap)[i := y]"
      using Cons.prems by (simp add: list_update_append)
    then show ?thesis by simp
  qed
  ultimately show ?case using Cons by simp
qed

context roaring_api
begin

lemma bsi_Save_Load_list:
  assumes "bsi_Save R readonly b f = Wr 0 f'" and "bsi_savable R readonly b"
  shows "\<exists>bs. wrote bs f f' \<and> (\<forall>cs. \<exists>ys. list_all2 (rbm_same R readonly) (bitmaps b) ys
     \<and> bsi_Load R b0 (bs @ cs) = Rd (b0\<lparr>bitmaps := ys
         @ drop (length ys) (bitmaps b0 @ replicate (length ys) new_RoaringBitmap)\<rparr>) cs)"
proof -
  have "\<exists>bs. wrote bs f f' \<and> (\<forall>cs s. \<exists>ys. list_all2 (rbm_same R readonly) (bitmaps b) ys
     \<and> rd_bind (file_read_uint32 (bs @ cs)) (\<lambda>n. rd_iter (unat n) (bsi_load_step R) s)
         = Rd (fold bsi_load_ins ys s) cs)"
    using assms unfolding bsi_Save_def bsi_savable_def
    by (intro bitmap_codec.save_count_load bsi_load_step_ins) auto
  then obtain bs where bs: "wrote bs f f'" "\<And>cs. \<exists>ys. list_all2 (rbm_same R readonly) (bitmaps b) ys
     \<and> rd_bind (file_read_uint32 (bs @ cs)) (\<lambda>n. rd_iter (unat n) (bsi_load_step R) (0, b0))
         = Rd (fold bsi_load_ins ys (0, b0)) cs" by blast
  have "\<exists>ys. list_all2 (rbm_same R readonly) (bitmaps b) ys
     \<and> bsi_Load R b0 (bs @ cs) = Rd (b0\<lparr>bitmaps := ys
         @ drop (length ys) (bitmaps b0 @ replicate (length ys) new_RoaringBitmap)\<rparr>) cs" for cs
  proof -
    obtain ys where ys: "list_all2 (rbm_same R readonly) (bitmaps b) ys"
      "rd_bind (file_read_uint32 (bs @ cs)) (\<lambda>n. rd_iter (unat n) (bsi_load_step R) (0, b0))
         = Rd (fold bsi_load_ins ys (0, b0)) cs" using bs(2) by blast
    have "bsi_Load R b0 (bs @ cs) = rd_bind (rd_bind (file_read_uint32 (bs @ cs))
        (\<lambda>n. rd_iter (unat n) (bsi_load_step R) (0, b0))) (\<lambda>s. Rd (snd s))"
      by (simp add: bsi_Load_def rd_bind_assoc)
    with ys show ?thesis by (intro exI[of _ ys]) (simp add: fold_bsi_load_ins)
  qed
  with bs(1) show ?thesis by blast
qed

text \<open>The entries that count hold the same identifiers.\<close>

lemma same_rows:
  assumes "list_all2 (rbm_same R readonly) (bitmaps b) ys" and "bsi_wf b"
    and c: "c = b0\<lparr>bitmaps := ys @ zs\<rparr>" and "bit_depth b0 = bit_depth b"
  shows "bsi_wf c" and "bsi_ids R c = bsi_ids R b" and "bsi_val R c x = bsi_val R b x"
proof -
  have len: "length ys = length (bitmaps b)" using assms(1) by (simp add: list_all2_lengthD)
  have row: "rbm_same R readonly (bitmaps b ! k) (bitmaps c ! k)" if "k \<le> bit_depth b" for k
    using assms(1,2) that len by (auto simp: c nth_append bsi_wf_def list_all2_conv_all_nth)
  then have bits: "rb_bits R (bsi_row c k) = rb_bits R (bsi_row b k)" if "k \<le> bit_depth b" for k
    using that by (simp add: bsi_row_def rbm_same_def)
  show "bsi_wf c" using assms(2,4) row len by (auto simp: bsi_wf_def rbm_same_def c)
  show "bsi_ids R c = bsi_ids R b" by (simp add: bsi_ids_def exist_row_def bits)
  show "bsi_val R c x = bsi_val R b x"
    by (rule bsi_val_cong) (simp_all add: assms(4) c bsi_slice_def bits[unfolded c])
qed

end

section \<open>Properties\<close>

text \<open>
  C9. When a well-formed index has been saved without an error, loading the bytes that
  were written into an index with the same options and depth succeeds, consumes exactly these bytes
  and gives a well-formed index with the same identifiers and values.
\<close>

theorem bsi_save_load:
  assumes "roaring_api R" and "bsi_wf b" and "bsi_savable R readonly b"
    and "bsi_Save R readonly b f = Wr 0 f'"
    and "options b0 = options b" and "bit_depth b0 = bit_depth b"
  shows "\<exists>bs. o_data f' = o_data f @ bs \<and> (\<forall>cs. \<exists>c. bsi_Load R b0 (bs @ cs) = Rd c cs
    \<and> bsi_wf c \<and> options c = options b \<and> bsi_ids R c = bsi_ids R b \<and> bsi_val R c = bsi_val R b)"
proof -
  obtain bs where bs: "wrote bs f f'" "\<And>cs. \<exists>ys. list_all2 (rbm_same R readonly) (bitmaps b) ys
     \<and> bsi_Load R b0 (bs @ cs) = Rd (b0\<lparr>bitmaps := ys
         @ drop (length ys) (bitmaps b0 @ replicate (length ys) new_RoaringBitmap)\<rparr>) cs"
    using roaring_api.bsi_Save_Load_list[OF assms(1,4,3), of b0] by blast
  have "\<exists>c. bsi_Load R b0 (bs @ cs) = Rd c cs \<and> bsi_wf c \<and> options c = options b
    \<and> bsi_ids R c = bsi_ids R b \<and> bsi_val R c = bsi_val R b" for cs
  proof -
    obtain ys where ys: "list_all2 (rbm_same R readonly) (bitmaps b) ys"
      "bsi_Load R b0 (bs @ cs) = Rd (b0\<lparr>bitmaps := ys
         @ drop (length ys) (bitmaps b0 @ replicate (length ys) new_RoaringBitmap)\<rparr>) cs"
      using bs(2) by blast
    note same = roaring_api.same_rows[OF assms(1) ys(1) assms(2) refl assms(6)]
    show ?thesis using ys(2) same assms(5) by (simp add: fun_eq_iff)
  qed
  with bs(1) show ?thesis by (auto simp: wrote_def)
qed

definition empty_file :: ofile where
  "empty_file = \<lparr>o_data = [], o_space = 1000\<rparr>"

lemma sample_bsi_saved:
  "(case bsi_Save list_roaring False sample_bsi empty_file of Wr rc f \<Rightarrow> rc = 0 | WrUndef \<Rightarrow> False)"
  by code_simp

lemma sample_bsi_ok: "bsi_wf sample_bsi" "bsi_savable list_roaring False sample_bsi"
proof -
  show "bsi_wf sample_bsi" by (auto simp: bsi_wf_def sample_bsi_def numeral_eq_Suc le_Suc_eq)
  show "bsi_savable list_roaring False sample_bsi"
    by (simp add: bsi_savable_def sample_bsi_def rbm_savable_def rbm_def list_bits_encode_def)
qed

theorem bsi_save_load_witness:
  "\<exists>f bs c. bsi_Save list_roaring False sample_bsi empty_file = Wr 0 f \<and> o_data f = bs
     \<and> bsi_Load list_roaring (sample_bsi\<lparr>bitmaps := []\<rparr>) bs = Rd c []
     \<and> bsi_ids list_roaring c = {1, 2, 3} \<and> bsi_val list_roaring c 1 = 5"
proof -
  obtain f where f: "bsi_Save list_roaring False sample_bsi empty_file = Wr 0 f"
    using sample_bsi_saved by (auto split: wr.splits)
  have "\<exists>bs. o_data f = o_data empty_file @ bs
      \<and> (\<forall>cs. \<exists>c. bsi_Load list_roaring (sample_bsi\<lparr>bitmaps := []\<rparr>) (bs @ cs) = Rd c cs
        \<and> bsi_wf c \<and> options c = options sample_bsi \<and> bsi_ids list_roaring c = bsi_ids list_roaring sample_bsi
        \<and> bsi_val list_roaring c = bsi_val list_roaring sample_bsi)"
    by (rule bsi_save_load[OF lr.roaring_api_axioms sample_bsi_ok f]) simp_all
  then obtain bs where bs: "o_data f = o_data empty_file @ bs"
    and load: "\<And>cs. \<exists>c. bsi_Load list_roaring (sample_bsi\<lparr>bitmaps := []\<rparr>) (bs @ cs) = Rd c cs
        \<and> bsi_wf c \<and> options c = options sample_bsi \<and> bsi_ids list_roaring c = bsi_ids list_roaring sample_bsi
        \<and> bsi_val list_roaring c = bsi_val list_roaring sample_bsi" by blast
  from load[of "[]"] obtain c where "bsi_Load list_roaring (sample_bsi\<lparr>bitmaps := []\<rparr>) bs = Rd c []"
    "bsi_ids list_roaring c = {1, 2, 3}" "bsi_val list_roaring c 1 = 5" by (auto simp: sample_bsi_simps)
  with f bs show ?thesis unfolding empty_file_def by simp
qed

lemma load_step_last:
  assumes "bsi_load_step R (i, b) bs = Rd (j, b') cs" and "i < length (bitmaps b)"
  shows "last (bitmaps b') = new_RoaringBitmap \<and> j < length (bitmaps b')"
  using assms by (auto simp: Let_def rd_bind_Rd list_update_append)

lemma load_iter_last:
  "rd_iter (Suc n) (bsi_load_step R) (i, b) bs = Rd (j, b') cs \<Longrightarrow> i < length (bitmaps b) \<Longrightarrow>
     last (bitmaps b') = new_RoaringBitmap \<and> bitmaps b' \<noteq> []"
proof (induction n arbitrary: i b bs)
  case 0
  then obtain i1 b1 ds where "bsi_load_step R (i, b) bs = Rd (i1, b1) ds" "b1 = b'"
    by (auto simp: rd_bind_Rd simp del: bsi_load_step.simps)
  then show ?case using load_step_last[of R i b bs i1 b1] 0 by auto
next
  case (Suc n)
  then obtain i1 b1 ds where 1: "bsi_load_step R (i, b) bs = Rd (i1, b1) ds"
    "rd_iter (Suc n) (bsi_load_step R) (i1, b1) ds = Rd (j, b') cs"
    by (auto simp: rd_bind_Rd simp del: bsi_load_step.simps)
  then show ?case using load_step_last[OF 1(1)] Suc.IH[OF 1(2)] Suc.prems(2) by blast
qed

lemma save_each_null:
  "save_each (RoaringBitmap_Save R readonly) ps f = Wr 0 f' \<Longrightarrow> new_RoaringBitmap \<notin> set ps"
  by (induction ps arbitrary: f)
    (auto simp: and_then_0 RoaringBitmap_Save_def new_RoaringBitmap_def)

text \<open>
  An index that was loaded into an initialised one can not be saved again: for
  whatever file, the second save does not return 0, because its list of bitmaps ends with an entry
  whose bitmap pointer is null.
\<close>

theorem bsi_reload_save:
  assumes "bsi_Load R b0 (mem32 (htonl n) @ bs) = Rd c cs" and "n \<noteq> 0" and "bitmaps b0 \<noteq> []"
  shows "\<forall>f f'. bsi_Save R readonly c f \<noteq> Wr 0 f'"
proof -
  obtain m where m: "unat n = Suc m" using assms(2) by (cases "unat n") (simp_all add: unat_eq_zero)
  obtain i where "rd_iter (Suc m) (bsi_load_step R) (0, b0) bs = Rd (i, c) cs"
    using assms(1) m by (auto simp: bsi_Load_def rd_bind_Rd simp del: rd_iter.simps bsi_load_step.simps)
  from load_iter_last[OF this] assms(3) have "new_RoaringBitmap \<in> set (bitmaps c)"
    by (metis last_in_set length_greater_0_conv)
  then show ?thesis using save_each_null[of R readonly "bitmaps c"] by (auto simp: bsi_Save_def and_then_0)
qed

theorem bsi_reload_save_witness:
  "\<exists>c. bsi_Load list_roaring sample_bsi (mem32 (htonl 1) @ mem32 (htonl 1) @ [0, 0]) = Rd c []
     \<and> (\<forall>f f'. bsi_Save list_roaring True c f \<noteq> Wr 0 f')"
proof -
  have "\<exists>c. bsi_Load list_roaring sample_bsi (mem32 (htonl 1) @ mem32 (htonl 1) @ [0, 0]) = Rd c []"
    by (simp add: bsi_Load_def RoaringBitmap_Load_def Let_def fread_def)
  then show ?thesis using bsi_reload_save[of list_roaring sample_bsi 1] by (force simp: sample_bsi_def)
qed

end
