(* ===== verification/RobimsField.thy ===== *)
theory RobimsField
  imports RobimsBsiIO
begin

text \<open>
  The fields of a table: \<^verbatim>\<open>robims/robims_field.cpp\<close> and the four files of its subclasses. A field is
  its meta data and, by class, its index. A virtual method is a function with one case per class; the
  methods a class does not override return \<^verbatim>\<open>ROBIMS_ERR_UNIMPLEMENTED\<close>. The bitmap of the table,
  which some selections use, is an argument. \<open>None\<close> as the result of an update means that the bit-sliced
  index has undefined behaviour.
\<close>

section \<open>Data\<close>

record 'b NamedRoaringBitmap =
  nb_name :: string
  nb_bitmap :: "'b RoaringBitmap"

record 'b NamedWeightRoaringBitmap =
  nw_name :: string
  nw_weight_ids :: "u64 list"  \<comment> \<open>an ordered set, greatest first\<close>
  nw_id_weights :: "(u32 \<times> u32) list"  \<comment> \<open>identifier and \<^verbatim>\<open>float\<close> weight\<close>
  nw_bitmap :: "'b RoaringBitmap"

datatype 'b field_index =
    SetField "(string \<times> 'b NamedRoaringBitmap) list"
  | BoolField "'b RoaringBitmap"
  | WeightSetField "(string \<times> 'b NamedWeightRoaringBitmap) list"
  | IntField "'b bsi"
  | FloatField "'b bsi"

record 'b RobimsField =
  f_meta :: FieldMeta
  f_index :: "'b field_index"

section \<open>Ordered sets of 64-bit integers, greatest first\<close>

fun desc_insert :: "u64 \<Rightarrow> u64 list \<Rightarrow> u64 list" where
  "desc_insert x [] = [x]"
| "desc_insert x (y # ys) = (if y < x then x # y # ys else if x = y then y # ys else y # desc_insert x ys)"

definition desc_erase :: "u64 \<Rightarrow> u64 list \<Rightarrow> u64 list" where
  "desc_erase x ys = removeAll x ys"

section \<open>Bool fields\<close>

definition BoolField_Put :: "'b roaring \<Rightarrow> u32 \<Rightarrow> i64 \<Rightarrow> 'b RoaringBitmap \<Rightarrow> 'b RoaringBitmap" where
  "BoolField_Put R idx val p =
     (let p1 = snd (RoaringBitmap_Remove R idx p)
      in if val = 1 then snd (RoaringBitmap_Put R idx p1) else p1)"

definition BoolField_Remove :: "'b roaring \<Rightarrow> u32 \<Rightarrow> 'b RoaringBitmap \<Rightarrow> 'b RoaringBitmap" where
  "BoolField_Remove R idx p = snd (RoaringBitmap_Remove R idx p)"

text \<open>
  The result of a selection is the return code and the bitmap put into the output pointer, \<open>None\<close> when
  the pointer is not set.
\<close>

definition BoolField_Select ::
    "'b roaring \<Rightarrow> 'b \<Rightarrow> 'b RoaringBitmap \<Rightarrow> FieldOperator \<Rightarrow> FieldArg \<Rightarrow> int \<times> 'b option" where
  "BoolField_Select R tab p op arg =
     (let out = rb_create R;
          self = rb_overwrite R out (rbm p);
          others = rb_andnot R (rb_overwrite R out tab) (rbm p)
      in if op = FIELD_OP_ALL then (0, Some (rb_overwrite R out tab))
         else if op = FIELD_OP_EQ \<or> op = FIELD_OP_NEQ
         then (case arg of
                 ArgInt iv \<Rightarrow>
                   (0, Some (if op = FIELD_OP_EQ then (if iv = 0 then others else self)
                             else (if iv = 0 then self else others)))
               | _ \<Rightarrow> (ROBIMS_ERR_INVALID_ARGS, None))
         else (ROBIMS_ERR_INVALID_OPERATOR, None))"

section \<open>Set fields\<close>

definition SetField_Put :: "'b roaring \<Rightarrow> u32 \<Rightarrow> string
    \<Rightarrow> (string \<times> 'b NamedRoaringBitmap) list \<Rightarrow> (string \<times> 'b NamedRoaringBitmap) list" where
  "SetField_Put R idx val m =
     (let nb = (case map_of m val of
                  None \<Rightarrow> \<lparr>nb_name = val, nb_bitmap = NewCRoaringBitmap R new_RoaringBitmap\<rparr>
                | Some nb \<Rightarrow> nb)
      in al_put val
           (nb\<lparr>nb_bitmap := (nb_bitmap nb)\<lparr>rbp := Some (rb_add R (rbm (nb_bitmap nb)) idx)\<rparr>\<rparr>) m)"

definition SetField_Remove :: "'b roaring \<Rightarrow> u32
    \<Rightarrow> (string \<times> 'b NamedRoaringBitmap) list \<Rightarrow> (string \<times> 'b NamedRoaringBitmap) list" where
  "SetField_Remove R idx m =
     map (\<lambda>(k, nb). (k, nb\<lparr>nb_bitmap := snd (RoaringBitmap_Remove R idx (nb_bitmap nb))\<rparr>)) m"

definition SetField_Select :: "'b roaring \<Rightarrow> 'b \<Rightarrow> (string \<times> 'b NamedRoaringBitmap) list
    \<Rightarrow> FieldOperator \<Rightarrow> FieldArg \<Rightarrow> int \<times> 'b option" where
  "SetField_Select R tab m op arg =
     (if op = FIELD_OP_ALL then (0, Some (rb_overwrite R (rb_create R) tab))
      else if op = FIELD_OP_EQ \<or> op = FIELD_OP_NEQ
      then (case arg of
              ArgStr str \<Rightarrow>
                (case map_of m str of
                   None \<Rightarrow> (ROBIMS_ERR_NOTFOUND, None)
                 | Some nb \<Rightarrow>
                     if op = FIELD_OP_EQ then (0, Some (rb_overwrite R (rb_create R) (rbm (nb_bitmap nb))))
                     else (0, Some (rb_andnot R (rb_overwrite R (rb_create R) tab) (rbm (nb_bitmap nb)))))
            | _ \<Rightarrow> (ROBIMS_ERR_INVALID_ARGS, None))
      else (ROBIMS_ERR_INVALID_OPERATOR, None))"

section \<open>Weight set fields\<close>

text \<open>An element of the ordered set: the encoded weight in the upper and the identifier in the lower half.\<close>

definition weight_id :: "u32 \<Rightarrow> u32 \<Rightarrow> u64" where
  "weight_id weight idx = push_bit 32 (ucast (float_to_uint32 weight)) + ucast idx"

definition new_NamedWeight :: "'b roaring \<Rightarrow> string \<Rightarrow> 'b NamedWeightRoaringBitmap" where
  "new_NamedWeight R val =
     \<lparr>nw_name = val, nw_weight_ids = [], nw_id_weights = [],
      nw_bitmap = NewCRoaringBitmap R new_RoaringBitmap\<rparr>"

definition weight_put :: "'b roaring \<Rightarrow> i64 \<Rightarrow> u32 \<Rightarrow> u32
    \<Rightarrow> 'b NamedWeightRoaringBitmap \<Rightarrow> 'b NamedWeightRoaringBitmap" where
  "weight_put R topk_limit idx weight nw =
     (let wids = (case map_of (nw_id_weights nw) idx of
                    Some old \<Rightarrow> (if \<not> float_eq weight old
                                 then desc_erase (weight_id old idx) (nw_weight_ids nw)
                                 else nw_weight_ids nw)
                  | None \<Rightarrow> nw_weight_ids nw);
          nw1 = nw\<lparr>nw_id_weights := al_put idx weight (nw_id_weights nw),
                   nw_weight_ids := desc_insert (weight_id weight idx) wids,
                   nw_bitmap := snd (RoaringBitmap_Put R idx (nw_bitmap nw))\<rparr>
      in if 0 <s topk_limit \<and> topk_limit < of_nat (length (nw_id_weights nw1))
         then (let min_weight_id = last (nw_weight_ids nw1)
               in nw1\<lparr>nw_id_weights := al_erase (ucast min_weight_id) (nw_id_weights nw1),
                      nw_weight_ids := desc_erase min_weight_id (nw_weight_ids nw1)\<rparr>)
         else nw1)"

definition WeightSetField_Put :: "'b roaring \<Rightarrow> i64 \<Rightarrow> u32 \<Rightarrow> string \<Rightarrow> u32
    \<Rightarrow> (string \<times> 'b NamedWeightRoaringBitmap) list \<Rightarrow> (string \<times> 'b NamedWeightRoaringBitmap) list" where
  "WeightSetField_Put R topk_limit idx val weight m =
     (let nw = (case map_of m val of None \<Rightarrow> new_NamedWeight R val | Some nw \<Rightarrow> nw)
      in al_put val (weight_put R topk_limit idx weight nw) m)"

definition weight_remove :: "'b roaring \<Rightarrow> u32 \<Rightarrow> u32
    \<Rightarrow> 'b NamedWeightRoaringBitmap \<Rightarrow> 'b NamedWeightRoaringBitmap" where
  "weight_remove R idx weight nw =
     nw\<lparr>nw_id_weights := al_erase idx (nw_id_weights nw),
        nw_weight_ids := desc_erase (weight_id weight idx) (nw_weight_ids nw),
        nw_bitmap := snd (RoaringBitmap_Remove R idx (nw_bitmap nw))\<rparr>"

text \<open>The loop over the tags returns at the first tag that does not know the identifier.\<close>

fun WeightSetField_Remove :: "'b roaring \<Rightarrow> u32
    \<Rightarrow> (string \<times> 'b NamedWeightRoaringBitmap) list \<Rightarrow> int \<times> (string \<times> 'b NamedWeightRoaringBitmap) list" where
  "WeightSetField_Remove R idx [] = (0, [])"
| "WeightSetField_Remove R idx ((k, nw) # m) =
     (case map_of (nw_id_weights nw) idx of
        None \<Rightarrow> (-1, (k, nw) # m)
      | Some weight \<Rightarrow>
          (case WeightSetField_Remove R idx m of
             (rc, m') \<Rightarrow> (rc, (k, weight_remove R idx weight nw) # m')))"

definition WeightSetField_Select :: "'b roaring \<Rightarrow> 'b \<Rightarrow> (string \<times> 'b NamedWeightRoaringBitmap) list
    \<Rightarrow> FieldOperator \<Rightarrow> FieldArg \<Rightarrow> int \<times> 'b option" where
  "WeightSetField_Select R tab m op arg =
     (if op = FIELD_OP_ALL then (0, Some (rb_overwrite R (rb_create R) tab))
      else if op = FIELD_OP_EQ \<or> op = FIELD_OP_NEQ
      then (case arg of
              ArgStr str \<Rightarrow>
                (case map_of m str of
                   None \<Rightarrow> (ROBIMS_ERR_NOTFOUND, None)
                 | Some nw \<Rightarrow>
                     if op = FIELD_OP_EQ then (0, Some (rb_overwrite R (rb_create R) (rbm (nw_bitmap nw))))
                     else (0, Some (rb_andnot R (rb_overwrite R (rb_create R) tab) (rbm (nw_bitmap nw)))))
            | _ \<Rightarrow> (ROBIMS_ERR_INVALID_ARGS, None))
      else (ROBIMS_ERR_INVALID_OPERATOR, None))"

section \<open>Integer and float fields\<close>

text \<open>
  \<^verbatim>\<open>Remove\<close> compares the \<^verbatim>\<open>bool\<close> result of \<^verbatim>\<open>Get\<close> with 0, so it goes on when the identifier was not
  found; the value it then passes on is the indeterminate value of an uninitialised variable, the
  argument \<open>garbage\<close>.
\<close>

definition IntField_Put :: "'b roaring \<Rightarrow> u32 \<Rightarrow> i64 \<Rightarrow> 'b bsi \<Rightarrow> 'b bsi option" where
  "IntField_Put R idx val b = IntIndex_Put R idx val b"

definition IntField_Remove :: "'b roaring \<Rightarrow> i64 \<Rightarrow> u32 \<Rightarrow> 'b bsi \<Rightarrow> 'b bsi" where
  "IntField_Remove R garbage idx b =
     (case IntIndex_Get R idx b of
        None \<Rightarrow> IntIndex_Remove R idx garbage b
      | Some val \<Rightarrow> b)"

definition IntField_Select :: "'b roaring \<Rightarrow> 'b bsi \<Rightarrow> FieldOperator \<Rightarrow> FieldArg \<Rightarrow> int \<times> 'b option" where
  "IntField_Select R b op arg =
     (case arg of
        ArgInt iv \<Rightarrow>
          (let out = rb_create R
           in case op of
                FIELD_OP_EQ \<Rightarrow> (0, Some (IntIndex_RangeEQ R b iv out))
              | FIELD_OP_NEQ \<Rightarrow> (0, Some (IntIndex_RangeNEQ R b iv out))
              | FIELD_OP_LT \<Rightarrow> (0, Some (IntIndex_RangeLT R b iv False out))
              | FIELD_OP_LTE \<Rightarrow> (0, Some (IntIndex_RangeLT R b iv True out))
              | FIELD_OP_GT \<Rightarrow> (0, Some (IntIndex_RangeGT R b iv False out))
              | FIELD_OP_GTE \<Rightarrow> (0, Some (IntIndex_RangeGT R b iv True out))
              | _ \<Rightarrow> (ROBIMS_ERR_INVALID_OPERATOR, Some out))
      | _ \<Rightarrow> (ROBIMS_ERR_INVALID_ARGS, None))"

definition FloatField_Put :: "'b roaring \<Rightarrow> u32 \<Rightarrow> u32 \<Rightarrow> 'b bsi \<Rightarrow> 'b bsi option" where
  "FloatField_Put R idx val b = map_option fst (FloatIndex_Put R idx val b)"

definition FloatField_Remove :: "'b roaring \<Rightarrow> u32 \<Rightarrow> u32 \<Rightarrow> 'b bsi \<Rightarrow> 'b bsi" where
  "FloatField_Remove R garbage idx b =
     (case FloatIndex_Get R idx b of
        None \<Rightarrow> FloatIndex_Remove R idx garbage b
      | Some val \<Rightarrow> b)"

definition float_select :: "'b roaring \<Rightarrow> 'b bsi \<Rightarrow> FieldOperator \<Rightarrow> u32 \<Rightarrow> int \<times> 'b option" where
  "float_select R b op fv =
     (let out = rb_create R
      in case op of
           FIELD_OP_EQ \<Rightarrow> (0, Some (FloatIndex_RangeEQ R b fv out))
         | FIELD_OP_NEQ \<Rightarrow> (0, Some (FloatIndex_RangeNEQ R b fv out))
         | FIELD_OP_LT \<Rightarrow> (0, Some (FloatIndex_RangeLT R b fv False out))
         | FIELD_OP_LTE \<Rightarrow> (0, Some (FloatIndex_RangeLT R b fv True out))
         | FIELD_OP_GT \<Rightarrow> (0, Some (FloatIndex_RangeGT R b fv False out))
         | FIELD_OP_GTE \<Rightarrow> (0, Some (FloatIndex_RangeGT R b fv True out))
         | _ \<Rightarrow> (ROBIMS_ERR_INVALID_OPERATOR, Some out))"

definition FloatField_Select ::
    "'b roaring \<Rightarrow> fpu \<Rightarrow> 'b bsi \<Rightarrow> FieldOperator \<Rightarrow> FieldArg \<Rightarrow> int \<times> 'b option" where
  "FloatField_Select R F b op arg =
     (case arg of
        ArgDouble dv \<Rightarrow> float_select R b op (d2f F dv)
      | ArgInt iv \<Rightarrow> float_select R b op (i2f F iv)
      | ArgStr _ \<Rightarrow> (ROBIMS_ERR_INVALID_ARGS, None))"

section \<open>The virtual methods\<close>

definition Field_Put_str :: "'b roaring \<Rightarrow> u32 \<Rightarrow> string \<Rightarrow> 'b RobimsField \<Rightarrow> int \<times> 'b RobimsField" where
  "Field_Put_str R idx val fld =
     (case f_index fld of
        SetField m \<Rightarrow> (0, fld\<lparr>f_index := SetField (SetField_Put R idx val m)\<rparr>)
      | _ \<Rightarrow> (ROBIMS_ERR_UNIMPLEMENTED, fld))"

definition Field_Put_int :: "'b roaring \<Rightarrow> u32 \<Rightarrow> i64 \<Rightarrow> 'b RobimsField \<Rightarrow> (int \<times> 'b RobimsField) option" where
  "Field_Put_int R idx val fld =
     (case f_index fld of
        BoolField p \<Rightarrow> Some (0, fld\<lparr>f_index := BoolField (BoolField_Put R idx val p)\<rparr>)
      | IntField b \<Rightarrow> map_option (\<lambda>b'. (0, fld\<lparr>f_index := IntField b'\<rparr>)) (IntField_Put R idx val b)
      | _ \<Rightarrow> Some (ROBIMS_ERR_UNIMPLEMENTED, fld))"

definition Field_Put_float :: "'b roaring \<Rightarrow> u32 \<Rightarrow> u32 \<Rightarrow> 'b RobimsField \<Rightarrow> (int \<times> 'b RobimsField) option" where
  "Field_Put_float R idx val fld =
     (case f_index fld of
        FloatField b \<Rightarrow> map_option (\<lambda>b'. (0, fld\<lparr>f_index := FloatField b'\<rparr>)) (FloatField_Put R idx val b)
      | _ \<Rightarrow> Some (ROBIMS_ERR_UNIMPLEMENTED, fld))"

text \<open>No class overrides the \<^verbatim>\<open>Put\<close> of an identifier alone.\<close>

definition Field_Put_id :: "u32 \<Rightarrow> 'b RobimsField \<Rightarrow> int \<times> 'b RobimsField" where
  "Field_Put_id idx fld = (ROBIMS_ERR_UNIMPLEMENTED, fld)"

definition Field_Put_weight ::
    "'b roaring \<Rightarrow> u32 \<Rightarrow> string \<Rightarrow> u32 \<Rightarrow> 'b RobimsField \<Rightarrow> int \<times> 'b RobimsField" where
  "Field_Put_weight R idx val weight fld =
     (case f_index fld of
        WeightSetField m \<Rightarrow>
          (0, fld\<lparr>f_index := WeightSetField (WeightSetField_Put R (fm_topk_limit (f_meta fld)) idx val weight m)\<rparr>)
      | _ \<Rightarrow> (ROBIMS_ERR_UNIMPLEMENTED, fld))"

definition Field_Remove ::
    "'b roaring \<Rightarrow> i64 \<Rightarrow> u32 \<Rightarrow> u32 \<Rightarrow> 'b RobimsField \<Rightarrow> int \<times> 'b RobimsField" where
  "Field_Remove R gi gf idx fld =
     (case f_index fld of
        SetField m \<Rightarrow> (0, fld\<lparr>f_index := SetField (SetField_Remove R idx m)\<rparr>)
      | BoolField p \<Rightarrow> (0, fld\<lparr>f_index := BoolField (BoolField_Remove R idx p)\<rparr>)
      | WeightSetField m \<Rightarrow>
          (case WeightSetField_Remove R idx m of (rc, m') \<Rightarrow> (rc, fld\<lparr>f_index := WeightSetField m'\<rparr>))
      | IntField b \<Rightarrow> (0, fld\<lparr>f_index := IntField (IntField_Remove R gi idx b)\<rparr>)
      | FloatField b \<Rightarrow> (0, fld\<lparr>f_index := FloatField (FloatField_Remove R gf idx b)\<rparr>))"

definition Field_Select :: "'b roaring \<Rightarrow> fpu \<Rightarrow> 'b \<Rightarrow> 'b RobimsField
    \<Rightarrow> FieldOperator \<Rightarrow> FieldArg \<Rightarrow> int \<times> 'b option" where
  "Field_Select R F tab fld op arg =
     (case f_index fld of
        SetField m \<Rightarrow> SetField_Select R tab m op arg
      | BoolField p \<Rightarrow> BoolField_Select R tab p op arg
      | WeightSetField m \<Rightarrow> WeightSetField_Select R tab m op arg
      | IntField b \<Rightarrow> IntField_Select R b op arg
      | FloatField b \<Rightarrow> FloatField_Select R F b op arg)"

section \<open>Construction\<close>

definition field_OnInit :: "'b roaring \<Rightarrow> fpu \<Rightarrow> FieldMeta \<Rightarrow> 'b field_index option" where
  "field_OnInit R F meta =
     (case fm_index_type meta of
        MUTEX_INDEX \<Rightarrow> Some (SetField [])
      | SET_INDEX \<Rightarrow> Some (SetField [])
      | BOOL_INDEX \<Rightarrow> Some (BoolField (NewCRoaringBitmap R new_RoaringBitmap))
      | WEIGHT_SET_INDEX \<Rightarrow> Some (WeightSetField [])
      | INT_INDEX \<Rightarrow> Some (IntField (bsi_Init R F meta new_bsi))
      | FLOAT_INDEX \<Rightarrow> Some (FloatField (bsi_Init R F meta new_bsi))
      | UNKNOWN_INDEX \<Rightarrow> None)"

text \<open>\<open>None\<close> is the null pointer.\<close>

definition FieldBuilder_Build :: "'b roaring \<Rightarrow> fpu \<Rightarrow> FieldMeta \<Rightarrow> 'b RobimsField option" where
  "FieldBuilder_Build R F meta =
     map_option (\<lambda>ix. \<lparr>f_meta = meta, f_index = ix\<rparr>) (field_OnInit R F meta)"

end
