(* ===== verification/TagIndex.thy ===== *)
theory TagIndex
  imports Prelude
begin

text \<open>
  The contract of an index from tags to sets of identifiers: putting an identifier under a tag adds
  it there and nowhere else, removing an identifier takes it from every tag. The lemmas extend the
  laws to sequences of operations.
\<close>

datatype tag_op = TagPut u32 string | TagRemove u32

text \<open>The specification: a relation between identifiers and tags.\<close>

fun spec_tag_op :: "tag_op \<Rightarrow> (u32 \<times> string) set \<Rightarrow> (u32 \<times> string) set" where
  "spec_tag_op (TagPut x t) r = insert (x, t) r"
| "spec_tag_op (TagRemove x) r = {p \<in> r. fst p \<noteq> x}"

fun tag_apply :: "(u32 \<Rightarrow> string \<Rightarrow> 's \<Rightarrow> 's) \<Rightarrow> (u32 \<Rightarrow> 's \<Rightarrow> 's) \<Rightarrow> tag_op \<Rightarrow> 's \<Rightarrow> 's" where
  "tag_apply put del (TagPut x t) s = put x t s"
| "tag_apply put del (TagRemove x) s = del x s"

locale tag_index =
  fixes tags :: "'s \<Rightarrow> string \<Rightarrow> u32 set"
    and put :: "u32 \<Rightarrow> string \<Rightarrow> 's \<Rightarrow> 's"
    and del :: "u32 \<Rightarrow> 's \<Rightarrow> 's"
  assumes tags_put: "tags (put x t s) u = (if u = t then insert x (tags s u) else tags s u)"
    and tags_del: "tags (del x s) u = tags s u - {x}"
begin

lemma tags_apply:
  "{(x, t). x \<in> tags (tag_apply put del p s) t} = spec_tag_op p {(x, t). x \<in> tags s t}"
  by (cases p) (auto simp: tags_put tags_del split: if_splits)

lemma tags_run:
  "{(x, t). x \<in> tags (fold (tag_apply put del) ps s) t} = fold spec_tag_op ps {(x, t). x \<in> tags s t}"
  by (induction ps arbitrary: s) (simp_all add: tags_apply)

text \<open>Removing an identifier before it is put leaves it under one tag.\<close>

lemma tags_replace: "x \<in> tags (put x t (del x s)) u \<longleftrightarrow> u = t"
  by (simp add: tags_put tags_del)

end

end
