(* ===== verification/RobimsFieldProps.thy ===== *)
theory RobimsFieldProps
  imports RobimsField TagIndex
begin

text \<open>
  What the fields of a table promise. Set fields keep a relation between identifiers and tags. The
  weight set fields keep, per tag, an ordered set of weights in step with a map from identifiers to
  weights, and bound its size. The integer and float fields never remove an identifier that has a
  value.
\<close>

section \<open>Set fields\<close>

definition set_tags :: "'b roaring \<Rightarrow> (string \<times> 'b NamedRoaringBitmap) list \<Rightarrow> string \<Rightarrow> u32 set" where
  "set_tags R m t = (case map_of m t of None \<Rightarrow> {} | Some nb \<Rightarrow> rb_bits R (rbm (nb_bitmap nb)))"

sublocale roaring_api < set_field: tag_index "set_tags R" "SetField_Put R" "SetField_Remove R"
proof
  fix x :: u32 and t u and m :: "(string \<times> 'b NamedRoaringBitmap) list"
  show "set_tags R (SetField_Put R x t m) u = (if u = t then insert x (set_tags R m u) else set_tags R m u)"
    by (auto simp: set_tags_def SetField_Put_def Let_def rbm_def NewCRoaringBitmap_def split: option.splits)
  show "set_tags R (SetField_Remove R x m) u = set_tags R m u - {x}"
    by (auto simp: set_tags_def SetField_Remove_def map_of_map_values RoaringBitmap_Remove_def rbm_def
        split: option.splits)
qed

section \<open>Weight set fields\<close>

definition weight_pairs :: "(u32 \<times> u32) list \<Rightarrow> u64 set" where
  "weight_pairs m = {weight_id w i | i w. map_of m i = Some w}"

fun strictly_desc :: "u64 list \<Rightarrow> bool" where
  "strictly_desc (x # y # zs) \<longleftrightarrow> y < x \<and> strictly_desc (y # zs)"
| "strictly_desc _ \<longleftrightarrow> True"

lemma strictly_desc_Cons: "strictly_desc (x # ys) \<longleftrightarrow> (\<forall>y \<in> set ys. y < x) \<and> strictly_desc ys"
  by (induction ys arbitrary: x) (auto simp: less_trans)

lemma set_desc_insert: "set (desc_insert x ys) = insert x (set ys)"
  by (induction ys) auto

lemma strictly_desc_insert: "strictly_desc ys \<Longrightarrow> strictly_desc (desc_insert x ys)"
  by (induction ys) (auto simp: strictly_desc_Cons set_desc_insert less_trans not_less order_le_less)

lemma strictly_desc_erase: "strictly_desc ys \<Longrightarrow> strictly_desc (desc_erase x ys)"
  by (induction ys) (auto simp: strictly_desc_Cons desc_erase_def)

lemma set_desc_erase: "set (desc_erase x ys) = set ys - {x}"
  by (simp add: desc_erase_def)

lemma last_strictly_desc: "strictly_desc ys \<Longrightarrow> y \<in> set ys \<Longrightarrow> last ys \<le> y"
  by (induction ys) (auto simp: strictly_desc_Cons order_le_less dest: last_in_set)

lemma ucast_weight_id [simp]: "ucast (weight_id w i) = i"
  by (simp add: weight_id_def ucast_low_sum)

lemma weight_id_eq: "float_eq w v \<Longrightarrow> weight_id w i = weight_id v i"
  using float_eq_iff_key[of w v] by (simp add: weight_id_def float_eq_def)

text \<open>The weights of a tag: the ordered set is in step with the map, and both are within the bitmap.\<close>

definition nw_wf :: "'b roaring \<Rightarrow> 'b NamedWeightRoaringBitmap \<Rightarrow> bool" where
  "nw_wf R nw \<longleftrightarrow> distinct (map fst (nw_id_weights nw)) \<and> strictly_desc (nw_weight_ids nw)
     \<and> set (nw_weight_ids nw) = weight_pairs (nw_id_weights nw)
     \<and> dom (map_of (nw_id_weights nw)) \<subseteq> rb_bits R (rbm (nw_bitmap nw))"

lemma weight_pairs_put:
  "weight_pairs (al_put i w m) = insert (weight_id w i) {x \<in> weight_pairs m. ucast x \<noteq> i}"
  by (auto simp: weight_pairs_def)

lemma weight_pairs_erase: "weight_pairs (al_erase i m) = {x \<in> weight_pairs m. ucast x \<noteq> i}"
  by (auto simp: weight_pairs_def)

lemma weight_pairs_other:
  "map_of m i = Some w \<Longrightarrow> weight_pairs m - {weight_id w i} = {x \<in> weight_pairs m. ucast x \<noteq> i}"
  "map_of m i = None \<Longrightarrow> {x \<in> weight_pairs m. ucast x \<noteq> i} = weight_pairs m"
  by (auto simp: weight_pairs_def)

text \<open>The tag after the identifier has been written, before any eviction.\<close>

definition weight_written :: "'b roaring \<Rightarrow> u32 \<Rightarrow> u32 \<Rightarrow> 'b NamedWeightRoaringBitmap \<Rightarrow> 'b NamedWeightRoaringBitmap" where
  "weight_written R idx weight nw =
     nw\<lparr>nw_id_weights := al_put idx weight (nw_id_weights nw),
        nw_weight_ids := desc_insert (weight_id weight idx)
          (case map_of (nw_id_weights nw) idx of
             Some old \<Rightarrow> (if \<not> float_eq weight old then desc_erase (weight_id old idx) (nw_weight_ids nw)
                          else nw_weight_ids nw)
           | None \<Rightarrow> nw_weight_ids nw),
        nw_bitmap := snd (RoaringBitmap_Put R idx (nw_bitmap nw))\<rparr>"

lemma weight_put_cases:
  "weight_put R topk idx weight nw =
     (let nw1 = weight_written R idx weight nw
      in if 0 <s topk \<and> topk < of_nat (length (nw_id_weights nw1))
         then nw1\<lparr>nw_id_weights := al_erase (ucast (last (nw_weight_ids nw1))) (nw_id_weights nw1),
                  nw_weight_ids := desc_erase (last (nw_weight_ids nw1)) (nw_weight_ids nw1)\<rparr>
         else nw1)"
  by (simp add: weight_put_def weight_written_def Let_def)

lemma set_weight_written:
  assumes "nw_wf R nw"
  shows "set (nw_weight_ids (weight_written R idx weight nw))
    = weight_pairs (nw_id_weights (weight_written R idx weight nw))"
proof -
  have set: "set (nw_weight_ids nw) = weight_pairs (nw_id_weights nw)" using assms by (simp add: nw_wf_def)
  consider (new) "map_of (nw_id_weights nw) idx = None"
    | (same) old where "map_of (nw_id_weights nw) idx = Some old" "float_eq weight old"
    | (other) old where "map_of (nw_id_weights nw) idx = Some old" "\<not> float_eq weight old" by fastforce
  then show ?thesis
  proof cases
    case new
    then show ?thesis
      by (simp add: weight_written_def set_desc_insert weight_pairs_put set weight_pairs_other)
  next
    case same
    then have "weight_id weight idx \<in> weight_pairs (nw_id_weights nw)"
      using weight_id_eq[of weight old idx] by (auto simp: weight_pairs_def)
    then have "insert (weight_id weight idx) (weight_pairs (nw_id_weights nw))
        = insert (weight_id weight idx) {x \<in> weight_pairs (nw_id_weights nw). ucast x \<noteq> idx}"
      using same weight_pairs_other(1)[OF same(1)] weight_id_eq[OF same(2)] by auto
    then show ?thesis using same by (simp add: weight_written_def set_desc_insert weight_pairs_put set)
  next
    case other
    then show ?thesis
      by (simp add: weight_written_def set_desc_insert set_desc_erase weight_pairs_put set weight_pairs_other)
  qed
qed

context roaring_api
begin

lemma nw_wf_written:
  assumes "nw_wf R nw"
  shows "nw_wf R (weight_written R idx weight nw)"
proof -
  have "distinct (map fst (al_put idx weight (nw_id_weights nw)))"
    "strictly_desc (nw_weight_ids (weight_written R idx weight nw))"
    using assms by (auto simp: nw_wf_def weight_written_def intro!: strictly_desc_insert strictly_desc_erase
        split: option.splits)
  moreover have "dom (map_of (al_put idx weight (nw_id_weights nw)))
      \<subseteq> rb_bits R (rbm (snd (RoaringBitmap_Put R idx (nw_bitmap nw))))"
    using assms by (auto simp: nw_wf_def RoaringBitmap_Put_def rbm_def)
  ultimately show ?thesis
    using set_weight_written[OF assms] by (simp add: nw_wf_def weight_written_def)
qed

lemma nw_wf_evict:
  assumes "nw_wf R nw" and "nw_weight_ids nw \<noteq> []"
  shows "nw_wf R (nw\<lparr>nw_id_weights := al_erase (ucast (last (nw_weight_ids nw))) (nw_id_weights nw),
                  nw_weight_ids := desc_erase (last (nw_weight_ids nw)) (nw_weight_ids nw)\<rparr>)"
proof -
  have "last (nw_weight_ids nw) \<in> weight_pairs (nw_id_weights nw)"
    using assms last_in_set unfolding nw_wf_def by blast
  then obtain i w where iw: "last (nw_weight_ids nw) = weight_id w i" "map_of (nw_id_weights nw) i = Some w"
    by (auto simp: weight_pairs_def)
  then have "set (desc_erase (weight_id w i) (nw_weight_ids nw)) = weight_pairs (al_erase i (nw_id_weights nw))"
    using assms(1) by (simp add: nw_wf_def set_desc_erase weight_pairs_erase weight_pairs_other)
  then show ?thesis
    using assms(1) iw by (auto simp: nw_wf_def intro!: strictly_desc_erase)
qed

lemma written_nonempty: "nw_weight_ids (weight_written R idx weight nw) \<noteq> []"
proof -
  have "desc_insert x ys \<noteq> []" for x ys using set_desc_insert[of x ys] by (metis empty_set insert_not_empty)
  then show ?thesis by (simp add: weight_written_def)
qed

lemma nw_wf_put: "nw_wf R nw \<Longrightarrow> nw_wf R (weight_put R topk idx weight nw)"
  using nw_wf_evict[OF nw_wf_written written_nonempty] nw_wf_written
  by (simp add: weight_put_cases Let_def)

lemma nw_wf_remove:
  assumes "nw_wf R nw" and "map_of (nw_id_weights nw) idx = Some w"
  shows "nw_wf R (weight_remove R idx w nw)"
  using assms
  by (auto simp: nw_wf_def weight_remove_def RoaringBitmap_Remove_def rbm_def set_desc_erase weight_pairs_erase
      weight_pairs_other intro!: strictly_desc_erase)

end

section \<open>The size of a weight set\<close>

lemma length_distinct_u32: "distinct (map fst (m :: (u32 \<times> 'c) list)) \<Longrightarrow> length m \<le> 2 ^ 32"
  using distinct_card[of "map fst m"] card_mono[of "UNIV :: u32 set" "set (map fst m)"]
  by (simp add: card_word)

lemma length_al_put: "length (al_put k v m) = (if k \<in> fst ` set m then length m else Suc (length m))"
  by (induction k v m rule: al_put.induct) auto

lemma length_al_erase:
  "distinct (map fst m) \<Longrightarrow> k \<in> fst ` set m \<Longrightarrow> Suc (length (al_erase k m)) = length m"
proof (induction m)
  case (Cons p m)
  have "k \<notin> fst ` set m \<Longrightarrow> al_erase k m = m"
    by (auto simp: al_erase_def filter_id_conv)
  with Cons show ?case by (auto simp: al_erase_def)
qed simp

definition nw_ok :: "'b roaring \<Rightarrow> i64 \<Rightarrow> string \<Rightarrow> 'b NamedWeightRoaringBitmap \<Rightarrow> bool" where
  "nw_ok R topk k nw \<longleftrightarrow> nw_name nw = k \<and> nw_wf R nw
     \<and> (0 <s topk \<longrightarrow> length (nw_id_weights nw) \<le> unat topk)"

definition wset_wf :: "'b roaring \<Rightarrow> i64 \<Rightarrow> (string \<times> 'b NamedWeightRoaringBitmap) list \<Rightarrow> bool" where
  "wset_wf R topk m \<longleftrightarrow> distinct (map fst m) \<and> (\<forall>(k, nw) \<in> set m. nw_ok R topk k nw)"

text \<open>The states of a weight set field that was built and then updated.\<close>

inductive wset_reachable :: "'b roaring \<Rightarrow> i64 \<Rightarrow> (string \<times> 'b NamedWeightRoaringBitmap) list \<Rightarrow> bool"
  for R topk where
  built: "wset_reachable R topk []"
| put: "wset_reachable R topk m \<Longrightarrow> wset_reachable R topk (WeightSetField_Put R topk idx val weight m)"
| remove: "wset_reachable R topk m \<Longrightarrow> wset_reachable R topk (snd (WeightSetField_Remove R idx m))"

lemma set_al_put: "set (al_put k v m) \<subseteq> insert (k, v) (set m)"
  by (induction k v m rule: al_put.induct) auto

lemma keys_WeightSetField_Remove: "map fst (snd (WeightSetField_Remove R idx m)) = map fst m"
  by (induction R idx m rule: WeightSetField_Remove.induct) (auto split: option.splits prod.splits)

lemma WeightSetField_Remove_entries:
  "(k, nw) \<in> set (snd (WeightSetField_Remove R idx m)) \<Longrightarrow>
     (k, nw) \<in> set m \<or> (\<exists>nw' w. (k, nw') \<in> set m \<and> map_of (nw_id_weights nw') idx = Some w
        \<and> nw = weight_remove R idx w nw')"
  by (induction R idx m rule: WeightSetField_Remove.induct) (auto split: option.splits prod.splits)

lemma weight_remove_frame [simp]:
  "nw_name (weight_remove R idx w nw) = nw_name nw"
  "length (nw_id_weights (weight_remove R idx w nw)) \<le> length (nw_id_weights nw)"
  by (simp_all add: weight_remove_def al_erase_def)

lemma weight_put_name [simp]: "nw_name (weight_put R topk idx w nw) = nw_name nw"
  by (simp add: weight_put_def Let_def)

context roaring_api
begin

lemma weight_put_bound:
  assumes wf: "nw_wf R nw" and "0 <s topk" and "length (nw_id_weights nw) \<le> unat topk"
  shows "length (nw_id_weights (weight_put R topk idx w nw)) \<le> unat topk"
proof -
  let ?n = "weight_written R idx w nw"
  have n: "length (nw_id_weights ?n) \<le> Suc (unat topk)"
    using assms(3) by (simp add: weight_written_def length_al_put)
  have wf1: "nw_wf R ?n" by (rule nw_wf_written[OF wf])
  then have "distinct (map fst (nw_id_weights ?n))" by (simp add: nw_wf_def)
  then have u: "unat (of_nat (length (nw_id_weights ?n)) :: u64) = length (nw_id_weights ?n)"
    using length_distinct_u32 by (intro unat_of_nat_small) force
  have "last (nw_weight_ids ?n) \<in> weight_pairs (nw_id_weights ?n)"
    using wf1 written_nonempty last_in_set unfolding nw_wf_def by blast
  then have "ucast (last (nw_weight_ids ?n)) \<in> fst ` set (nw_id_weights ?n)"
    by (auto simp: weight_pairs_def dest!: map_of_SomeD intro: rev_image_eqI)
  with \<open>distinct _\<close> have "Suc (length (al_erase (ucast (last (nw_weight_ids ?n))) (nw_id_weights ?n)))
      = length (nw_id_weights ?n)"
    by (rule length_al_erase)
  then show ?thesis
    using n u assms(2) by (simp add: weight_put_cases Let_def word_less_nat_alt)
qed

lemma nw_wf_new: "nw_wf R (new_NamedWeight R val)"
  by (simp add: nw_wf_def new_NamedWeight_def weight_pairs_def)

lemma nw_ok_put: "nw_ok R topk k nw \<Longrightarrow> nw_ok R topk k (weight_put R topk idx w nw)"
  by (simp add: nw_ok_def nw_wf_put weight_put_bound)

lemma nw_ok_remove:
  "nw_ok R topk k nw \<Longrightarrow> map_of (nw_id_weights nw) idx = Some w \<Longrightarrow> nw_ok R topk k (weight_remove R idx w nw)"
  by (auto simp: nw_ok_def nw_wf_remove intro: le_trans[OF weight_remove_frame(2)])

lemma nw_ok_new: "nw_ok R topk val (new_NamedWeight R val)"
  using nw_wf_new[of val] by (simp add: nw_ok_def) (simp add: new_NamedWeight_def)

lemma wset_wf_Put:
  assumes "wset_wf R topk m"
  shows "wset_wf R topk (WeightSetField_Put R topk idx val weight m)"
proof -
  let ?nw = "case map_of m val of None \<Rightarrow> new_NamedWeight R val | Some nw \<Rightarrow> nw"
  have "nw_ok R topk val ?nw"
    using assms nw_ok_new by (auto simp: wset_wf_def split: option.splits dest!: map_of_SomeD)
  then have "nw_ok R topk val (weight_put R topk idx weight ?nw)" by (rule nw_ok_put)
  then show ?thesis
    using assms set_al_put[of val "weight_put R topk idx weight ?nw" m]
    by (auto simp: wset_wf_def WeightSetField_Put_def Let_def)
qed

lemma wset_wf_Remove:
  assumes "wset_wf R topk m"
  shows "wset_wf R topk (snd (WeightSetField_Remove R idx m))"
proof -
  have "nw_ok R topk k nw" if "(k, nw) \<in> set (snd (WeightSetField_Remove R idx m))" for k nw
    using WeightSetField_Remove_entries[OF that] assms nw_ok_remove by (auto simp: wset_wf_def)
  then show ?thesis using assms by (auto simp: wset_wf_def keys_WeightSetField_Remove)
qed

lemma wset_wf_reachable: "wset_reachable R topk m \<Longrightarrow> wset_wf R topk m"
  by (induction rule: wset_reachable.induct) (auto simp: wset_wf_Put wset_wf_Remove, simp add: wset_wf_def)

end

context roaring_api
begin

lemma set_field_tags:
  "set_tags R (fold (tag_apply (SetField_Put R) (SetField_Remove R)) ops []) t
     = {x. (x, t) \<in> fold spec_tag_op ops {}}"
proof -
  have "{(x, t). x \<in> set_tags R (fold (tag_apply (SetField_Put R) (SetField_Remove R)) ops []) t}
      = fold spec_tag_op ops {(x, t). x \<in> set_tags R [] t}"
    by (rule set_field.tags_run)
  then show ?thesis by (auto simp: set_tags_def)
qed

lemma SetField_Select_tags:
  "case SetField_Select R tab m FIELD_OP_EQ (ArgStr t) of
     (rc, Some b) \<Rightarrow> rc = 0 \<and> rb_bits R b = set_tags R m t
   | (rc, None) \<Rightarrow> rc = ROBIMS_ERR_NOTFOUND \<and> set_tags R m t = {}"
  "case SetField_Select R tab m FIELD_OP_NEQ (ArgStr t) of
     (rc, Some b) \<Rightarrow> rc = 0 \<and> rb_bits R b = rb_bits R tab - set_tags R m t
   | (rc, None) \<Rightarrow> rc = ROBIMS_ERR_NOTFOUND \<and> set_tags R m t = {}"
  by (auto simp: SetField_Select_def set_tags_def split: option.splits)

text \<open>An eviction takes the least pair of weight and identifier and leaves the bitmap alone.\<close>

lemma weight_put_evicts:
  assumes "nw_wf R nw" and ev: "0 <s topk" "topk < of_nat (length (nw_id_weights (weight_written R idx w nw)))"
  shows "\<exists>e we. map_of (nw_id_weights (weight_written R idx w nw)) e = Some we
    \<and> map_of (nw_id_weights (weight_put R topk idx w nw))
        = (map_of (nw_id_weights (weight_written R idx w nw)))(e := None)
    \<and> (\<forall>i v. map_of (nw_id_weights (weight_written R idx w nw)) i = Some v \<longrightarrow> weight_id we e \<le> weight_id v i)
    \<and> e \<in> rb_bits R (rbm (nw_bitmap (weight_put R topk idx w nw)))"
proof -
  let ?n = "weight_written R idx w nw"
  have wf: "nw_wf R ?n" by (rule nw_wf_written[OF assms(1)])
  have "last (nw_weight_ids ?n) \<in> weight_pairs (nw_id_weights ?n)"
    using wf written_nonempty last_in_set unfolding nw_wf_def by blast
  then obtain e we where e: "last (nw_weight_ids ?n) = weight_id we e" "map_of (nw_id_weights ?n) e = Some we"
    by (auto simp: weight_pairs_def)
  have "weight_id we e \<le> weight_id v i" if "map_of (nw_id_weights ?n) i = Some v" for i v
    using wf that last_strictly_desc[of "nw_weight_ids ?n" "weight_id v i"]
    by (auto simp: nw_wf_def weight_pairs_def e(1))
  moreover have "e \<in> rb_bits R (rbm (nw_bitmap ?n))" using wf e(2) by (auto simp: nw_wf_def)
  ultimately show ?thesis using e ev by (intro exI[of _ e] exI[of _ we]) (simp add: weight_put_cases Let_def)
qed

end

section \<open>Properties\<close>

text \<open>
  After any sequence of puts and removals on a fresh set field, an equality
  selection for a tag returns exactly the identifiers put under it and not removed since, an
  inequality selection the other identifiers of the table; a tag that was never put is not found.
\<close>

theorem set_field_run:
  assumes "roaring_api R"
    and "m = fold (tag_apply (SetField_Put R) (SetField_Remove R)) ops []"
    and "ids = {x. (x, t) \<in> fold spec_tag_op ops {}}"
  shows "(case SetField_Select R tab m FIELD_OP_EQ (ArgStr t) of
            (rc, Some b) \<Rightarrow> rc = 0 \<and> rb_bits R b = ids
          | (rc, None) \<Rightarrow> rc = ROBIMS_ERR_NOTFOUND \<and> ids = {})
    \<and> (case SetField_Select R tab m FIELD_OP_NEQ (ArgStr t) of
            (rc, Some b) \<Rightarrow> rc = 0 \<and> rb_bits R b = rb_bits R tab - ids
          | (rc, None) \<Rightarrow> rc = ROBIMS_ERR_NOTFOUND \<and> ids = {})"
proof -
  have "set_tags R m t = ids"
    unfolding assms(2,3) by (rule roaring_api.set_field_tags[OF assms(1)])
  then show ?thesis
    using roaring_api.SetField_Select_tags[OF assms(1), where tab = tab and m = m and t = t] by metis
qed

theorem set_field_run_witness:
  "case SetField_Select list_roaring [1, 2, 3]
      (fold (tag_apply (SetField_Put list_roaring) (SetField_Remove list_roaring))
        [TagPut 1 ''a'', TagPut 2 ''a'', TagPut 2 ''b'', TagRemove 2] []) FIELD_OP_NEQ (ArgStr ''a'') of
     (rc, Some b) \<Rightarrow> rc = 0 \<and> set b = {2, 3}
   | (rc, None) \<Rightarrow> False"
proof -
  let ?ops = "[TagPut 1 ''a'', TagPut 2 ''a'', TagPut 2 ''b'', TagRemove 2]"
  have "{x. (x, ''a'') \<in> fold spec_tag_op ?ops {}} = {1}" by auto
  with set_field_run[OF lr.roaring_api_axioms refl refl, where ops = ?ops and t = "''a''" and tab = "[1, 2, 3]"]
  show ?thesis by (auto split: option.splits prod.splits)
qed


definition sample_weights :: "(string \<times> u32 list NamedWeightRoaringBitmap) list" where
  "sample_weights = WeightSetField_Put list_roaring 1 7 ''hot'' 0x3F800000 []"

lemma sample_weights_reachable: "wset_reachable list_roaring 1 sample_weights"
  unfolding sample_weights_def by (intro wset_reachable.intros)

lemma sample_weights_eq:
  "sample_weights = [(''hot'', \<lparr>nw_name = ''hot'', nw_weight_ids = [weight_id 0x3F800000 7],
     nw_id_weights = [(7, 0x3F800000)], nw_bitmap = \<lparr>rbp = Some [7], rb_readonly = False\<rparr>\<rparr>)]"
  by (simp add: sample_weights_def WeightSetField_Put_def weight_put_def new_NamedWeight_def Let_def
      RoaringBitmap_Put_def NewCRoaringBitmap_def new_RoaringBitmap_def rbm_def)


text \<open>
  When a put makes a tag exceed its limit, the identifier with the least weight
  (among equal weights the least identifier) loses its weight; it stays in the tag's bitmap, so a
  selection still returns it.
\<close>

theorem weight_set_evicts:
  assumes "roaring_api R" and "nw_wf R nw" and "0 <s topk"
    and "ws = (map_of (nw_id_weights nw))(idx \<mapsto> w)"
    and "topk < of_nat (card (dom ws))"
  shows "\<exists>e we. ws e = Some we
    \<and> map_of (nw_id_weights (weight_put R topk idx w nw)) = ws(e := None)
    \<and> (\<forall>i v. ws i = Some v \<longrightarrow> weight_id we e \<le> weight_id v i)
    \<and> e \<in> rb_bits R (rbm (nw_bitmap (weight_put R topk idx w nw)))"
proof -
  have wf: "distinct (map fst (nw_id_weights (weight_written R idx w nw)))"
    using roaring_api.nw_wf_written[OF assms(1,2), of idx w] by (simp add: nw_wf_def)
  have ws: "map_of (nw_id_weights (weight_written R idx w nw)) = ws"
    by (simp add: weight_written_def assms(4))
  have "card (dom ws) = length (nw_id_weights (weight_written R idx w nw))"
    using distinct_card[OF wf] by (simp add: dom_map_of_conv_image_fst flip: ws)
  with roaring_api.weight_put_evicts[OF assms(1-3), of idx w] assms(5) show ?thesis by (simp add: ws)
qed

theorem weight_set_evicts_witness:
  "\<exists>e we. map_of (nw_id_weights (weight_put list_roaring 1 8 0x40000000 (snd (hd sample_weights)))) e = None
    \<and> ((map_of (nw_id_weights (snd (hd sample_weights))))(8 \<mapsto> 0x40000000)) e = Some we
    \<and> e \<in> set (rbm (nw_bitmap (weight_put list_roaring 1 8 0x40000000 (snd (hd sample_weights)))))"
proof -
  let ?nw = "snd (hd sample_weights)"
  have wf: "nw_wf list_roaring ?nw"
    using lr.wset_wf_reachable[OF sample_weights_reachable]
    by (simp add: wset_wf_def nw_ok_def sample_weights_eq)
  have "map_of (nw_id_weights ?nw) = [7 \<mapsto> 0x3F800000]" by (simp add: sample_weights_eq)
  then have c: "(1 :: i64) < of_nat (card (dom ((map_of (nw_id_weights ?nw))(8 \<mapsto> 0x40000000))))" by simp
  have p: "0 <s (1 :: i64)" by (simp add: word_sless_alt)
  from weight_set_evicts[OF lr.roaring_api_axioms wf p refl c]
  obtain e we where "((map_of (nw_id_weights ?nw))(8 \<mapsto> 0x40000000)) e = Some we"
    "map_of (nw_id_weights (weight_put list_roaring 1 8 0x40000000 ?nw))
       = ((map_of (nw_id_weights ?nw))(8 \<mapsto> 0x40000000))(e := None)"
    "e \<in> rb_bits list_roaring (rbm (nw_bitmap (weight_put list_roaring 1 8 0x40000000 ?nw)))"
    by blast
  then show ?thesis by (intro exI[of _ e] exI[of _ we]) simp
qed

text \<open>
  \<^verbatim>\<open>Remove\<close> of a weight set field takes the identifier from the tags up to the
  first one that has no weight for it; it leaves that tag and all later ones as they are and then
  returns \<open>- 1\<close>. It returns 0 exactly when every tag of the field has a weight for the identifier.
\<close>

theorem weight_set_remove:
  "WeightSetField_Remove R idx m =
     (if (\<forall>(k, nw) \<in> set m. idx \<in> dom (map_of (nw_id_weights nw))) then 0 else -1,
      map (\<lambda>(k, nw). (k, weight_remove R idx (the (map_of (nw_id_weights nw) idx)) nw))
        (takeWhile (\<lambda>(k, nw). idx \<in> dom (map_of (nw_id_weights nw))) m)
      @ dropWhile (\<lambda>(k, nw). idx \<in> dom (map_of (nw_id_weights nw))) m)"
  by (induction R idx m rule: WeightSetField_Remove.induct) (auto simp: domIff split: option.splits prod.splits)

theorem weight_set_remove_witness:
  "fst (WeightSetField_Remove list_roaring 9 sample_weights) = -1
   \<and> snd (WeightSetField_Remove list_roaring 9 sample_weights) = sample_weights"
  using weight_set_remove[of list_roaring 9 sample_weights] by (simp add: sample_weights_eq)

text \<open>
  \<^verbatim>\<open>Remove\<close> of an integer or a float field never removes an identifier: an
  identifier with a value keeps it, and so do all others.
\<close>

theorem int_field_remove:
  assumes "roaring_api R" and "bsi_wf b"
  shows "bsi_ids R (IntField_Remove R gi x b) = bsi_ids R b
    \<and> bsi_ids R (FloatField_Remove R gf x b) = bsi_ids R b
    \<and> (\<forall>y \<in> bsi_ids R b. bsi_val R (IntField_Remove R gi x b) y = bsi_val R b y
         \<and> bsi_val R (FloatField_Remove R gf x b) y = bsi_val R b y)"
proof (cases "x \<in> bsi_ids R b")
  case True
  then show ?thesis
    by (simp add: IntField_Remove_def FloatField_Remove_def IntIndex_Get_def FloatIndex_Get_def
        roaring_api.DoGet_eq[OF assms])
next
  case False
  then have "y \<noteq> x" if "y \<in> bsi_ids R b" for y using that by auto
  with False show ?thesis
    by (auto simp: IntField_Remove_def FloatField_Remove_def IntIndex_Get_def FloatIndex_Get_def
        IntIndex_Remove_def FloatIndex_Remove_def roaring_api.DoGet_eq[OF assms]
        roaring_api.remove_effect[OF assms])
qed

theorem int_field_remove_witness: "bsi_ids list_roaring (IntField_Remove list_roaring 0 1 sample_bsi) = {1, 2, 3}"
  using int_field_remove[OF lr.roaring_api_axioms sample_bsi_ok(1)] by (simp add: sample_bsi_simps)

end
