(* ===== verification/Protobuf.thy ===== *)
theory Protobuf
  imports RobimsTypes RobimsIO
begin

text \<open>
  The serialisation the protobuf compiler generates for the messages of \<^verbatim>\<open>robims/robims.proto\<close> is not
  part of the repository. It is a record of functions, an argument of the models that use it, and the
  locale \<open>protobuf_api\<close> states what they rely on: a message that was serialised is parsed again. The
  instance at the end shows that the laws can be met.
\<close>

record DBHeader =
  hdr_version :: u32
  hdr_readonly :: bool
  hdr_whole_db :: bool
  hdr_partial_tables :: "string list"

record protobuf =
  meta_bytes :: "FieldMeta \<Rightarrow> byte list"
  parse_meta :: "byte list \<Rightarrow> FieldMeta option"
  schema_bytes :: "TableSchema \<Rightarrow> byte list"
  parse_schema :: "byte list \<Rightarrow> TableSchema option"
  header_bytes :: "DBHeader \<Rightarrow> byte list"
  parse_header :: "byte list \<Rightarrow> DBHeader option"

locale protobuf_api =
  fixes PB :: protobuf
  assumes parse_meta_bytes [simp]: "parse_meta PB (meta_bytes PB m) = Some m"
    and parse_schema_bytes [simp]: "parse_schema PB (schema_bytes PB s) = Some s"
    and parse_header_bytes [simp]: "parse_header PB (header_bytes PB h) = Some h"

section \<open>A reference instance\<close>

text \<open>A string, a list of items and a message as prefix codes.\<close>

fun enc_list :: "('a \<Rightarrow> byte list) \<Rightarrow> 'a list \<Rightarrow> byte list" where
  "enc_list e [] = [0]"
| "enc_list e (x # xs) = 1 # e x @ enc_list e xs"

text \<open>The length of the input bounds the number of items.\<close>

fun dec_list :: "nat \<Rightarrow> (byte list \<Rightarrow> ('a \<times> byte list) option) \<Rightarrow> byte list \<Rightarrow> ('a list \<times> byte list) option" where
  "dec_list 0 d bs = None"
| "dec_list (Suc n) d [] = None"
| "dec_list (Suc n) d (b # bs) =
     (if b = 0 then Some ([], bs)
      else Option.bind (d bs) (\<lambda>(x, cs). map_option (\<lambda>(xs, ds). (x # xs, ds)) (dec_list n d cs)))"

lemma length_enc_list: "length xs < length (enc_list e xs)"
  by (induction xs) auto

lemma dec_enc_list:
  assumes "\<And>x cs. d (e x @ cs) = Some (x, cs)"
  shows "length xs < n \<Longrightarrow> dec_list n d (enc_list e xs @ cs) = Some (xs, cs)"
proof (induction xs arbitrary: n)
  case Nil
  then show ?case by (cases n) simp_all
next
  case (Cons x xs)
  then show ?case using assms by (cases n) simp_all
qed

definition dec_items :: "(byte list \<Rightarrow> ('a \<times> byte list) option) \<Rightarrow> byte list \<Rightarrow> ('a list \<times> byte list) option" where
  "dec_items d bs = dec_list (Suc (length bs)) d bs"

lemma dec_enc_items:
  assumes "\<And>x cs. d (e x @ cs) = Some (x, cs)"
  shows "dec_items d (enc_list e xs @ cs) = Some (xs, cs)"
  unfolding dec_items_def by (rule dec_enc_list[OF assms]) (use length_enc_list[of xs e] in auto)

definition dec_string :: "byte list \<Rightarrow> (string \<times> byte list) option" where
  "dec_string bs = dec_items (\<lambda>bs. case bs of [] \<Rightarrow> None | b # cs \<Rightarrow> Some (char_of_byte b, cs)) bs"

definition enc_string :: "string \<Rightarrow> byte list" where
  "enc_string s = enc_list (\<lambda>c. [byte_of_char c]) s"

lemma dec_enc_string [simp]: "dec_string (enc_string s @ cs) = Some (s, cs)"
  unfolding dec_string_def enc_string_def
  by (rule dec_enc_items) simp

definition dec_u64 :: "byte list \<Rightarrow> (u64 \<times> byte list) option" where
  "dec_u64 bs = (if length bs < 8 then None else Some (of_mem64 (take 8 bs), drop 8 bs))"

lemma dec_enc_u64 [simp]: "dec_u64 (mem64 w @ cs) = Some (w, cs)"
  by (simp add: dec_u64_def)

definition index_types :: "FieldIndexType list" where
  "index_types = [UNKNOWN_INDEX, SET_INDEX, WEIGHT_SET_INDEX, MUTEX_INDEX, INT_INDEX, FLOAT_INDEX, BOOL_INDEX]"

definition type_code :: "FieldIndexType \<Rightarrow> u64" where
  "type_code t = (case t of UNKNOWN_INDEX \<Rightarrow> 0 | SET_INDEX \<Rightarrow> 1 | WEIGHT_SET_INDEX \<Rightarrow> 2 | MUTEX_INDEX \<Rightarrow> 3
     | INT_INDEX \<Rightarrow> 4 | FLOAT_INDEX \<Rightarrow> 5 | BOOL_INDEX \<Rightarrow> 6)"

lemma type_code_inv [simp]: "index_types ! unat (type_code t) = t"
  by (cases t) (simp_all add: index_types_def type_code_def)

definition enc_meta :: "FieldMeta \<Rightarrow> byte list" where
  "enc_meta m = enc_string (fm_name m) @ mem64 (type_code (fm_index_type m)) @ mem64 (fm_min m)
     @ mem64 (fm_max m) @ mem64 (fm_topk_limit m) @ mem64 (fm_max_set_num m)"

definition dec_meta :: "byte list \<Rightarrow> (FieldMeta \<times> byte list) option" where
  "dec_meta bs =
     Option.bind (dec_string bs) (\<lambda>(name, bs).
     Option.bind (dec_u64 bs) (\<lambda>(ty, bs).
     Option.bind (dec_u64 bs) (\<lambda>(mn, bs).
     Option.bind (dec_u64 bs) (\<lambda>(mx, bs).
     Option.bind (dec_u64 bs) (\<lambda>(lim, bs).
     Option.bind (dec_u64 bs) (\<lambda>(num, bs).
       Some (\<lparr>fm_name = name, fm_index_type = index_types ! unat ty, fm_min = mn, fm_max = mx,
              fm_topk_limit = lim, fm_max_set_num = num\<rparr>, bs)))))))"

lemma dec_enc_meta [simp]: "dec_meta (enc_meta m @ cs) = Some (m, cs)"
  by (simp add: dec_meta_def enc_meta_def)

definition enc_schema :: "TableSchema \<Rightarrow> byte list" where
  "enc_schema s = enc_string (ts_name s) @ enc_string (ts_id_field s) @ enc_list enc_meta (ts_index_field s)
     @ mem64 (of_bool (ts_disable_local_id_creation s))"

definition dec_schema :: "byte list \<Rightarrow> (TableSchema \<times> byte list) option" where
  "dec_schema bs =
     Option.bind (dec_string bs) (\<lambda>(name, bs).
     Option.bind (dec_string bs) (\<lambda>(idf, bs).
     Option.bind (dec_items dec_meta bs) (\<lambda>(ix, bs).
     Option.bind (dec_u64 bs) (\<lambda>(dis, bs).
       Some (\<lparr>ts_name = name, ts_id_field = idf, ts_index_field = ix,
              ts_disable_local_id_creation = (dis = 1)\<rparr>, bs)))))"

lemma dec_enc_schema: "dec_schema (enc_schema s) = Some (s, [])"
  using dec_enc_u64[of _ "[]"]
  by (simp add: dec_schema_def enc_schema_def dec_enc_items[where d = dec_meta])

definition enc_header :: "DBHeader \<Rightarrow> byte list" where
  "enc_header h = mem64 (ucast (hdr_version h)) @ mem64 (of_bool (hdr_readonly h)) @ mem64 (of_bool (hdr_whole_db h))
     @ enc_list enc_string (hdr_partial_tables h)"

definition dec_header :: "byte list \<Rightarrow> (DBHeader \<times> byte list) option" where
  "dec_header bs =
     Option.bind (dec_u64 bs) (\<lambda>(v, bs).
     Option.bind (dec_u64 bs) (\<lambda>(r, bs).
     Option.bind (dec_u64 bs) (\<lambda>(w, bs).
     Option.bind (dec_items dec_string bs) (\<lambda>(ts, bs).
       Some (\<lparr>hdr_version = ucast v, hdr_readonly = (r = 1), hdr_whole_db = (w = 1),
              hdr_partial_tables = ts\<rparr>, bs)))))"

lemma dec_enc_header: "dec_header (enc_header h) = Some (h, [])"
  using dec_enc_items[where d = dec_string and e = enc_string and cs = "[]"]
  by (simp add: dec_header_def enc_header_def)

definition plain_pb :: protobuf where
  "plain_pb = \<lparr>meta_bytes = enc_meta, parse_meta = (\<lambda>bs. map_option fst (dec_meta bs)),
     schema_bytes = enc_schema, parse_schema = (\<lambda>bs. map_option fst (dec_schema bs)),
     header_bytes = enc_header, parse_header = (\<lambda>bs. map_option fst (dec_header bs))\<rparr>"

interpretation plain_pb: protobuf_api plain_pb
  using dec_enc_meta[of _ "[]"]
  by unfold_locales (simp_all add: plain_pb_def dec_enc_schema dec_enc_header)

end
