(* ===== verification/RobimsFieldIO.thy ===== *)
theory RobimsFieldIO
  imports RobimsFieldProps Protobuf
begin

text \<open>
  Saving and loading the fields of a table: the \<^verbatim>\<open>Save\<close>, \<^verbatim>\<open>Load\<close>, \<^verbatim>\<open>DoSave\<close> and \<^verbatim>\<open>DoLoad\<close>
  methods of \<^verbatim>\<open>RobimsField\<close> and its subclasses.

  The maps from names to bitmaps have views of the names as keys, and loading replaces the bitmap of
  a name that is already present, which frees the string the key refers to. The first component of
  the loop state records that; every later use of the map would be undefined.
\<close>

section \<open>Set fields\<close>

definition set_save_entry :: "'b roaring \<Rightarrow> bool \<Rightarrow> string \<times> 'b NamedRoaringBitmap \<Rightarrow> ofile \<Rightarrow> wr" where
  "set_save_entry R readonly p f =
     and_then (file_write_string (string_bytes (nb_name (snd p))) f) (RoaringBitmap_Save R readonly (nb_bitmap (snd p)))"

definition SetField_DoSave :: "'b roaring \<Rightarrow> bool \<Rightarrow> (string \<times> 'b NamedRoaringBitmap) list \<Rightarrow> ofile \<Rightarrow> wr" where
  "SetField_DoSave R readonly m f =
     and_then (file_write_uint32 (of_nat (length m)) f) (save_each (set_save_entry R readonly) m)"

definition set_load_entry :: "'b roaring \<Rightarrow> bool \<times> (string \<times> 'b NamedRoaringBitmap) list \<Rightarrow> byte list
    \<Rightarrow> (bool \<times> (string \<times> 'b NamedRoaringBitmap) list) rd" where
  "set_load_entry R s bs =
     rd_bind (file_read_string bs) (\<lambda>n bs.
     rd_bind (RoaringBitmap_Load R new_RoaringBitmap bs) (\<lambda>p.
       let name = bytes_string n
       in Rd (fst s \<or> name \<in> fst ` set (snd s),
              al_put name \<lparr>nb_name = name, nb_bitmap = p\<rparr> (snd s))))"

definition SetField_DoLoad :: "'b roaring \<Rightarrow> (string \<times> 'b NamedRoaringBitmap) list \<Rightarrow> byte list
    \<Rightarrow> (string \<times> 'b NamedRoaringBitmap) list rd" where
  "SetField_DoLoad R m bs =
     rd_bind (file_read_uint32 bs) (\<lambda>n bs.
     rd_bind (rd_iter (unat n) (set_load_entry R) (False, m) bs) (\<lambda>s bs.
       if fst s then Undef else Rd (snd s) bs))"

section \<open>Weight set fields\<close>

definition weight_save_entry :: "'b roaring \<Rightarrow> bool \<Rightarrow> string \<times> 'b NamedWeightRoaringBitmap \<Rightarrow> ofile \<Rightarrow> wr" where
  "weight_save_entry R readonly p f =
     (let tmp = nw_weight_ids (snd p)
      in and_then (file_write_string (string_bytes (nw_name (snd p))) f) (\<lambda>f.
         and_then (file_write_uint32 (of_nat (length tmp)) f) (\<lambda>f.
         and_then (if 0 < length tmp then fwrite_rc (concat (map mem64 tmp)) f else Wr 0 f) (\<lambda>f.
         RoaringBitmap_Save R readonly (nw_bitmap (snd p)) f))))"

definition WeightSetField_DoSave ::
    "'b roaring \<Rightarrow> bool \<Rightarrow> (string \<times> 'b NamedWeightRoaringBitmap) list \<Rightarrow> ofile \<Rightarrow> wr" where
  "WeightSetField_DoSave R readonly m f =
     and_then (file_write_uint32 (of_nat (length m)) f) (save_each (weight_save_entry R readonly) m)"

text \<open>The 64-bit integers of a buffer that was read into a vector of \<open>n\<close> elements.\<close>

primrec words_of :: "nat \<Rightarrow> byte list \<Rightarrow> u64 list" where
  "words_of 0 bs = []"
| "words_of (Suc n) bs = of_mem64 (take 8 bs) # words_of n (drop 8 bs)"

definition read_words :: "u32 \<Rightarrow> byte list \<Rightarrow> u64 list rd" where
  "read_words count bs =
     (if 0 < count then rd_bind (fread (unat count * 8) bs) (\<lambda>b. Rd (words_of (unat count) b))
      else Rd [] bs)"

definition load_weights :: "u64 list \<Rightarrow> u64 list \<times> (u32 \<times> u32) list" where
  "load_weights tmp =
     (fold desc_insert tmp [],
      fold (\<lambda>v m. al_put (ucast v) (uint32_to_float (ucast (drop_bit 32 v))) m) tmp [])"

definition weight_load_entry :: "'b roaring \<Rightarrow> bool \<times> (string \<times> 'b NamedWeightRoaringBitmap) list \<Rightarrow> byte list
    \<Rightarrow> (bool \<times> (string \<times> 'b NamedWeightRoaringBitmap) list) rd" where
  "weight_load_entry R s bs =
     rd_bind (file_read_string bs) (\<lambda>n bs.
     rd_bind (file_read_uint32 bs) (\<lambda>count bs.
     rd_bind (read_words count bs) (\<lambda>tmp bs.
     rd_bind (RoaringBitmap_Load R new_RoaringBitmap bs) (\<lambda>p.
       let name = bytes_string n; w = load_weights tmp
       in Rd (fst s \<or> name \<in> fst ` set (snd s),
              al_put name \<lparr>nw_name = name, nw_weight_ids = fst w, nw_id_weights = snd w, nw_bitmap = p\<rparr> (snd s))))))"

definition WeightSetField_DoLoad :: "'b roaring \<Rightarrow> (string \<times> 'b NamedWeightRoaringBitmap) list \<Rightarrow> byte list
    \<Rightarrow> (string \<times> 'b NamedWeightRoaringBitmap) list rd" where
  "WeightSetField_DoLoad R m bs =
     rd_bind (file_read_uint32 bs) (\<lambda>n bs.
     rd_bind (rd_iter (unat n) (weight_load_entry R) (False, m) bs) (\<lambda>s bs.
       if fst s then Undef else Rd (snd s) bs))"

section \<open>All fields\<close>

definition field_DoSave :: "'b roaring \<Rightarrow> bool \<Rightarrow> 'b field_index \<Rightarrow> ofile \<Rightarrow> wr" where
  "field_DoSave R readonly ix f =
     (case ix of
        SetField m \<Rightarrow> SetField_DoSave R readonly m f
      | BoolField p \<Rightarrow> RoaringBitmap_Save R readonly p f
      | WeightSetField m \<Rightarrow> WeightSetField_DoSave R readonly m f
      | IntField b \<Rightarrow> bsi_Save R readonly b f
      | FloatField b \<Rightarrow> bsi_Save R readonly b f)"

definition field_DoLoad :: "'b roaring \<Rightarrow> 'b field_index \<Rightarrow> byte list \<Rightarrow> 'b field_index rd" where
  "field_DoLoad R ix bs =
     (case ix of
        SetField m \<Rightarrow> rd_bind (SetField_DoLoad R m bs) (\<lambda>m. Rd (SetField m))
      | BoolField p \<Rightarrow> rd_bind (RoaringBitmap_Load R p bs) (\<lambda>p. Rd (BoolField p))
      | WeightSetField m \<Rightarrow> rd_bind (WeightSetField_DoLoad R m bs) (\<lambda>m. Rd (WeightSetField m))
      | IntField b \<Rightarrow> rd_bind (bsi_Load R b bs) (\<lambda>b. Rd (IntField b))
      | FloatField b \<Rightarrow> rd_bind (bsi_Load R b bs) (\<lambda>b. Rd (FloatField b)))"

definition Field_Save :: "'b roaring \<Rightarrow> protobuf \<Rightarrow> bool \<Rightarrow> 'b RobimsField \<Rightarrow> ofile \<Rightarrow> wr" where
  "Field_Save R PB readonly fld f =
     and_then (file_write_string (meta_bytes PB (f_meta fld)) f) (field_DoSave R readonly (f_index fld))"

definition Field_Load :: "'b roaring \<Rightarrow> protobuf \<Rightarrow> 'b RobimsField \<Rightarrow> byte list \<Rightarrow> 'b RobimsField rd" where
  "Field_Load R PB fld bs =
     rd_bind (file_read_string bs) (\<lambda>meta_bin bs.
       case parse_meta PB meta_bin of
         None \<Rightarrow> RdErr (-1)
       | Some meta \<Rightarrow>
           rd_bind (field_DoLoad R (f_index fld) bs) (\<lambda>ix. Rd (fld\<lparr>f_meta := meta, f_index := ix\<rparr>)))"

section \<open>Collections of named items\<close>

text \<open>The same items under the same names, whatever the order of the two collections.\<close>

definition named_rel :: "('a \<Rightarrow> 'c \<Rightarrow> bool) \<Rightarrow> (string \<times> 'a) list \<Rightarrow> (string \<times> 'c) list \<Rightarrow> bool" where
  "named_rel Q m m' \<longleftrightarrow> distinct (map fst m') \<and> (\<forall>k. rel_option Q (map_of m k) (map_of m' k))"

lemma named_relI:
  assumes "list_all2 (\<lambda>p q. fst p = fst q \<and> Q (snd p) (snd q)) m m'" and "distinct (map fst m)"
  shows "named_rel Q m m'"
proof -
  have "map fst m' = map fst m" using assms(1) by (induction rule: list_all2_induct) auto
  moreover have "rel_option Q (map_of m k) (map_of m' k)" for k
    using assms(1) by (induction rule: list_all2_induct) auto
  ultimately show ?thesis using assms(2) by (simp add: named_rel_def)
qed

text \<open>What the loop of a loader does with the items it read when no name occurs twice.\<close>

lemma fold_named:
  assumes "list_all2 rel m ys" and "distinct (map fst m)"
    and key: "\<And>p y. p \<in> set m \<Longrightarrow> rel p y \<Longrightarrow> key y = fst p \<and> Q (snd p) (val y)"
  shows "\<exists>m'. fold (\<lambda>y s. (fst s \<or> key y \<in> fst ` set (snd s), al_put (key y) (val y) (snd s))) ys (False, [])
    = (False, m') \<and> named_rel Q m m'"
proof -
  have len: "length ys = length m" using assms(1) by (simp add: list_all2_lengthD)
  have nth: "fst (m ! i) = key (ys ! i) \<and> Q (snd (m ! i)) (val (ys ! i))" if "i < length m" for i
    using key[of "m ! i" "ys ! i"] assms(1) that by (simp add: list_all2_conv_all_nth)
  then have two: "list_all2 (\<lambda>p q. fst p = fst q \<and> Q (snd p) (snd q)) m (map (\<lambda>y. (key y, val y)) ys)"
    by (simp add: list_all2_conv_all_nth len)
  moreover have "map key ys = map fst m" using nth by (simp add: list_eq_iff_nth_eq len)
  ultimately show ?thesis
    using named_relI[OF two assms(2)] fold_al_put_flag[of "[]" key ys val] assms(2) by simp
qed


section \<open>Set fields\<close>

definition set_same :: "'b roaring \<Rightarrow> bool \<Rightarrow> 'b NamedRoaringBitmap \<Rightarrow> 'b NamedRoaringBitmap \<Rightarrow> bool" where
  "set_same R readonly nb nb' \<longleftrightarrow>
     nb_name nb' = nb_name nb \<and> rbm_same R readonly (nb_bitmap nb) (nb_bitmap nb')"

text \<open>The names are the keys and everything fits the sizes it is written with.\<close>

definition set_savable :: "'b roaring \<Rightarrow> bool \<Rightarrow> (string \<times> 'b NamedRoaringBitmap) list \<Rightarrow> bool" where
  "set_savable R readonly m \<longleftrightarrow> distinct (map fst m) \<and> length m < 2 ^ 32
     \<and> (\<forall>p \<in> set m. nb_name (snd p) = fst p \<and> length (fst p) < 2 ^ 32 \<and> rbm_savable R readonly (nb_bitmap (snd p)))"

context roaring_api
begin

lemma SetField_Save_Load:
  assumes "SetField_DoSave R readonly m f = Wr 0 f'" and ok: "set_savable R readonly m"
  shows "\<exists>bs. wrote bs f f' \<and> (\<forall>cs. \<exists>m'. SetField_DoLoad R [] (bs @ cs) = Rd m' cs
    \<and> named_rel (set_same R readonly) m m')"
proof -
  let ?key = "\<lambda>y. bytes_string (fst y)"
  let ?val = "\<lambda>y. \<lparr>nb_name = bytes_string (fst y), nb_bitmap = snd y\<rparr>"
  let ?rel = "\<lambda>x y. string_bytes (nb_name (snd x)) = fst y \<and> rbm_same R readonly (nb_bitmap (snd x)) (snd y)"
  let ?ins = "\<lambda>y s. (fst s \<or> ?key y \<in> fst ` set (snd s), al_put (?key y) (?val y) (snd s))"
  have entry: "set_save_entry R readonly = (\<lambda>x f. and_then (file_write_string (string_bytes (nb_name (snd x))) f)
      (RoaringBitmap_Save R readonly (nb_bitmap (snd x))))"
    by (simp add: fun_eq_iff set_save_entry_def)
  note pair = codec_pair[OF string_codec.codec_axioms bitmap_codec.codec_axioms[of readonly new_RoaringBitmap],
      of "\<lambda>x. string_bytes (nb_name (snd x))" "\<lambda>x. nb_bitmap (snd x)"]
  have "\<exists>bs. wrote bs f f' \<and> (\<forall>cs s. \<exists>ys. list_all2 ?rel m ys
     \<and> rd_bind (file_read_uint32 (bs @ cs)) (\<lambda>n. rd_iter (unat n) (set_load_entry R) s) = Rd (fold ?ins ys s) cs)"
    using assms unfolding SetField_DoSave_def set_savable_def
    by (intro codec.save_count_load[OF pair])
      (auto simp: entry set_load_entry_def rd_bind_Rd Let_def)
  then obtain bs where bs: "wrote bs f f'" "\<And>cs. \<exists>ys. list_all2 ?rel m ys
     \<and> rd_bind (file_read_uint32 (bs @ cs)) (\<lambda>n. rd_iter (unat n) (set_load_entry R) (False, []))
        = Rd (fold ?ins ys (False, [])) cs" by blast
  have "\<exists>m'. SetField_DoLoad R [] (bs @ cs) = Rd m' cs \<and> named_rel (set_same R readonly) m m'" for cs
  proof -
    obtain ys where ys: "list_all2 ?rel m ys"
      "rd_bind (file_read_uint32 (bs @ cs)) (\<lambda>n. rd_iter (unat n) (set_load_entry R) (False, []))
        = Rd (fold ?ins ys (False, [])) cs" using bs(2) by blast
    obtain m' where "fold ?ins ys (False, []) = (False, m')" "named_rel (set_same R readonly) m m'"
      using fold_named[OF ys(1), of ?key "set_same R readonly" ?val] ok
      by (auto simp: set_savable_def set_same_def dest!: sym[of "string_bytes _"])
    with ys(2) show ?thesis by (simp add: SetField_DoLoad_def flip: rd_bind_assoc)
  qed
  with bs(1) show ?thesis by blast
qed

end


section \<open>Weight set fields\<close>

text \<open>The count of the weights and the weights.\<close>

definition write_words :: "u64 list \<Rightarrow> ofile \<Rightarrow> wr" where
  "write_words tmp f = and_then (file_write_uint32 (of_nat (length tmp)) f)
     (\<lambda>f. if 0 < length tmp then fwrite_rc (concat (map mem64 tmp)) f else Wr 0 f)"

lemma words_of_concat: "words_of (length ws) (concat (map mem64 ws) @ cs) = ws"
  by (induction ws) simp_all

lemma length_words: "length (concat (map mem64 ws)) = length ws * 8"
  by (induction ws) simp_all

interpretation words_codec: codec write_words "\<lambda>bs. rd_bind (file_read_uint32 bs) read_words"
  "\<lambda>ws. length ws < 2 ^ 32" "(=)"
proof
  fix ws f f' assume s: "write_words ws f = Wr 0 f'" and len: "length ws < 2 ^ 32"
  let ?n = "of_nat (length ws) :: u32"
  have n: "unat ?n = length ws" using len by (simp add: unat_of_nat)
  have "wrote (mem32 (htonl ?n) @ concat (map mem64 ws)) f f'"
    using s by (cases ws) (auto simp: write_words_def and_then_0 file_write_uint32_0 fwrite_rc_0 intro: wrote_trans)
  moreover have "read_words ?n (concat (map mem64 ws) @ cs) = Rd ws cs" for cs
  proof (cases "ws = []")
    case True
    then show ?thesis by (simp add: read_words_def)
  next
    case False
    then have "0 < ?n" using n by (simp add: word_less_nat_alt)
    moreover have "fread (length ws * 8) (concat (map mem64 ws) @ cs) = Rd (concat (map mem64 ws)) cs"
      using False length_words[of ws] by (intro fread_append) auto
    ultimately show ?thesis using words_of_concat[of ws "[]"] by (simp add: read_words_def n)
  qed
  ultimately show "\<exists>bs. wrote bs f f' \<and> (\<forall>cs. \<exists>y. rd_bind (file_read_uint32 (bs @ cs)) read_words = Rd y cs \<and> ws = y)"
    by (intro exI[of _ "mem32 (htonl ?n) @ concat (map mem64 ws)"]) simp
qed

text \<open>Entering a strictly descending list into an empty ordered set gives the list.\<close>

lemma desc_insert_last: "\<forall>y \<in> set ys. x < y \<Longrightarrow> desc_insert x ys = ys @ [x]"
  by (induction ys) auto

lemma fold_desc_insert:
  "strictly_desc (ys @ xs) \<Longrightarrow> fold desc_insert xs ys = ys @ xs"
proof (induction xs arbitrary: ys)
  case (Cons x xs)
  have "x < y" if "y \<in> set ys" for y
    using Cons.prems that by (induction ys) (auto simp: strictly_desc_Cons)
  then show ?case using Cons by (simp add: desc_insert_last)
qed simp


definition weights_finite :: "(u32 \<times> u32) list \<Rightarrow> bool" where
  "weights_finite m \<longleftrightarrow> (\<forall>w \<in> snd ` set m. \<not> float_is_nan w)"

lemma uint32_to_float_key:
  assumes "\<not> float_is_nan w"
  shows "float_eq w (uint32_to_float (float_to_uint32 w))"
proof (cases "w = 0x80000000")
  case True
  then show ?thesis
    by (simp add: float_to_uint32_def uint32_to_float_def float_ge_0_def float_eq_def float_is_nan_def
        float_magnitude_def float_num_def float_sign_def)
next
  case False
  with assms show ?thesis by (simp add: uint32_to_float_to_uint32 float_eq_def)
qed

lemma drop_weight_id: "ucast (drop_bit 32 (weight_id w i)) = float_to_uint32 w"
  by (simp add: weight_id_def ucast_low_sum)

lemma load_weights_map:
  assumes "strictly_desc ws" and "set ws = weight_pairs m" and "weights_finite m"
    and w: "load_weights ws = (ws', m')"
  shows "ws' = ws" and "distinct (map fst m')" and "rel_option float_eq (map_of m i) (map_of m' i)"
proof -
  let ?val = "\<lambda>v. uint32_to_float (ucast (drop_bit 32 (v :: u64)))"
  have m': "m' = fold (\<lambda>v m. al_put (ucast v) (?val v) m) ws []" using w by (simp add: load_weights_def)
  show "ws' = ws" using w assms(1) fold_desc_insert[of "[]" ws] by (simp add: load_weights_def)
  show "distinct (map fst m')" by (simp add: m' distinct_fold_al_put)
  have inj: "inj_on (ucast :: u64 \<Rightarrow> u32) (set ws)"
    unfolding assms(2) by (auto simp: inj_on_def weight_pairs_def)
  show "rel_option float_eq (map_of m i) (map_of m' i)"
  proof (cases "map_of m i")
    case None
    then have "i \<notin> ucast ` set ws" by (auto simp: assms(2) weight_pairs_def)
    then show ?thesis using None map_of_fold_al_put_other[of i ucast ws ?val "[]"] by (simp add: m')
  next
    case (Some x)
    then have "weight_id x i \<in> set ws" by (auto simp: assms(2) weight_pairs_def)
    from map_of_fold_al_put[OF inj this, of ?val "[]"]
    have "map_of m' i = Some (uint32_to_float (float_to_uint32 x))" by (simp add: m' drop_weight_id)
    moreover have "\<not> float_is_nan x" using Some assms(3) by (force simp: weights_finite_def dest: map_of_SomeD)
    ultimately show ?thesis using Some uint32_to_float_key by simp
  qed
qed

definition weight_same :: "'b roaring \<Rightarrow> bool \<Rightarrow> 'b NamedWeightRoaringBitmap \<Rightarrow> 'b NamedWeightRoaringBitmap \<Rightarrow> bool" where
  "weight_same R readonly nw nw' \<longleftrightarrow> nw_name nw' = nw_name nw \<and> nw_wf R nw'
     \<and> nw_weight_ids nw' = nw_weight_ids nw
     \<and> (\<forall>i. rel_option float_eq (map_of (nw_id_weights nw) i) (map_of (nw_id_weights nw') i))
     \<and> rbm_same R readonly (nw_bitmap nw) (nw_bitmap nw')"

definition weight_savable :: "'b roaring \<Rightarrow> bool \<Rightarrow> (string \<times> 'b NamedWeightRoaringBitmap) list \<Rightarrow> bool" where
  "weight_savable R readonly m \<longleftrightarrow> distinct (map fst m) \<and> length m < 2 ^ 32
     \<and> (\<forall>p \<in> set m. nw_name (snd p) = fst p \<and> length (fst p) < 2 ^ 32 \<and> nw_wf R (snd p)
          \<and> weights_finite (nw_id_weights (snd p)) \<and> length (nw_weight_ids (snd p)) < 2 ^ 32
          \<and> rbm_savable R readonly (nw_bitmap (snd p)))"

lemma weight_pairs_rel:
  assumes "\<And>i. rel_option float_eq (map_of m i) (map_of m' i)"
  shows "weight_pairs m' = weight_pairs m" and "dom (map_of m') = dom (map_of m)"
proof -
  have some: "map_of m i = Some w \<Longrightarrow> \<exists>w'. map_of m' i = Some w' \<and> weight_id w' i = weight_id w i" for i w
    using assms[of i] weight_id_eq by (fastforce simp: option_rel_Some1)
  have some': "map_of m' i = Some w \<Longrightarrow> \<exists>w'. map_of m i = Some w' \<and> weight_id w' i = weight_id w i" for i w
    using assms[of i] weight_id_eq by (fastforce simp: option_rel_Some2)
  show "weight_pairs m' = weight_pairs m" unfolding weight_pairs_def by (auto, metis some', metis some)
  show "dom (map_of m') = dom (map_of m)" using some some' by fastforce
qed

lemma weight_sameI:
  assumes "nw_wf R nw" and "weights_finite (nw_id_weights nw)" and "rbm_same R readonly (nw_bitmap nw) p"
  shows "weight_same R readonly nw \<lparr>nw_name = nw_name nw, nw_weight_ids = fst (load_weights (nw_weight_ids nw)),
     nw_id_weights = snd (load_weights (nw_weight_ids nw)), nw_bitmap = p\<rparr>"
proof -
  obtain ws' m' where w: "load_weights (nw_weight_ids nw) = (ws', m')" by (cases "load_weights (nw_weight_ids nw)")
  have wf: "strictly_desc (nw_weight_ids nw)" "set (nw_weight_ids nw) = weight_pairs (nw_id_weights nw)"
    "dom (map_of (nw_id_weights nw)) \<subseteq> rb_bits R (rbm (nw_bitmap nw))"
    using assms(1) by (simp_all add: nw_wf_def)
  note l = load_weights_map[OF wf(1,2) assms(2) w]
  show ?thesis using l wf assms(3) weight_pairs_rel[OF l(3)]
    by (simp add: weight_same_def nw_wf_def w rbm_same_def)
qed


context roaring_api
begin

lemma WeightSetField_Save_Load:
  assumes "WeightSetField_DoSave R readonly m f = Wr 0 f'" and ok: "weight_savable R readonly m"
  shows "\<exists>bs. wrote bs f f' \<and> (\<forall>cs. \<exists>m'. WeightSetField_DoLoad R [] (bs @ cs) = Rd m' cs
    \<and> named_rel (weight_same R readonly) m m')"
proof -
  let ?key = "\<lambda>y. bytes_string (fst y)"
  let ?val = "\<lambda>y. \<lparr>nw_name = bytes_string (fst y), nw_weight_ids = fst (load_weights (fst (snd y))),
      nw_id_weights = snd (load_weights (fst (snd y))), nw_bitmap = snd (snd y)\<rparr>"
  let ?rel = "\<lambda>x y. string_bytes (nw_name (snd x)) = fst y \<and> nw_weight_ids (snd x) = fst (snd y)
      \<and> rbm_same R readonly (nw_bitmap (snd x)) (snd (snd y))"
  let ?ins = "\<lambda>y s. (fst s \<or> ?key y \<in> fst ` set (snd s), al_put (?key y) (?val y) (snd s))"
  let ?inner = "\<lambda>x f. and_then (write_words (nw_weight_ids (snd x)) f) (RoaringBitmap_Save R readonly (nw_bitmap (snd x)))"
  have entry: "weight_save_entry R readonly = (\<lambda>x f. and_then (file_write_string (string_bytes (nw_name (snd x))) f) (?inner x))"
    by (simp add: fun_eq_iff weight_save_entry_def Let_def write_words_def and_then_assoc)
  note inner = codec_pair[OF words_codec.codec_axioms bitmap_codec.codec_axioms[of readonly new_RoaringBitmap],
      of "\<lambda>x. nw_weight_ids (snd x)" "\<lambda>x. nw_bitmap (snd x)"]
  note pair = codec_pair[OF string_codec.codec_axioms inner, of "\<lambda>x. string_bytes (nw_name (snd x))" "\<lambda>x. x"]
  have "\<exists>bs. wrote bs f f' \<and> (\<forall>cs s. \<exists>ys. list_all2 ?rel m ys
     \<and> rd_bind (file_read_uint32 (bs @ cs)) (\<lambda>n. rd_iter (unat n) (weight_load_entry R) s) = Rd (fold ?ins ys s) cs)"
    using assms unfolding WeightSetField_DoSave_def weight_savable_def
    by (intro codec.save_count_load[OF pair])
      (auto simp: entry weight_load_entry_def rd_bind_Rd Let_def)
  then obtain bs where bs: "wrote bs f f'" "\<And>cs. \<exists>ys. list_all2 ?rel m ys
     \<and> rd_bind (file_read_uint32 (bs @ cs)) (\<lambda>n. rd_iter (unat n) (weight_load_entry R) (False, []))
        = Rd (fold ?ins ys (False, [])) cs" by blast
  have "\<exists>m'. WeightSetField_DoLoad R [] (bs @ cs) = Rd m' cs \<and> named_rel (weight_same R readonly) m m'" for cs
  proof -
    obtain ys where ys: "list_all2 ?rel m ys"
      "rd_bind (file_read_uint32 (bs @ cs)) (\<lambda>n. rd_iter (unat n) (weight_load_entry R) (False, []))
        = Rd (fold ?ins ys (False, [])) cs" using bs(2) by blast
    have "?key y = fst x \<and> weight_same R readonly (snd x) (?val y)" if "x \<in> set m" "?rel x y" for x y
    proof -
      have "nw_name (snd x) = fst x" "nw_wf R (snd x)" "weights_finite (nw_id_weights (snd x))"
        using ok that(1) by (auto simp: weight_savable_def)
      moreover have "fst y = string_bytes (nw_name (snd x))" "fst (snd y) = nw_weight_ids (snd x)"
        using that(2) by simp_all
      ultimately show ?thesis using weight_sameI[of R "snd x" readonly "snd (snd y)"] that(2) by simp
    qed
    then obtain m' where "fold ?ins ys (False, []) = (False, m')" "named_rel (weight_same R readonly) m m'"
      using fold_named[OF ys(1), of ?key "weight_same R readonly" ?val] ok by (auto simp: weight_savable_def)
    with ys(2) show ?thesis by (simp add: WeightSetField_DoLoad_def flip: rd_bind_assoc)
  qed
  with bs(1) show ?thesis by blast
qed

end

section \<open>Fields\<close>

text \<open>
  What saving relies on: the index is one of the class that its meta data selects, well-formed, and
  fits the sizes it is written with. The first argument is the index of a new field.
\<close>

fun index_savable :: "'b roaring \<Rightarrow> bool \<Rightarrow> 'b field_index \<Rightarrow> 'b field_index \<Rightarrow> bool" where
  "index_savable R readonly (SetField m0) (SetField m) \<longleftrightarrow> m0 = [] \<and> set_savable R readonly m"
| "index_savable R readonly (BoolField p0) (BoolField p) \<longleftrightarrow> rbm_savable R readonly p"
| "index_savable R readonly (WeightSetField m0) (WeightSetField m) \<longleftrightarrow> m0 = [] \<and> weight_savable R readonly m"
| "index_savable R readonly (IntField b0) (IntField b) \<longleftrightarrow>
     bsi_wf b \<and> bsi_savable R readonly b \<and> options b0 = options b \<and> bit_depth b0 = bit_depth b"
| "index_savable R readonly (FloatField b0) (FloatField b) \<longleftrightarrow>
     bsi_wf b \<and> bsi_savable R readonly b \<and> options b0 = options b \<and> bit_depth b0 = bit_depth b"
| "index_savable R readonly _ _ \<longleftrightarrow> False"

definition bsi_same :: "'b roaring \<Rightarrow> 'b bsi \<Rightarrow> 'b bsi \<Rightarrow> bool" where
  "bsi_same R b c \<longleftrightarrow> bsi_wf c \<and> options c = options b \<and> bit_depth c = bit_depth b
     \<and> bsi_ids R c = bsi_ids R b \<and> bsi_val R c = bsi_val R b"

fun index_same :: "'b roaring \<Rightarrow> bool \<Rightarrow> 'b field_index \<Rightarrow> 'b field_index \<Rightarrow> bool" where
  "index_same R readonly (SetField m) (SetField m') \<longleftrightarrow> named_rel (set_same R readonly) m m'"
| "index_same R readonly (BoolField p) (BoolField p') \<longleftrightarrow> rbm_same R readonly p p'"
| "index_same R readonly (WeightSetField m) (WeightSetField m') \<longleftrightarrow> named_rel (weight_same R readonly) m m'"
| "index_same R readonly (IntField b) (IntField b') \<longleftrightarrow> bsi_same R b b'"
| "index_same R readonly (FloatField b) (FloatField b') \<longleftrightarrow> bsi_same R b b'"
| "index_same R readonly _ _ \<longleftrightarrow> False"

context roaring_api
begin

lemma bsi_Save_Load_same:
  assumes "bsi_Save R readonly b f = Wr 0 f'"
    and "bsi_wf b" "bsi_savable R readonly b" "options b0 = options b" "bit_depth b0 = bit_depth b"
  shows "\<exists>bs. wrote bs f f' \<and> (\<forall>cs. \<exists>c. bsi_Load R b0 (bs @ cs) = Rd c cs \<and> bsi_same R b c)"
proof -
  obtain bs where bs: "wrote bs f f'" "\<And>cs. \<exists>ys. list_all2 (rbm_same R readonly) (bitmaps b) ys
     \<and> bsi_Load R b0 (bs @ cs) = Rd (b0\<lparr>bitmaps := ys
         @ drop (length ys) (bitmaps b0 @ replicate (length ys) new_RoaringBitmap)\<rparr>) cs"
    using bsi_Save_Load_list[OF assms(1,3), of b0] by blast
  have "\<exists>c. bsi_Load R b0 (bs @ cs) = Rd c cs \<and> bsi_same R b c" for cs
    using bs(2)[of cs] same_rows[OF _ assms(2) refl assms(5)] assms(4,5)
    by (fastforce simp: bsi_same_def fun_eq_iff)
  with bs(1) show ?thesis by blast
qed

lemma load_under:
  assumes "\<exists>bs. wrote bs f f' \<and> (\<forall>cs. \<exists>y. load (bs @ cs) = Rd y cs \<and> Q y)"
    and "\<And>bs. load' bs = rd_bind (load bs) (\<lambda>y. Rd (C y))" and "\<And>y. Q y \<Longrightarrow> Q' (C y)"
  shows "\<exists>bs. wrote bs f f' \<and> (\<forall>cs. \<exists>y. load' (bs @ cs) = Rd y cs \<and> Q' y)"
  using assms by (fastforce simp: rd_bind_Rd)

lemma field_DoSave_DoLoad:
  assumes "field_DoSave R readonly ix f = Wr 0 f'" and "index_savable R readonly ix0 ix"
  shows "\<exists>bs. wrote bs f f' \<and> (\<forall>cs. \<exists>ix'. field_DoLoad R ix0 (bs @ cs) = Rd ix' cs \<and> index_same R readonly ix ix')"
  using assms
proof (cases ix0)
  case (SetField m0)
  then obtain m where "ix = SetField m" using assms(2) by (cases ix) auto
  then show ?thesis using SetField assms
    by (intro load_under[where C = SetField, OF SetField_Save_Load]) (auto simp: field_DoSave_def field_DoLoad_def)
next
  case (BoolField p0)
  then obtain p where "ix = BoolField p" using assms(2) by (cases ix) auto
  then show ?thesis using BoolField assms
    by (intro load_under[where C = BoolField, OF RoaringBitmap_Save_Load]) (auto simp: field_DoSave_def field_DoLoad_def)
next
  case (WeightSetField m0)
  then obtain m where "ix = WeightSetField m" using assms(2) by (cases ix) auto
  then show ?thesis using WeightSetField assms
    by (intro load_under[where C = WeightSetField, OF WeightSetField_Save_Load]) (auto simp: field_DoSave_def field_DoLoad_def)
next
  case (IntField b0)
  then obtain b where "ix = IntField b" using assms(2) by (cases ix) auto
  then show ?thesis using IntField assms
    by (intro load_under[where C = IntField, OF bsi_Save_Load_same]) (auto simp: field_DoSave_def field_DoLoad_def)
next
  case (FloatField b0)
  then obtain b where "ix = FloatField b" using assms(2) by (cases ix) auto
  then show ?thesis using FloatField assms
    by (intro load_under[where C = FloatField, OF bsi_Save_Load_same]) (auto simp: field_DoSave_def field_DoLoad_def)
qed

end


text \<open>The environment of everything that is stored: the bitmaps and the messages.\<close>

locale storage_env = roaring_api R + protobuf_api PB
  for R :: "'b roaring" and PB :: protobuf
begin

lemma Field_Save_Load:
  assumes "Field_Save R PB readonly fld f = Wr 0 f'" and "index_savable R readonly (f_index fld0) (f_index fld)"
    and "length (meta_bytes PB (f_meta fld)) < 2 ^ 32"
  shows "\<exists>bs. wrote bs f f' \<and> (\<forall>cs. \<exists>fld'. Field_Load R PB fld0 (bs @ cs) = Rd fld' cs
    \<and> f_meta fld' = f_meta fld \<and> index_same R readonly (f_index fld) (f_index fld'))"
proof -
  obtain f1 where f1: "file_write_string (meta_bytes PB (f_meta fld)) f = Wr 0 f1"
    "field_DoSave R readonly (f_index fld) f1 = Wr 0 f'"
    using assms(1) by (auto simp: Field_Save_def and_then_0)
  obtain b1 where b1: "wrote b1 f f1" "\<And>cs. file_read_string (b1 @ cs) = Rd (meta_bytes PB (f_meta fld)) cs"
    using string_codec.save_load[OF f1(1) assms(3)] by blast
  obtain b2 where b2: "wrote b2 f1 f'"
    "\<And>cs. \<exists>ix'. field_DoLoad R (f_index fld0) (b2 @ cs) = Rd ix' cs \<and> index_same R readonly (f_index fld) ix'"
    using field_DoSave_DoLoad[OF f1(2) assms(2)] by blast
  have "\<exists>fld'. Field_Load R PB fld0 ((b1 @ b2) @ cs) = Rd fld' cs
    \<and> f_meta fld' = f_meta fld \<and> index_same R readonly (f_index fld) (f_index fld')" for cs
    using b1(2)[of "b2 @ cs"] b2(2)[of cs] by (fastforce simp: Field_Load_def)
  with wrote_trans[OF b1(1) b2(1)] show ?thesis by blast
qed

end

interpretation plain_env: storage_env list_roaring plain_pb ..

end
