(* ===== verification/RobimsIdMapping.thy ===== *)
theory RobimsIdMapping
  imports RobimsIO
begin

text \<open>
  The mapping between the identifiers of documents and the dense 32-bit numbers the bitmaps hold:
  the interface \<^verbatim>\<open>IDMapping\<close> of \<^verbatim>\<open>robims/robims_id_mapping.h\<close> and its implementation
  \<^verbatim>\<open>SimpleIDMapping\<close>. The two hash maps are association lists in their order of iteration. The
  forward map owns the strings the keys of both maps refer to.
\<close>

record SimpleIDMapping =
  real_local_mapping :: "(string \<times> u32) list"
  local_real_mapping :: "(u32 \<times> string) list"
  id_seed :: u32

definition new_SimpleIDMapping :: SimpleIDMapping where
  "new_SimpleIDMapping = \<lparr>real_local_mapping = [], local_real_mapping = [], id_seed = 0\<rparr>"

text \<open>\<open>None\<close> is the return code \<open>- 1\<close>.\<close>

definition GetLocalID :: "string \<Rightarrow> bool \<Rightarrow> SimpleIDMapping \<Rightarrow> u32 option \<times> SimpleIDMapping" where
  "GetLocalID real create_ifnotexist m =
     (case map_of (real_local_mapping m) real of
        Some l \<Rightarrow> (Some l, m)
      | None \<Rightarrow>
          if \<not> create_ifnotexist then (None, m)
          else (Some (id_seed m),
                m\<lparr>id_seed := id_seed m + 1,
                  real_local_mapping := al_put real (id_seed m) (real_local_mapping m),
                  local_real_mapping := al_put (id_seed m) real (local_real_mapping m)\<rparr>))"

definition GetID :: "u32 \<Rightarrow> SimpleIDMapping \<Rightarrow> string option" where
  "GetID local m = map_of (local_real_mapping m) local"

definition idmap_save_entry :: "string \<times> u32 \<Rightarrow> ofile \<Rightarrow> wr" where
  "idmap_save_entry p f = and_then (file_write_uint32 (snd p) f) (file_write_string (string_bytes (fst p)))"

definition idmap_Save :: "SimpleIDMapping \<Rightarrow> ofile \<Rightarrow> wr" where
  "idmap_Save m f =
     and_then (file_write_uint32 (id_seed m) f) (\<lambda>f.
     and_then (file_write_uint32 (of_nat (length (real_local_mapping m))) f)
       (save_each idmap_save_entry (real_local_mapping m)))"

text \<open>
  A real identifier that is entered again replaces the pair that owns the string of the key. The
  first component of the loop state records that a key refers to freed memory.
\<close>

definition idmap_load_entry :: "bool \<times> SimpleIDMapping \<Rightarrow> byte list \<Rightarrow> (bool \<times> SimpleIDMapping) rd" where
  "idmap_load_entry s bs =
     rd_bind (file_read_uint32 bs) (\<lambda>local bs.
     rd_bind (file_read_string bs) (\<lambda>n.
       let real = bytes_string n; m = snd s
       in Rd (fst s \<or> real \<in> fst ` set (real_local_mapping m),
              m\<lparr>real_local_mapping := al_put real local (real_local_mapping m),
                local_real_mapping := al_put local real (local_real_mapping m)\<rparr>)))"

definition idmap_Load :: "SimpleIDMapping \<Rightarrow> byte list \<Rightarrow> SimpleIDMapping rd" where
  "idmap_Load m bs =
     rd_bind (file_read_uint32 bs) (\<lambda>seed bs.
     rd_bind (file_read_uint32 bs) (\<lambda>n bs.
     rd_bind (rd_iter (unat n) idmap_load_entry (False, m\<lparr>id_seed := seed\<rparr>) bs) (\<lambda>s bs.
       if fst s then Undef else Rd (snd s) bs)))"

section \<open>The contract of an identifier mapping\<close>

text \<open>
  As long as there is room for new numbers, a number that was given out stands for its identifier
  for good and for no other. \<open>room\<close> is the number of identifiers that can still be entered.
\<close>

locale id_mapping =
  fixes get_local :: "string \<Rightarrow> bool \<Rightarrow> 'm \<Rightarrow> u32 option \<times> 'm"
    and get_id :: "u32 \<Rightarrow> 'm \<Rightarrow> string option"
    and inv :: "'m \<Rightarrow> bool"
    and room :: "'m \<Rightarrow> nat"
  assumes get_local_inv: "inv m \<Longrightarrow> 0 < room m \<Longrightarrow> inv (snd (get_local s c m)) \<and> room m \<le> Suc (room (snd (get_local s c m)))"
    and get_id_local: "inv m \<Longrightarrow> 0 < room m \<Longrightarrow> fst (get_local s c m) = Some l \<Longrightarrow> get_id l (snd (get_local s c m)) = Some s"
    and get_id_mono: "inv m \<Longrightarrow> 0 < room m \<Longrightarrow> get_id l m = Some t \<Longrightarrow> get_id l (snd (get_local s c m)) = Some t"
    and get_local_known: "inv m \<Longrightarrow> get_id l m = Some s \<Longrightarrow> get_local s c m = (Some l, m)"
    and get_local_create: "fst (get_local s True m) \<noteq> None"
begin

definition ask :: "(string \<times> bool) list \<Rightarrow> 'm \<Rightarrow> 'm" where
  "ask qs m = fold (\<lambda>q m. snd (get_local (fst q) (snd q) m)) qs m"

lemma ask_keeps:
  assumes "inv m" and "length qs \<le> room m"
  shows "inv (ask qs m) \<and> room m \<le> length qs + room (ask qs m) \<and> (\<forall>l t. get_id l m = Some t \<longrightarrow> get_id l (ask qs m) = Some t)"
  using assms
proof (induction qs arbitrary: m)
  case Nil
  then show ?case by (simp add: ask_def)
next
  case (Cons q qs)
  let ?m = "snd (get_local (fst q) (snd q) m)"
  have r: "0 < room m" using Cons.prems(2) by simp
  note k = get_local_inv[OF Cons.prems(1) r, of "fst q" "snd q"]
  have "length qs \<le> room ?m" using k Cons.prems(2) by simp
  from Cons.IH[of ?m] this k show ?case
    using get_id_mono[OF Cons.prems(1) r, of _ _ "fst q" "snd q"] by (auto simp: ask_def)
qed

text \<open>A number that was given out keeps its identifier, and the identifier keeps its number.\<close>

lemma ask_stable:
  assumes "inv m" and "Suc (length qs) \<le> room m" and "get_local s c m = (Some l, m1)"
  shows "get_id l (ask qs m1) = Some s \<and> (\<forall>c. get_local s c (ask qs m1) = (Some l, ask qs m1))
    \<and> (\<forall>t c. fst (get_local t c (ask qs m1)) = Some l \<longrightarrow> Suc (Suc (length qs)) \<le> room m \<longrightarrow> t = s)"
proof -
  have r: "0 < room m" using assms(2) by simp
  have m1: "inv m1" "length qs \<le> room m1" "get_id l m1 = Some s"
    using get_local_inv[OF assms(1) r, of s c] get_id_local[OF assms(1) r, of s c] assms(2,3) by auto
  have k: "inv (ask qs m1)" "get_id l (ask qs m1) = Some s" "room m1 \<le> length qs + room (ask qs m1)"
    using ask_keeps[OF m1(1,2)] m1(3) by auto
  have "t = s" if t: "fst (get_local t c' (ask qs m1)) = Some l" and "Suc (Suc (length qs)) \<le> room m" for t c'
  proof -
    have "0 < room (ask qs m1)"
      using that(2) k(3) get_local_inv[OF assms(1) r, of s c] assms(3) by simp
    from get_id_local[OF k(1) this t] get_id_mono[OF k(1) this k(2), of t c'] show ?thesis by simp
  qed
  with k get_local_known[OF k(1,2)] show ?thesis by blast
qed

end

section \<open>The implementation meets the contract\<close>

definition idmap_inv :: "SimpleIDMapping \<Rightarrow> bool" where
  "idmap_inv m \<longleftrightarrow> distinct (map fst (real_local_mapping m)) \<and> distinct (map fst (local_real_mapping m))
     \<and> (\<forall>r l. map_of (real_local_mapping m) r = Some l \<longleftrightarrow> map_of (local_real_mapping m) l = Some r)
     \<and> (\<forall>l \<in> dom (map_of (local_real_mapping m)). l < id_seed m)"

definition idmap_room :: "SimpleIDMapping \<Rightarrow> nat" where
  "idmap_room m = 2 ^ 32 - 1 - unat (id_seed m)"

lemma idmap_inv_new: "idmap_inv new_SimpleIDMapping" "idmap_room new_SimpleIDMapping = 2 ^ 32 - 1"
  by (simp_all add: idmap_inv_def new_SimpleIDMapping_def idmap_room_def)

lemma seed_fresh: "idmap_inv m \<Longrightarrow> map_of (local_real_mapping m) (id_seed m) = None"
  by (cases "map_of (local_real_mapping m) (id_seed m)") (force simp: idmap_inv_def)+

lemma seed_step: "0 < idmap_room m \<Longrightarrow> unat (id_seed m + 1) = Suc (unat (id_seed m))"
  by (simp add: idmap_room_def unat_word_ariths)

lemma GetLocalID_new_inv:
  assumes inv: "idmap_inv m" and room: "0 < idmap_room m" and new: "map_of (real_local_mapping m) s = None"
  shows "idmap_inv (m\<lparr>id_seed := id_seed m + 1, real_local_mapping := al_put s (id_seed m) (real_local_mapping m),
    local_real_mapping := al_put (id_seed m) s (local_real_mapping m)\<rparr>)"
proof -
  have lt: "id_seed m < id_seed m + 1" using seed_step[OF room] by (simp add: word_less_nat_alt)
  have bij: "map_of (real_local_mapping m) r = Some l \<longleftrightarrow> map_of (local_real_mapping m) l = Some r" for r l
    using inv by (simp add: idmap_inv_def)
  have no_s: "map_of (local_real_mapping m) l \<noteq> Some s" for l using new bij[of s l] by simp
  have no_seed: "map_of (real_local_mapping m) r \<noteq> Some (id_seed m)" for r
    using seed_fresh[OF inv] bij[of r "id_seed m"] by simp
  have old: "l < id_seed m + 1" if "map_of (local_real_mapping m) l = Some r" for l r
    using inv that lt by (force simp: idmap_inv_def dom_def)
  show ?thesis using inv lt old no_s no_seed by (auto simp: idmap_inv_def bij)
qed

interpretation simple_id: id_mapping GetLocalID GetID idmap_inv idmap_room
proof
  fix m s c l t
  assume inv: "idmap_inv m" and room: "0 < idmap_room m"
  show "idmap_inv (snd (GetLocalID s c m)) \<and> idmap_room m \<le> Suc (idmap_room (snd (GetLocalID s c m)))"
    using inv room GetLocalID_new_inv[OF inv room, of s] seed_step[OF room]
    by (auto simp: GetLocalID_def idmap_room_def split: option.splits)
  show "GetID l (snd (GetLocalID s c m)) = Some s" if "fst (GetLocalID s c m) = Some l"
  proof (cases "map_of (real_local_mapping m) s")
    case None
    then show ?thesis using that by (auto simp: GetLocalID_def GetID_def split: if_splits)
  next
    case (Some k)
    then have "map_of (local_real_mapping m) k = Some s" using inv by (simp add: idmap_inv_def)
    then show ?thesis using that Some by (simp add: GetLocalID_def GetID_def)
  qed
  show "GetID l (snd (GetLocalID s c m)) = Some t" if "GetID l m = Some t"
    using that seed_fresh[OF inv] by (auto simp: GetLocalID_def GetID_def split: option.splits)
next
  fix m s c l
  assume "idmap_inv m" and "GetID l m = Some s"
  then have "map_of (real_local_mapping m) s = Some l" by (simp add: idmap_inv_def GetID_def)
  then show "GetLocalID s c m = (Some l, m)" by (simp add: GetLocalID_def)
next
  fix m s show "fst (GetLocalID s True m) \<noteq> None" by (simp add: GetLocalID_def split: option.splits)
qed

section \<open>Saving and loading\<close>

text \<open>Every identifier fits its length field. The empty string can not be written.\<close>

definition idmap_savable :: "SimpleIDMapping \<Rightarrow> bool" where
  "idmap_savable m \<longleftrightarrow> length (real_local_mapping m) < 2 ^ 32 \<and> (\<forall>p \<in> set (real_local_mapping m). length (fst p) < 2 ^ 32)"

text \<open>The same mapping, whatever the order of the hash maps.\<close>

definition idmap_same :: "SimpleIDMapping \<Rightarrow> SimpleIDMapping \<Rightarrow> bool" where
  "idmap_same m m' \<longleftrightarrow> idmap_inv m' \<and> id_seed m' = id_seed m
     \<and> map_of (real_local_mapping m') = map_of (real_local_mapping m)
     \<and> map_of (local_real_mapping m') = map_of (local_real_mapping m)"

lemma idmap_load_fold:
  assumes "list_all2 (\<lambda>p y. snd p = fst y \<and> string_bytes (fst p) = snd y) ps ys"
    and "distinct (map fst (real_local_mapping m) @ map fst ps)"
  shows "fold (\<lambda>y s. (fst s \<or> bytes_string (snd y) \<in> fst ` set (real_local_mapping (snd s)),
       (snd s)\<lparr>real_local_mapping := al_put (bytes_string (snd y)) (fst y) (real_local_mapping (snd s)),
              local_real_mapping := al_put (fst y) (bytes_string (snd y)) (local_real_mapping (snd s))\<rparr>)) ys (False, m)
    = (False, m\<lparr>real_local_mapping := real_local_mapping m @ ps,
         local_real_mapping := fold (\<lambda>p n. al_put (snd p) (fst p) n) ps (local_real_mapping m)\<rparr>)"
  using assms
proof (induction ps ys arbitrary: m rule: list_all2_induct)
  case Nil
  then show ?case by simp
next
  case (Cons p ps y ys)
  have y: "fst y = snd p" "bytes_string (snd y) = fst p" using Cons.hyps(1) bytes_string_bytes[of "fst p"] by simp_all
  have "fst p \<notin> fst ` set (real_local_mapping m)" using Cons.prems by auto
  then have "al_put (fst p) (snd p) (real_local_mapping m) = real_local_mapping m @ [p]"
    by (simp add: al_put_fresh)
  then show ?case using Cons.IH[of "m\<lparr>real_local_mapping := real_local_mapping m @ [p],
      local_real_mapping := al_put (snd p) (fst p) (local_real_mapping m)\<rparr>"] Cons.prems \<open>fst p \<notin> _\<close>
    by (simp add: y)
qed


lemma map_of_swapped:
  assumes "idmap_inv m"
  shows "map_of (fold (\<lambda>p n. al_put (snd p) (fst p) n) (real_local_mapping m) []) = map_of (local_real_mapping m)"
proof (rule ext)
  fix l
  let ?ps = "real_local_mapping m"
  have d: "distinct (map fst ?ps)" and bij: "\<And>r l. map_of ?ps r = Some l \<longleftrightarrow> map_of (local_real_mapping m) l = Some r"
    using assms by (auto simp: idmap_inv_def simp del: map_of_eq_Some_iff)
  have mem: "p \<in> set ?ps \<longleftrightarrow> map_of (local_real_mapping m) (snd p) = Some (fst p)" for p
    using d bij[of "fst p" "snd p"] by simp
  have inj: "inj_on snd (set ?ps)" by (auto simp: inj_on_def mem)
  show "map_of (fold (\<lambda>p n. al_put (snd p) (fst p) n) ?ps []) l = map_of (local_real_mapping m) l"
  proof (cases "map_of (local_real_mapping m) l")
    case None
    then have "l \<notin> snd ` set ?ps" by (auto simp: mem)
    then show ?thesis using None map_of_fold_al_put_other[of l snd ?ps fst "[]"] by simp
  next
    case (Some r)
    then have "(r, l) \<in> set ?ps" by (simp add: mem)
    from map_of_fold_al_put[OF inj this, of fst "[]"] show ?thesis using Some by simp
  qed
qed

lemma idmap_Save_Load:
  assumes save: "idmap_Save m f = Wr 0 f'" and inv: "idmap_inv m" and ok: "idmap_savable m"
  shows "\<exists>bs. wrote bs f f' \<and> (\<forall>cs. \<exists>m'. idmap_Load new_SimpleIDMapping (bs @ cs) = Rd m' cs \<and> idmap_same m m')"
proof -
  let ?ps = "real_local_mapping m"
  let ?rel = "\<lambda>p y. snd p = fst y \<and> string_bytes (fst p) = snd y"
  let ?ins = "\<lambda>y s. (fst s \<or> bytes_string (snd y) \<in> fst ` set (real_local_mapping (snd s)),
       (snd s)\<lparr>real_local_mapping := al_put (bytes_string (snd y)) (fst y) (real_local_mapping (snd s)),
              local_real_mapping := al_put (fst y) (bytes_string (snd y)) (local_real_mapping (snd s))\<rparr>)"
  let ?s0 = "(False, new_SimpleIDMapping\<lparr>id_seed := id_seed m\<rparr>)"
  have entry: "idmap_save_entry = (\<lambda>p f. and_then (file_write_uint32 (snd p) f) (file_write_string (string_bytes (fst p))))"
    by (simp add: fun_eq_iff idmap_save_entry_def)
  obtain f1 where f1: "wrote (mem32 (htonl (id_seed m))) f f1"
    "and_then (file_write_uint32 (of_nat (length ?ps)) f1) (save_each idmap_save_entry ?ps) = Wr 0 f'"
    using save by (auto simp: idmap_Save_def and_then_0 file_write_uint32_0)
  note pair = codec_pair[OF uint32_codec.codec_axioms string_codec.codec_axioms, of snd "\<lambda>p. string_bytes (fst p)"]
  have "\<exists>bs. wrote bs f1 f' \<and> (\<forall>cs s. \<exists>ys. list_all2 ?rel ?ps ys
     \<and> rd_bind (file_read_uint32 (bs @ cs)) (\<lambda>n. rd_iter (unat n) idmap_load_entry s) = Rd (fold ?ins ys s) cs)"
    using f1(2) ok unfolding idmap_savable_def
    by (intro codec.save_count_load[OF pair]) (auto simp: entry idmap_load_entry_def rd_bind_Rd Let_def)
  then obtain bs where bs: "wrote bs f1 f'" "\<And>cs. \<exists>ys. list_all2 ?rel ?ps ys
     \<and> rd_bind (file_read_uint32 (bs @ cs)) (\<lambda>n. rd_iter (unat n) idmap_load_entry ?s0) = Rd (fold ?ins ys ?s0) cs"
    by blast
  have "\<exists>m'. idmap_Load new_SimpleIDMapping ((mem32 (htonl (id_seed m)) @ bs) @ cs) = Rd m' cs \<and> idmap_same m m'" for cs
  proof -
    obtain ys where ys: "list_all2 ?rel ?ps ys"
      "rd_bind (file_read_uint32 (bs @ cs)) (\<lambda>n. rd_iter (unat n) idmap_load_entry ?s0) = Rd (fold ?ins ys ?s0) cs"
      using bs(2) by blast
    have "distinct (map fst ?ps)" using inv by (simp add: idmap_inv_def)
    from idmap_load_fold[OF ys(1), of "snd ?s0"] this
    have "\<exists>m'. idmap_Load new_SimpleIDMapping ((mem32 (htonl (id_seed m)) @ bs) @ cs) = Rd m' cs
        \<and> m' = \<lparr>real_local_mapping = ?ps, local_real_mapping = fold (\<lambda>p n. al_put (snd p) (fst p) n) ?ps [],
            id_seed = id_seed m\<rparr>"
      using ys(2) by (simp add: idmap_Load_def new_SimpleIDMapping_def flip: rd_bind_assoc)
    then show ?thesis
      using inv map_of_swapped[OF inv]
      by (auto simp: idmap_same_def idmap_inv_def distinct_fold_al_put simp del: map_of_eq_Some_iff)
  qed
  with wrote_trans[OF f1(1) bs(1)] show ?thesis by blast
qed

lemma save_each_fails:
  assumes "\<exists>p \<in> set ps. \<forall>f f'. save p f \<noteq> Wr 0 f'"
  shows "save_each save ps f \<noteq> Wr 0 f'"
  using assms by (induction ps arbitrary: f) (auto simp: and_then_0)

section \<open>Properties\<close>

text \<open>
  C10. As long as fewer than \<open>2\<^sup>3\<^sup>2\<close> requests are made of a new mapping, a number that was
  given out for an identifier is translated back to it for good, the identifier always gets the same
  number, and no other identifier ever gets that number.
\<close>

theorem id_mapping_stable:
  assumes "m = fold (\<lambda>q m. snd (GetLocalID (fst q) (snd q) m)) before new_SimpleIDMapping"
    and "GetLocalID s c m = (Some l, m1)"
    and "m2 = fold (\<lambda>q m. snd (GetLocalID (fst q) (snd q) m)) after m1"
    and "length before + length after + 2 < 2 ^ 32"
  shows "GetID l m2 = Some s \<and> GetLocalID s d m2 = (Some l, m2)
    \<and> (fst (GetLocalID t d m2) = Some l \<longrightarrow> t = s)"
proof -
  have m: "m = simple_id.ask before new_SimpleIDMapping" "m2 = simple_id.ask after m1"
    using assms(1,3) by (simp_all add: simple_id.ask_def)
  have "idmap_inv m" "2 ^ 32 - 1 \<le> length before + idmap_room m"
    using simple_id.ask_keeps[OF idmap_inv_new(1), of before] assms(4) by (simp_all add: m idmap_inv_new)
  with simple_id.ask_stable[OF _ _ assms(2), of after] assms(4) show ?thesis by (auto simp: m)
qed

theorem id_mapping_stable_witness:
  "GetID 1 (snd (GetLocalID ''c'' True (snd (GetLocalID ''b'' True (snd (GetLocalID ''a'' True new_SimpleIDMapping))))))
    = Some ''b''"
  using id_mapping_stable[of _ "[(''a'', True)]" "''b''" True 1 _ _ "[(''c'', True)]" False "''c''", OF refl _ refl]
  by (simp add: GetLocalID_def new_SimpleIDMapping_def)

text \<open>
  When a mapping in step has been saved without an error, loading the bytes
  that were written into a new mapping succeeds, consumes exactly these bytes and gives a mapping that
  answers every request as the saved one does.
\<close>

theorem id_mapping_save_load:
  assumes "idmap_Save m f = Wr 0 f'" and "idmap_inv m" and "idmap_savable m"
  shows "\<exists>bs. o_data f' = o_data f @ bs \<and> (\<forall>cs. \<exists>m'. idmap_Load new_SimpleIDMapping (bs @ cs) = Rd m' cs
    \<and> idmap_inv m' \<and> (\<forall>l. GetID l m' = GetID l m)
    \<and> (\<forall>s c. fst (GetLocalID s c m') = fst (GetLocalID s c m)))"
proof -
  obtain bs where bs: "wrote bs f f'"
    "\<And>cs. \<exists>m'. idmap_Load new_SimpleIDMapping (bs @ cs) = Rd m' cs \<and> idmap_same m m'"
    using idmap_Save_Load[OF assms] by blast
  have "idmap_same m m' \<Longrightarrow> idmap_inv m' \<and> (\<forall>l. GetID l m' = GetID l m)
    \<and> (\<forall>s c. fst (GetLocalID s c m') = fst (GetLocalID s c m))" for m'
    by (auto simp: idmap_same_def GetID_def GetLocalID_def split: option.splits)
  with bs show ?thesis by (metis wrote_def)
qed

theorem id_mapping_save_load_witness:
  "\<exists>f'. idmap_Save (snd (GetLocalID ''a'' True new_SimpleIDMapping)) \<lparr>o_data = [], o_space = 100\<rparr> = Wr 0 f'
    \<and> (\<exists>m'. idmap_Load new_SimpleIDMapping (o_data f') = Rd m' [] \<and> GetID 0 m' = Some ''a'')"
proof -
  let ?m = "snd (GetLocalID ''a'' True new_SimpleIDMapping)" and ?f = "\<lparr>o_data = [], o_space = 100\<rparr> :: ofile"
  have m: "?m = \<lparr>real_local_mapping = [(''a'', 0)], local_real_mapping = [(0, ''a'')], id_seed = 1\<rparr>"
    by (simp add: GetLocalID_def new_SimpleIDMapping_def)
  have "\<exists>f'. idmap_Save ?m ?f = Wr 0 f'"
    by (simp add: m idmap_Save_def idmap_save_entry_def file_write_uint32_def file_write_string_def
        fwrite_rc_def fwrite_def string_bytes_def)
  then obtain f' where f': "idmap_Save ?m ?f = Wr 0 f'" by blast
  have "idmap_inv ?m" "idmap_savable ?m" by (auto simp: m idmap_inv_def idmap_savable_def split: if_splits)
  from id_mapping_save_load[OF f' this] obtain bs where "o_data f' = bs"
    "\<And>cs. \<exists>m'. idmap_Load new_SimpleIDMapping (bs @ cs) = Rd m' cs \<and> (\<forall>l. GetID l m' = GetID l ?m)"
    by auto blast
  from this(2)[of "[]"] f' this(1) show ?thesis by (auto simp: m GetID_def)
qed

text \<open>
  Once a document with the empty string as its identifier is known, the mapping
  can never be saved: for whatever file, \<^verbatim>\<open>Save\<close> does not return 0.
\<close>

theorem id_mapping_empty_id:
  assumes "[] \<in> fst ` set (real_local_mapping m)"
  shows "idmap_Save m f \<noteq> Wr 0 f'"
proof -
  obtain l where "([], l) \<in> set (real_local_mapping m)" using assms by auto
  moreover have "idmap_save_entry ([], l) g \<noteq> Wr 0 g'" for g g'
    by (simp add: idmap_save_entry_def and_then_0 file_write_string_0 string_bytes_def)
  ultimately show ?thesis
    using save_each_fails[of "real_local_mapping m" idmap_save_entry] by (fastforce simp: idmap_Save_def and_then_0)
qed

theorem id_mapping_empty_id_witness:
  "\<forall>f'. idmap_Save (snd (GetLocalID [] True new_SimpleIDMapping)) \<lparr>o_data = [], o_space = 1000\<rparr> \<noteq> Wr 0 f'"
  by (intro allI id_mapping_empty_id) (simp add: GetLocalID_def new_SimpleIDMapping_def)

end
