(* ===== verification/RobimsTable.thy ===== *)
theory RobimsTable
  imports RobimsFieldIO RobimsIdMapping
begin

text \<open>
  A table: \<^verbatim>\<open>robims/robims_table.cpp\<close>. The fields of a table are in a hash map whose keys are views
  of names. \<open>t_dangling\<close> records that a key refers to freed memory, which happens when the schema
  has two fields of one name: the second one replaces the first one, which owns the string of the
  key. A lookup in such a map is undefined behaviour. The identifier mapping is shared by the tables of
  a database and passed along. \<open>None\<close> as the result of an operation means undefined behaviour.
\<close>

section \<open>JSON documents\<close>

text \<open>
  The simdjson library is not part of the repository. The accessors the table uses are the fields of
  a record over an abstract type of JSON values; \<open>None\<close> is an error result. The library parses on
  demand; what an accessor returns is taken to be a function of the document and the key, or of the
  value.
\<close>

record 'v simdjson =
  js_iterate :: "string \<Rightarrow> bool"  \<comment> \<open>the document can be opened from a padded copy\<close>
  js_iterate_unpadded :: "string \<Rightarrow> bool"  \<comment> \<open>the document can be opened from a plain string\<close>
  js_find :: "string \<Rightarrow> string \<Rightarrow> 'v option"
  js_find_unordered :: "string \<Rightarrow> string \<Rightarrow> 'v option"
  js_is_null :: "'v \<Rightarrow> bool"
  js_string :: "'v \<Rightarrow> string option"
  js_int64 :: "'v \<Rightarrow> i64 option"
  js_double :: "'v \<Rightarrow> u64 option"
  js_bool :: "'v \<Rightarrow> bool option"
  js_array :: "'v \<Rightarrow> 'v list option"
  js_object :: "'v \<Rightarrow> (string \<times> 'v) list option"
  js_raw_token :: "'v \<Rightarrow> string"

section \<open>State\<close>

record 'b RobimsTable =
  t_schema :: TableSchema
  t_fields :: "(string \<times> 'b RobimsField) list"
  t_id_bitmap :: "'b RoaringBitmap"
  t_dangling :: bool

definition new_RobimsTable :: "'b RobimsTable" where
  "new_RobimsTable =
     \<lparr>t_schema = \<lparr>ts_name = [], ts_id_field = [], ts_index_field = [], ts_disable_local_id_creation = False\<rparr>,
      t_fields = [], t_id_bitmap = new_RoaringBitmap, t_dangling = False\<rparr>"

text \<open>\<^verbatim>\<open>IsReadonly\<close>.\<close>

definition Table_IsReadonly :: "'b RobimsTable \<Rightarrow> bool" where
  "Table_IsReadonly t = rb_readonly (t_id_bitmap t)"

section \<open>Creation\<close>

text \<open>The key of a field is a view of the name in its own meta data.\<close>

fun init_fields :: "'b roaring \<Rightarrow> fpu \<Rightarrow> FieldMeta list \<Rightarrow> 'b RobimsTable \<Rightarrow> int \<times> 'b RobimsTable" where
  "init_fields R F [] t = (0, t)"
| "init_fields R F (meta # metas) t =
     (case FieldBuilder_Build R F meta of
        None \<Rightarrow> (-1, t)
      | Some fld \<Rightarrow>
          let name = fm_name (f_meta fld)
          in init_fields R F metas
               (t\<lparr>t_dangling := t_dangling t \<or> name \<in> fst ` set (t_fields t),
                  t_fields := al_put name fld (t_fields t)\<rparr>))"

definition Table_Init :: "'b roaring \<Rightarrow> fpu \<Rightarrow> TableSchema \<Rightarrow> 'b RobimsTable \<Rightarrow> int \<times> 'b RobimsTable" where
  "Table_Init R F schema t =
     init_fields R F (ts_index_field schema)
       (t\<lparr>t_schema := schema, t_id_bitmap := NewCRoaringBitmap R (t_id_bitmap t)\<rparr>)"

section \<open>Lookup and selection\<close>

text \<open>The inner \<open>None\<close> is the null pointer.\<close>

definition Table_GetField :: "string \<Rightarrow> 'b RobimsTable \<Rightarrow> 'b RobimsField option option" where
  "Table_GetField name t = (if t_dangling t then None else Some (map_of (t_fields t) name))"

definition Table_Select :: "'b roaring \<Rightarrow> fpu \<Rightarrow> string \<Rightarrow> FieldOperator \<Rightarrow> FieldArg \<Rightarrow> 'b RobimsTable
    \<Rightarrow> (int \<times> 'b option) option" where
  "Table_Select R F name op arg t =
     (if t_dangling t then None
      else case map_of (t_fields t) name of
             None \<Rightarrow> Some (ROBIMS_ERR_NOTFOUND, None)
           | Some fld \<Rightarrow> Some (Field_Select R F (rbm (t_id_bitmap t)) fld op arg))"

section \<open>Documents\<close>

definition id_view :: "'v simdjson \<Rightarrow> string \<Rightarrow> string \<Rightarrow> string option" where
  "id_view J json id_field =
     (case js_find J json id_field of
        None \<Rightarrow> None
      | Some v \<Rightarrow>
          if js_is_null J v then None
          else case js_string J v of
                 Some s \<Rightarrow> Some s
               | None \<Rightarrow> (case js_int64 J v of Some i \<Rightarrow> Some (js_raw_token J v) | None \<Rightarrow> None))"

definition Table_GetLocalId :: "'v simdjson \<Rightarrow> string \<Rightarrow> SimpleIDMapping \<Rightarrow> 'b RobimsTable
    \<Rightarrow> u32 option \<times> SimpleIDMapping" where
  "Table_GetLocalId J json m t =
     (case id_view J json (ts_id_field (t_schema t)) of
        None \<Rightarrow> (None, m)
      | Some s \<Rightarrow> GetLocalID s (\<not> ts_disable_local_id_creation (t_schema t)) m)"

text \<open>
  \<^verbatim>\<open>Remove\<close> converts the result of opening the document without a look at its error, which throws an
  exception: \<open>None\<close>. The value of a local variable that is not initialised may differ from field to
  field.
\<close>

definition Table_Remove :: "'b roaring \<Rightarrow> 'v simdjson \<Rightarrow> (string \<Rightarrow> i64 \<times> u32) \<Rightarrow> string
    \<Rightarrow> SimpleIDMapping \<times> 'b RobimsTable \<Rightarrow> (int \<times> SimpleIDMapping \<times> 'b RobimsTable) option" where
  "Table_Remove R J garbage json s =
     (if \<not> js_iterate_unpadded J json then None
      else case Table_GetLocalId J json (fst s) (snd s) of
             (None, m) \<Rightarrow> Some (-1, m, snd s)
           | (Some idx, m) \<Rightarrow>
               Some (0, m, (snd s)\<lparr>t_fields :=
                 map (\<lambda>(k, fld). (k, snd (Field_Remove R (fst (garbage k)) (snd (garbage k)) idx fld)))
                   (t_fields (snd s))\<rparr>))"

text \<open>
  The update of one field from the document. The result is the return code, 0 to go on, and the
  field after it. The elements of an array and the members of an object are entered one by one until
  one is of the wrong type.
\<close>

fun put_strings :: "'b roaring \<Rightarrow> 'v simdjson \<Rightarrow> u32 \<Rightarrow> 'v list \<Rightarrow> 'b RobimsField \<Rightarrow> int \<times> 'b RobimsField" where
  "put_strings R J idx [] fld = (0, fld)"
| "put_strings R J idx (v # vs) fld =
     (case js_string J v of
        None \<Rightarrow> (-1, fld)
      | Some s \<Rightarrow> put_strings R J idx vs (snd (Field_Put_str R idx s fld)))"

fun put_weights :: "'b roaring \<Rightarrow> fpu \<Rightarrow> 'v simdjson \<Rightarrow> u32 \<Rightarrow> (string \<times> 'v) list \<Rightarrow> 'b RobimsField
    \<Rightarrow> int \<times> 'b RobimsField" where
  "put_weights R F J idx [] fld = (0, fld)"
| "put_weights R F J idx ((k, v) # kvs) fld =
     (case js_double J v of
        None \<Rightarrow> (-1, fld)
      | Some d \<Rightarrow> put_weights R F J idx kvs (snd (Field_Put_weight R idx k (d2f F d) fld)))"

definition put_field :: "'b roaring \<Rightarrow> fpu \<Rightarrow> 'v simdjson \<Rightarrow> (i64 \<times> u32) \<Rightarrow> u32 \<Rightarrow> 'v option
    \<Rightarrow> 'b RobimsField \<Rightarrow> (int \<times> 'b RobimsField) option" where
  "put_field R F J g idx field_result fld =
     (let removed = snd (Field_Remove R (fst g) (snd g) idx fld)
      in case fm_index_type (f_meta fld) of
           SET_INDEX \<Rightarrow>
             (case field_result of
                None \<Rightarrow> Some (0, fld)
              | Some v \<Rightarrow> (case js_array J v of None \<Rightarrow> Some (-1, fld) | Some vs \<Rightarrow> Some (put_strings R J idx vs removed)))
         | MUTEX_INDEX \<Rightarrow>
             (case field_result of
                None \<Rightarrow> Some (0, fld)
              | Some v \<Rightarrow> (case js_string J v of None \<Rightarrow> Some (-1, fld)
                            | Some s \<Rightarrow> Some (0, snd (Field_Put_str R idx s removed))))
         | BOOL_INDEX \<Rightarrow>
             (case field_result of
                None \<Rightarrow> map_option (\<lambda>r. (0, snd r)) (Field_Put_int R idx 0 fld)
              | Some v \<Rightarrow> (case js_bool J v of None \<Rightarrow> Some (-1, fld)
                            | Some b \<Rightarrow> map_option (\<lambda>r. (0, snd r)) (Field_Put_int R idx (if b then 1 else 0) fld)))
         | WEIGHT_SET_INDEX \<Rightarrow>
             (case field_result of
                None \<Rightarrow> Some (0, fld)
              | Some v \<Rightarrow> (case js_object J v of None \<Rightarrow> Some (-1, fld)
                            | Some kvs \<Rightarrow> Some (put_weights R F J idx kvs removed)))
         | INT_INDEX \<Rightarrow>
             (case field_result of
                None \<Rightarrow> Some (0, fld)
              | Some v \<Rightarrow> (case js_int64 J v of None \<Rightarrow> Some (-1, fld)
                            | Some i \<Rightarrow> map_option (\<lambda>r. (0, snd r)) (Field_Put_int R idx i fld)))
         | FLOAT_INDEX \<Rightarrow>
             (case field_result of
                None \<Rightarrow> Some (0, fld)
              | Some v \<Rightarrow> (case js_double J v of None \<Rightarrow> Some (-1, fld)
                            | Some d \<Rightarrow> map_option (\<lambda>r. (0, snd r)) (Field_Put_float R idx (d2f F d) fld)))
         | UNKNOWN_INDEX \<Rightarrow> Some (0, fld))"

text \<open>The loop over the fields stops at the first one that fails.\<close>

fun put_fields :: "'b roaring \<Rightarrow> fpu \<Rightarrow> 'v simdjson \<Rightarrow> (string \<Rightarrow> i64 \<times> u32) \<Rightarrow> u32 \<Rightarrow> string
    \<Rightarrow> (string \<times> 'b RobimsField) list \<Rightarrow> (int \<times> (string \<times> 'b RobimsField) list) option" where
  "put_fields R F J garbage idx json [] = Some (0, [])"
| "put_fields R F J garbage idx json ((k, fld) # flds) =
     Option.bind (put_field R F J (garbage k) idx (js_find_unordered J json k) fld) (\<lambda>(rc, fld').
       if rc \<noteq> 0 then Some (rc, (k, fld') # flds)
       else map_option (\<lambda>(rc, flds'). (rc, (k, fld') # flds')) (put_fields R F J garbage idx json flds))"

definition Table_Put :: "'b roaring \<Rightarrow> fpu \<Rightarrow> 'v simdjson \<Rightarrow> (string \<Rightarrow> i64 \<times> u32) \<Rightarrow> string
    \<Rightarrow> SimpleIDMapping \<times> 'b RobimsTable \<Rightarrow> (int \<times> SimpleIDMapping \<times> 'b RobimsTable) option" where
  "Table_Put R F J garbage json s =
     (if \<not> js_iterate J json then Some (-1, s)
      else case Table_GetLocalId J json (fst s) (snd s) of
             (None, m) \<Rightarrow> Some (-1, m, snd s)
           | (Some idx, m) \<Rightarrow>
               (let t = snd s; p = t_id_bitmap t;
                    t1 = t\<lparr>t_id_bitmap := p\<lparr>rbp := Some (rb_add R (rbm p) idx)\<rparr>\<rparr>
                in if t_dangling t then None
                   else map_option (\<lambda>(rc, flds). (rc, m, t1\<lparr>t_fields := flds\<rparr>))
                          (put_fields R F J garbage idx json (t_fields t))))"

end
