(* ===== verification/RobimsTableProps.thy ===== *)
theory RobimsTableProps
  imports RobimsTable
begin

text \<open>
  What the operations of a table keep and what they promise: the class of every field is the one its
  meta data selects, an identifier has at most one value of a mutex field, and a selection after a
  put finds the document under what it says.
\<close>

section \<open>The invariant of a field\<close>

text \<open>The class of the index is the one \<^verbatim>\<open>RobimsFieldBuilder\<close> selects for the meta data.\<close>

definition field_typed :: "'b RobimsField \<Rightarrow> bool" where
  "field_typed fld \<longleftrightarrow>
     (case fm_index_type (f_meta fld) of
        MUTEX_INDEX \<Rightarrow> (\<exists>m. f_index fld = SetField m)
      | SET_INDEX \<Rightarrow> (\<exists>m. f_index fld = SetField m)
      | BOOL_INDEX \<Rightarrow> (\<exists>p. f_index fld = BoolField p)
      | WEIGHT_SET_INDEX \<Rightarrow> (\<exists>m. f_index fld = WeightSetField m)
      | INT_INDEX \<Rightarrow> (\<exists>b. f_index fld = IntField b)
      | FLOAT_INDEX \<Rightarrow> (\<exists>b. f_index fld = FloatField b)
      | UNKNOWN_INDEX \<Rightarrow> False)"

definition mutex_ok :: "'b roaring \<Rightarrow> 'b RobimsField \<Rightarrow> bool" where
  "mutex_ok R fld \<longleftrightarrow>
     (fm_index_type (f_meta fld) = MUTEX_INDEX \<longrightarrow>
        (\<forall>m x t u. f_index fld = SetField m \<longrightarrow> x \<in> set_tags R m t \<longrightarrow> x \<in> set_tags R m u \<longrightarrow> t = u))"

lemmas field_cases = FieldIndexType.splits field_index.splits

lemma Build_typed:
  assumes "FieldBuilder_Build R F meta = Some fld"
  shows "field_typed fld" and "f_meta fld = meta" and "mutex_ok R fld"
  using assms
  by (auto simp: FieldBuilder_Build_def field_OnInit_def field_typed_def mutex_ok_def set_tags_def
      split: FieldIndexType.splits)

lemma Field_Remove_meta: "f_meta (snd (Field_Remove R gi gf idx fld)) = f_meta fld"
  by (auto simp: Field_Remove_def split: field_index.splits prod.splits)

lemma Field_Remove_typed: "field_typed fld \<Longrightarrow> field_typed (snd (Field_Remove R gi gf idx fld))"
  by (auto simp: field_typed_def Field_Remove_def split: FieldIndexType.splits prod.splits)

lemma Field_Put_str_typed:
  "field_typed fld \<Longrightarrow> field_typed (snd (Field_Put_str R idx s fld)) \<and> f_meta (snd (Field_Put_str R idx s fld)) = f_meta fld"
  by (auto simp: field_typed_def Field_Put_str_def split: FieldIndexType.splits)

lemma Field_Put_weight_typed:
  "field_typed fld \<Longrightarrow> field_typed (snd (Field_Put_weight R idx s w fld)) \<and> f_meta (snd (Field_Put_weight R idx s w fld)) = f_meta fld"
  by (auto simp: field_typed_def Field_Put_weight_def split: FieldIndexType.splits)

lemma put_strings_typed:
  "field_typed fld \<Longrightarrow> field_typed (snd (put_strings R J idx vs fld)) \<and> f_meta (snd (put_strings R J idx vs fld)) = f_meta fld"
  by (induction R J idx vs fld rule: put_strings.induct) (simp_all add: Field_Put_str_typed split: option.split)

lemma put_weights_typed:
  "field_typed fld \<Longrightarrow> field_typed (snd (put_weights R F J idx kvs fld)) \<and> f_meta (snd (put_weights R F J idx kvs fld)) = f_meta fld"
  by (induction R F J idx kvs fld rule: put_weights.induct) (simp_all add: Field_Put_weight_typed split: option.split)

lemma Field_Put_int_typed:
  "Field_Put_int R idx i fld = Some (rc, fld') \<Longrightarrow> field_typed fld \<Longrightarrow> field_typed fld' \<and> f_meta fld' = f_meta fld"
  by (auto simp: field_typed_def Field_Put_int_def split: FieldIndexType.splits field_index.splits)

lemma Field_Put_float_typed:
  "Field_Put_float R idx i fld = Some (rc, fld') \<Longrightarrow> field_typed fld \<Longrightarrow> field_typed fld' \<and> f_meta fld' = f_meta fld"
  by (auto simp: field_typed_def Field_Put_float_def split: FieldIndexType.splits field_index.splits)

lemma put_field_typed:
  assumes "put_field R F J g idx v fld = Some (rc, fld')" and "field_typed fld"
  shows "field_typed fld' \<and> f_meta fld' = f_meta fld"
proof -
  let ?rem = "snd (Field_Remove R (fst g) (snd g) idx fld)"
  have rem: "field_typed ?rem" "f_meta ?rem = f_meta fld"
    using Field_Remove_typed[OF assms(2)] Field_Remove_meta by blast+
  have ss: "field_typed fld' \<and> f_meta fld' = f_meta fld" if "put_strings R J idx vs ?rem = (rc, fld')" for vs
    using put_strings_typed[OF rem(1), of R J idx vs] rem(2) that by simp
  have ws: "field_typed fld' \<and> f_meta fld' = f_meta fld" if "put_weights R F J idx vs ?rem = (rc, fld')" for vs
    using put_weights_typed[OF rem(1), of R F J idx vs] rem(2) that by simp
  show ?thesis
    using assms Field_Put_str_typed[OF rem(1), of R idx] rem(2)
    by (auto simp: put_field_def Let_def split: FieldIndexType.splits option.splits
        dest: ss ws Field_Put_int_typed Field_Put_float_typed)
qed

section \<open>Strings of a document\<close>

text \<open>The strings of an array up to the first element that is none.\<close>

definition json_strings :: "'v simdjson \<Rightarrow> 'v list \<Rightarrow> string list" where
  "json_strings J vs = map (\<lambda>v. the (js_string J v)) (takeWhile (\<lambda>v. js_string J v \<noteq> None) vs)"

lemma put_strings_eq:
  "f_index fld = SetField m \<Longrightarrow> put_strings R J idx vs fld
     = (if \<forall>v \<in> set vs. js_string J v \<noteq> None then 0 else -1,
        fld\<lparr>f_index := SetField (fold (SetField_Put R idx) (json_strings J vs) m)\<rparr>)"
proof (induction R J idx vs fld arbitrary: m rule: put_strings.induct)
  case (2 R J idx v vs fld)
  then show ?case by (auto simp: json_strings_def Field_Put_str_def split: option.splits)
qed (simp add: json_strings_def)

context roaring_api
begin

lemma set_tags_fold:
  "set_tags R (fold (SetField_Put R x) ss m) t = (if t \<in> set ss then insert x (set_tags R m t) else set_tags R m t)"
  by (induction ss arbitrary: m) (auto simp: set_field.tags_put)

lemma set_tags_remove: "set_tags R (SetField_Remove R x m) t = set_tags R m t - {x}"
  by (rule set_field.tags_del)

lemma put_field_mutex:
  assumes "put_field R F J g idx v fld = Some (rc, fld')" and "field_typed fld" and "mutex_ok R fld"
  shows "mutex_ok R fld'"
proof (cases "fm_index_type (f_meta fld) = MUTEX_INDEX \<and> fld' \<noteq> fld")
  case True
  then obtain m where m: "f_index fld = SetField m" using assms(2) by (auto simp: field_typed_def)
  obtain s where "fld' = fld\<lparr>f_index := SetField (SetField_Put R idx s (SetField_Remove R idx m))\<rparr>"
    using True assms(1) m
    by (auto simp: put_field_def Let_def Field_Put_str_def Field_Remove_def split: option.splits)
  then show ?thesis
    using assms(3) m True by (auto simp: mutex_ok_def set_field.tags_put set_field.tags_del split: if_splits)
next
  case False
  then show ?thesis using assms put_field_typed[OF assms(1,2)] by (auto simp: mutex_ok_def)
qed

lemma Field_Remove_mutex:
  assumes "field_typed fld" and "mutex_ok R fld"
  shows "mutex_ok R (snd (Field_Remove R gi gf idx fld))"
  using assms
  by (auto simp: mutex_ok_def Field_Remove_def set_field.tags_del field_typed_def split: field_index.splits prod.splits)

end

section \<open>The invariant of a table\<close>

definition table_wf :: "'b roaring \<Rightarrow> 'b RobimsTable \<Rightarrow> bool" where
  "table_wf R t \<longleftrightarrow> \<not> t_dangling t \<and> rbp (t_id_bitmap t) \<noteq> None \<and> distinct (map fst (t_fields t))
     \<and> map (\<lambda>p. f_meta (snd p)) (t_fields t) = ts_index_field (t_schema t)
     \<and> (\<forall>p \<in> set (t_fields t). fm_name (f_meta (snd p)) = fst p \<and> field_typed (snd p) \<and> mutex_ok R (snd p))"

text \<open>The states a table can get into; other tables may use the identifier mapping in between.\<close>

inductive table_reachable :: "'b roaring \<Rightarrow> fpu \<Rightarrow> 'v simdjson \<Rightarrow> TableSchema
    \<Rightarrow> SimpleIDMapping \<times> 'b RobimsTable \<Rightarrow> bool" for R F J schema where
  init: "Table_Init R F schema new_RobimsTable = (0, t) \<Longrightarrow> table_reachable R F J schema (m, t)"
| put: "table_reachable R F J schema s \<Longrightarrow> Table_Put R F J garbage json s = Some (rc, s') \<Longrightarrow>
    table_reachable R F J schema s'"
| remove: "table_reachable R F J schema s \<Longrightarrow> Table_Remove R J garbage json s = Some (rc, s') \<Longrightarrow>
    table_reachable R F J schema s'"
| mapping: "table_reachable R F J schema (m, t) \<Longrightarrow> table_reachable R F J schema (m', t)"

lemma init_fields_frame:
  "init_fields R F metas t = (rc, t') \<Longrightarrow> t_schema t' = t_schema t \<and> t_id_bitmap t' = t_id_bitmap t"
  by (induction R F metas t rule: init_fields.induct) (auto simp: Let_def split: option.splits)

text \<open>What \<^verbatim>\<open>Init\<close> builds when no name occurs twice.\<close>

lemma init_fields_distinct:
  assumes "init_fields R F metas t = (0, t')" and "\<not> t_dangling t"
    and "distinct (map fst (t_fields t) @ map fm_name metas)"
  shows "\<not> t_dangling t' \<and> (\<exists>flds. t_fields t' = t_fields t @ map (\<lambda>fld. (fm_name (f_meta fld), fld)) flds
    \<and> list_all2 (\<lambda>meta fld. FieldBuilder_Build R F meta = Some fld) metas flds)"
  using assms
proof (induction R F metas t rule: init_fields.induct)
  case (1 R F t)
  then show ?case by simp
next
  case (2 R F meta metas t)
  then obtain fld where fld: "FieldBuilder_Build R F meta = Some fld" by (auto split: option.splits)
  then have meta: "f_meta fld = meta" by (rule Build_typed)
  have new: "fm_name meta \<notin> fst ` set (t_fields t)" using "2.prems"(3) by auto
  let ?t1 = "t\<lparr>t_dangling := False, t_fields := t_fields t @ [(fm_name meta, fld)]\<rparr>"
  have "init_fields R F metas ?t1 = (0, t')"
    using "2.prems"(1,2) fld meta new by (simp add: al_put_fresh)
  then have "\<not> t_dangling t' \<and> (\<exists>flds. t_fields t' = t_fields ?t1 @ map (\<lambda>fld. (fm_name (f_meta fld), fld)) flds
      \<and> list_all2 (\<lambda>meta fld. FieldBuilder_Build R F meta = Some fld) metas flds)"
    using "2.IH"[OF fld refl] "2.prems"(2,3) meta new by (simp add: al_put_fresh)
  then obtain flds where "\<not> t_dangling t'"
    "t_fields t' = t_fields ?t1 @ map (\<lambda>fld. (fm_name (f_meta fld), fld)) flds"
    "list_all2 (\<lambda>meta fld. FieldBuilder_Build R F meta = Some fld) metas flds" by blast
  then show ?case using fld meta by (intro conjI exI[of _ "fld # flds"]) simp_all
qed

lemma Table_Init_wf:
  assumes "Table_Init R F schema new_RobimsTable = (0, t)" and "distinct (map fm_name (ts_index_field schema))"
  shows "table_wf R t \<and> t_schema t = schema"
proof -
  let ?t0 = "new_RobimsTable\<lparr>t_schema := schema, t_id_bitmap := NewCRoaringBitmap R (t_id_bitmap new_RobimsTable)\<rparr>"
  have run: "init_fields R F (ts_index_field schema) ?t0 = (0, t)" using assms(1) by (simp add: Table_Init_def)
  from init_fields_distinct[OF run] assms(2) obtain flds where f: "\<not> t_dangling t"
    "t_fields t = map (\<lambda>fld. (fm_name (f_meta fld), fld)) flds"
    "list_all2 (\<lambda>meta fld. FieldBuilder_Build R F meta = Some fld) (ts_index_field schema) flds"
    by (auto simp: new_RobimsTable_def)
  have metas: "map f_meta flds = ts_index_field schema"
    using f(3) by (induction rule: list_all2_induct) (auto simp: Build_typed)
  have "field_typed fld \<and> mutex_ok R fld" if "fld \<in> set flds" for fld
    using f(3) that by (induction rule: list_all2_induct) (auto intro: Build_typed)
  moreover have "distinct (map (\<lambda>fld. fm_name (f_meta fld)) flds)"
    using assms(2) by (simp add: comp_def flip: metas)
  ultimately show ?thesis
    using init_fields_frame[OF run] f metas
    by (auto simp: table_wf_def NewCRoaringBitmap_def new_RoaringBitmap_def comp_def)
qed

lemma put_fields_rel:
  "put_fields R F J garbage idx json flds = Some (rc, flds') \<Longrightarrow>
     list_all2 (\<lambda>p q. fst q = fst p \<and> (snd q = snd p
        \<or> (\<exists>rc'. put_field R F J (garbage (fst p)) idx (js_find_unordered J json (fst p)) (snd p) = Some (rc', snd q)))) flds flds'"
proof (induction R F J garbage idx json flds arbitrary: rc flds' rule: put_fields.induct)
  case (2 R F J garbage idx json k fld flds)
  then show ?case by (auto simp: list_all2_refl bind_eq_Some_conv split: if_splits prod.splits)
qed simp

text \<open>When the loop went through, every field was put.\<close>

lemma put_fields_0:
  "put_fields R F J garbage idx json flds = Some (0, flds') \<Longrightarrow>
     list_all2 (\<lambda>p q. fst q = fst p
       \<and> put_field R F J (garbage (fst p)) idx (js_find_unordered J json (fst p)) (snd p) = Some (0, snd q)) flds flds'"
  by (induction R F J garbage idx json flds arbitrary: flds' rule: put_fields.induct)
    (auto simp: bind_eq_Some_conv split: if_splits prod.splits)

context roaring_api
begin

lemma table_wf_fields:
  assumes "table_wf R t" and "list_all2 (\<lambda>p q. fst q = fst p \<and> f_meta (snd q) = f_meta (snd p)
      \<and> field_typed (snd q) \<and> mutex_ok R (snd q)) (t_fields t) flds"
    and "t' = t\<lparr>t_id_bitmap := p, t_fields := flds\<rparr>" and "rbp p \<noteq> None"
  shows "table_wf R t'"
proof -
  have "map fst flds = map fst (t_fields t)" "map (\<lambda>p. f_meta (snd p)) flds = map (\<lambda>p. f_meta (snd p)) (t_fields t)"
    using assms(2) by (induction rule: list_all2_induct) auto
  moreover have "fm_name (f_meta (snd q)) = fst q \<and> field_typed (snd q) \<and> mutex_ok R (snd q)" if q: "q \<in> set flds" for q
  proof -
    obtain i where i: "i < length flds" "q = flds ! i" using q by (auto simp: in_set_conv_nth)
    then have "t_fields t ! i \<in> set (t_fields t)" using assms(2) by (simp add: list_all2_lengthD)
    then show ?thesis using assms(1,2) i by (simp add: table_wf_def list_all2_conv_all_nth)
  qed
  ultimately show ?thesis using assms(1,3,4) by (simp add: table_wf_def)
qed

end

lemma Table_Put_cases:
  assumes "Table_Put R F J garbage json (m, t) = Some (rc, s')"
  obtains (refused) "rc = -1" "snd s' = t"
  | (written) idx m' flds where "Table_GetLocalId J json m t = (Some idx, m')"
      "put_fields R F J garbage idx json (t_fields t) = Some (rc, flds)"
      "s' = (m', t\<lparr>t_id_bitmap := (t_id_bitmap t)\<lparr>rbp := Some (rb_add R (rbm (t_id_bitmap t)) idx)\<rparr>, t_fields := flds\<rparr>)"
  using assms by (auto simp: Table_Put_def Let_def split: if_splits prod.splits option.splits)

context roaring_api
begin

lemma Table_Put_wf:
  assumes "Table_Put R F J garbage json s = Some (rc, s')" and wf: "table_wf R (snd s)"
  shows "table_wf R (snd s') \<and> t_schema (snd s') = t_schema (snd s)"
proof -
  obtain m t where s: "s = (m, t)" by (cases s)
  show ?thesis
    using assms(1)[unfolded s]
  proof (cases rule: Table_Put_cases)
    case refused
    then show ?thesis using wf s by simp
  next
    case (written idx m' flds)
    have old: "field_typed (snd p) \<and> mutex_ok R (snd p)" if "p \<in> set (t_fields t)" for p
      using wf that by (simp add: table_wf_def s)
    have "list_all2 (\<lambda>p q. fst q = fst p \<and> f_meta (snd q) = f_meta (snd p)
        \<and> field_typed (snd q) \<and> mutex_ok R (snd q)) (t_fields t) flds"
    proof (rule list.rel_mono_strong[OF put_fields_rel[OF written(2)]], goal_cases)
      case (1 p q)
      then show ?case using old[OF 1(1)] put_field_typed put_field_mutex by metis
    qed
    from table_wf_fields[OF _ this refl] wf show ?thesis by (simp add: written(3) s)
  qed
qed

lemma Table_Remove_wf:
  assumes "Table_Remove R J garbage json s = Some (rc, s')" and wf: "table_wf R (snd s)"
  shows "table_wf R (snd s') \<and> t_schema (snd s') = t_schema (snd s)"
proof -
  obtain m t where s: "s = (m, t)" by (cases s)
  consider "snd s' = t" | idx where "snd s' = t\<lparr>t_fields :=
      map (\<lambda>(k, fld). (k, snd (Field_Remove R (fst (garbage k)) (snd (garbage k)) idx fld))) (t_fields t)\<rparr>"
    using assms(1) by (auto simp: Table_Remove_def s split: if_splits prod.splits option.splits)
  then show ?thesis
  proof cases
    case 1
    then show ?thesis using wf s by simp
  next
    case 2
    have "list_all2 (\<lambda>p q. fst q = fst p \<and> f_meta (snd q) = f_meta (snd p)
        \<and> field_typed (snd q) \<and> mutex_ok R (snd q)) (t_fields t)
        (map (\<lambda>(k, fld). (k, snd (Field_Remove R (fst (garbage k)) (snd (garbage k)) idx fld))) (t_fields t))"
      using wf Field_Remove_typed Field_Remove_mutex
      by (force simp: list_all2_map2 list_all2_same table_wf_def s Field_Remove_meta)
    from table_wf_fields[OF _ this, of _ "t_id_bitmap t"] wf 2 show ?thesis by (simp add: s table_wf_def)
  qed
qed

lemma reachable_wf:
  assumes "table_reachable R F J schema s" and "distinct (map fm_name (ts_index_field schema))"
  shows "table_wf R (snd s) \<and> t_schema (snd s) = schema"
  using assms(1)
proof induction
  case (init t m)
  then show ?case using Table_Init_wf assms(2) by simp
next
  case (put s garbage json rc s')
  then show ?case using Table_Put_wf by blast
next
  case (remove s garbage json rc s')
  then show ?case using Table_Remove_wf by blast
qed simp

end

text \<open>A name that occurs twice leaves a dangling key.\<close>

lemma init_fields_dangling:
  assumes "init_fields R F metas t = (0, t')" and "distinct (map fst (t_fields t))"
  shows "t_dangling t' \<longleftrightarrow> t_dangling t \<or> \<not> distinct (map fst (t_fields t) @ map fm_name metas)"
  using assms
proof (induction R F metas t rule: init_fields.induct)
  case (1 R F t)
  then show ?case by simp
next
  case (2 R F meta metas t)
  then obtain fld where fld: "FieldBuilder_Build R F meta = Some fld" by (auto split: option.splits)
  let ?t1 = "t\<lparr>t_dangling := t_dangling t \<or> fm_name meta \<in> fst ` set (t_fields t),
      t_fields := al_put (fm_name meta) fld (t_fields t)\<rparr>"
  have run: "init_fields R F metas ?t1 = (0, t')" using "2.prems"(1) fld Build_typed(2)[OF fld] by (simp add: Let_def)
  have "t_dangling t' \<longleftrightarrow> t_dangling ?t1 \<or> \<not> distinct (map fst (t_fields ?t1) @ map fm_name metas)"
    using "2.IH"[OF fld refl] run "2.prems"(2) Build_typed(2)[OF fld] by simp
  then show ?case
  proof (cases "fm_name meta \<in> fst ` set (t_fields t)")
    case False
    then show ?thesis using \<open>t_dangling t' \<longleftrightarrow> _\<close> by (auto simp: al_put_fresh)
  next
    case True
    then show ?thesis using \<open>t_dangling t' \<longleftrightarrow> _\<close> by auto
  qed
qed

section \<open>Selections\<close>

text \<open>The identifiers an equality selection returns; none when it does not return 0.\<close>

definition eq_ids :: "'b roaring \<Rightarrow> fpu \<Rightarrow> string \<Rightarrow> FieldArg \<Rightarrow> 'b RobimsTable \<Rightarrow> u32 set" where
  "eq_ids R F name arg t =
     (case Table_Select R F name FIELD_OP_EQ arg t of Some (rc, Some b) \<Rightarrow> if rc = 0 then rb_bits R b else {} | _ \<Rightarrow> {})"

text \<open>The tags a document has in a set or a mutex field.\<close>

definition doc_tags :: "'v simdjson \<Rightarrow> FieldIndexType \<Rightarrow> 'v \<Rightarrow> string set option" where
  "doc_tags J ty v =
     (case ty of
        SET_INDEX \<Rightarrow> map_option (\<lambda>vs. set (json_strings J vs)) (js_array J v)
      | MUTEX_INDEX \<Rightarrow> map_option (\<lambda>s. {s}) (js_string J v)
      | _ \<Rightarrow> None)"

lemma table_wf_field:
  assumes "table_wf R t" and "meta \<in> set (ts_index_field (t_schema t))"
  obtains fld where "map_of (t_fields t) (fm_name meta) = Some fld" "f_meta fld = meta" "field_typed fld" "mutex_ok R fld"
    "(fm_name meta, fld) \<in> set (t_fields t)"
proof -
  have "meta \<in> (\<lambda>p. f_meta (snd p)) ` set (t_fields t)" using assms by (simp add: table_wf_def flip: set_map)
  then obtain p where p: "p \<in> set (t_fields t)" "meta = f_meta (snd p)" by blast
  then have wf: "fst p = fm_name meta" "field_typed (snd p)" "mutex_ok R (snd p)" "distinct (map fst (t_fields t))"
    using assms(1) by (simp_all add: table_wf_def)
  have mem: "(fm_name meta, snd p) \<in> set (t_fields t)" using wf(1) p(1) by (metis prod.collapse)
  show thesis by (rule that[OF map_of_is_SomeI[OF wf(4) mem] p(2)[symmetric] wf(2,3) mem])
qed

lemma list_all2_map_of:
  assumes "list_all2 (\<lambda>p q. fst q = fst p \<and> P (fst p) (snd p) (snd q)) m m'" and "map_of m k = Some x"
  shows "\<exists>y. map_of m' k = Some y \<and> P k x y"
  using assms by (induction rule: list_all2_induct) (auto split: if_splits)

context roaring_api
begin

lemma eq_ids_set:
  assumes "table_wf R t" and "map_of (t_fields t) k = Some fld" and "f_index fld = SetField m"
  shows "eq_ids R F k (ArgStr a) t = set_tags R m a"
  using assms by (auto simp: eq_ids_def Table_Select_def Field_Select_def SetField_Select_def table_wf_def set_tags_def
      robims_codes split: option.splits)

lemma put_field_tags:
  assumes "put_field R F J g idx (Some v) fld = Some (0, fld')" and "f_index fld = SetField m"
    and "doc_tags J (fm_index_type (f_meta fld)) v = Some tags"
  shows "\<exists>m'. f_index fld' = SetField m'
    \<and> (\<forall>a. set_tags R m' a = (if a \<in> tags then insert idx (set_tags R m a) else set_tags R m a - {idx}))"
proof (cases "fm_index_type (f_meta fld) = SET_INDEX")
  case True
  then obtain vs where vs: "js_array J v = Some vs" "tags = set (json_strings J vs)"
    using assms(3) by (auto simp: doc_tags_def)
  let ?fld = "fld\<lparr>f_index := SetField (SetField_Remove R idx m)\<rparr>"
  have "put_strings R J idx vs ?fld = (0, fld')"
    using assms(1,2) True vs by (simp add: put_field_def Let_def Field_Remove_def)
  then have "f_index fld' = SetField (fold (SetField_Put R idx) (json_strings J vs) (SetField_Remove R idx m))"
    using put_strings_eq[of ?fld "SetField_Remove R idx m" R J idx vs] by auto
  then show ?thesis by (auto simp: set_tags_fold set_field.tags_del vs(2))
next
  case False
  then obtain s where s: "fm_index_type (f_meta fld) = MUTEX_INDEX" "js_string J v = Some s" "tags = {s}"
    using assms(3) by (auto simp: doc_tags_def split: FieldIndexType.splits)
  then have "f_index fld' = SetField (SetField_Put R idx s (SetField_Remove R idx m))"
    using assms(1,2) by (auto simp: put_field_def Let_def Field_Remove_def Field_Put_str_def)
  then show ?thesis by (auto simp: set_field.tags_put set_field.tags_del s(3))
qed

end

section \<open>A sample\<close>

text \<open>A small JSON library: a document is a list of members, the strings name the documents.\<close>

datatype jval = JNull | JStr string | JInt i64 | JDouble u64 | JBool bool | JArr "jval list" | JObj "(string \<times> jval) list"

definition plain_json :: "(string \<Rightarrow> (string \<times> jval) list) \<Rightarrow> jval simdjson" where
  "plain_json docs =
     \<lparr>js_iterate = (\<lambda>_. True), js_iterate_unpadded = (\<lambda>_. True),
      js_find = (\<lambda>d. map_of (docs d)), js_find_unordered = (\<lambda>d. map_of (docs d)),
      js_is_null = (\<lambda>v. v = JNull),
      js_string = (\<lambda>v. case v of JStr s \<Rightarrow> Some s | _ \<Rightarrow> None),
      js_int64 = (\<lambda>v. case v of JInt i \<Rightarrow> Some i | _ \<Rightarrow> None),
      js_double = (\<lambda>v. case v of JDouble d \<Rightarrow> Some d | _ \<Rightarrow> None),
      js_bool = (\<lambda>v. case v of JBool b \<Rightarrow> Some b | _ \<Rightarrow> None),
      js_array = (\<lambda>v. case v of JArr vs \<Rightarrow> Some vs | _ \<Rightarrow> None),
      js_object = (\<lambda>v. case v of JObj kvs \<Rightarrow> Some kvs | _ \<Rightarrow> None),
      js_raw_token = (\<lambda>_. [])\<rparr>"

definition sample_json :: "jval simdjson" where
  "sample_json = plain_json (\<lambda>d.
     if d = ''A'' then [(''id'', JStr ''a''), (''tags'', JArr [JStr ''x'', JStr ''y'']), (''city'', JStr ''p'')]
     else [(''id'', JStr ''b''), (''tags'', JArr [JStr ''x'']), (''city'', JStr ''q'')])"

definition set_meta :: "string \<Rightarrow> FieldIndexType \<Rightarrow> FieldMeta" where
  "set_meta name ty = \<lparr>fm_name = name, fm_index_type = ty, fm_min = 0, fm_max = 0, fm_topk_limit = 0, fm_max_set_num = 0\<rparr>"

definition sample_schema :: TableSchema where
  "sample_schema = \<lparr>ts_name = ''T'', ts_id_field = ''id'',
     ts_index_field = [set_meta ''tags'' SET_INDEX, set_meta ''city'' MUTEX_INDEX],
     ts_disable_local_id_creation = False\<rparr>"

definition no_garbage :: "string \<Rightarrow> i64 \<times> u32" where
  "no_garbage k = (0, 0)"

abbreviation sample_init :: "int \<times> u32 list RobimsTable" where
  "sample_init \<equiv> Table_Init list_roaring plain_fpu sample_schema new_RobimsTable"

abbreviation sample_put :: "string \<Rightarrow> SimpleIDMapping \<times> u32 list RobimsTable
    \<Rightarrow> (int \<times> SimpleIDMapping \<times> u32 list RobimsTable) option" where
  "sample_put \<equiv> Table_Put list_roaring plain_fpu sample_json no_garbage"

lemmas sample_defs = sample_schema_def set_meta_def sample_json_def plain_json_def no_garbage_def Table_Init_def
  new_RobimsTable_def FieldBuilder_Build_def field_OnInit_def Table_Put_def Table_GetLocalId_def id_view_def
  GetLocalID_def new_SimpleIDMapping_def put_field_def Field_Remove_def Field_Put_str_def SetField_Put_def
  SetField_Remove_def Let_def NewCRoaringBitmap_def new_RoaringBitmap_def rbm_def RoaringBitmap_Remove_def

lemma sample_distinct: "distinct (map fm_name (ts_index_field sample_schema))"
  by (simp add: sample_schema_def set_meta_def)

lemma sample_init_0: "fst sample_init = 0"
  by (simp add: sample_defs)

lemma sample_put_0: "\<exists>s'. sample_put ''A'' (new_SimpleIDMapping, snd sample_init) = Some (0, s')"
  by (simp add: sample_defs list_roaring_def)

lemma sample_reachable:
  "table_reachable list_roaring plain_fpu sample_json sample_schema (new_SimpleIDMapping, snd sample_init)"
  using sample_init_0 by (intro table_reachable.init) (metis prod.collapse)

section \<open>Properties\<close>

text \<open>
  C11. In every state a table of a schema without repeated names can get into, it has a field
  for each field of the schema and no other; the field carries the meta data of the schema and the
  class of its index is the one the meta data select.
\<close>

theorem table_types:
  assumes "roaring_api R" and "table_reachable R F J schema (m, t)"
    and "distinct (map fm_name (ts_index_field schema))"
  shows "dom (map_of (t_fields t)) = fm_name ` set (ts_index_field schema)
    \<and> (\<forall>meta \<in> set (ts_index_field schema). \<exists>fld. map_of (t_fields t) (fm_name meta) = Some fld
         \<and> f_meta fld = meta \<and> field_typed fld)"
proof -
  have wf: "table_wf R t" "t_schema t = schema" using roaring_api.reachable_wf[OF assms] by simp_all
  have metas: "map (\<lambda>p. f_meta (snd p)) (t_fields t) = ts_index_field schema" using wf by (simp add: table_wf_def)
  have "fst ` set (t_fields t) = (\<lambda>p. fm_name (f_meta (snd p))) ` set (t_fields t)"
    using wf(1) by (intro image_cong) (simp_all add: table_wf_def)
  also have "\<dots> = fm_name ` set (ts_index_field schema)" by (simp add: image_image flip: metas)
  finally have "dom (map_of (t_fields t)) = fm_name ` set (ts_index_field schema)" by (simp add: dom_map_of_conv_image_fst)
  then show ?thesis using table_wf_field[OF wf(1)] wf(2) by metis
qed

theorem table_types_witness:
  "map_of (t_fields (snd sample_init)) ''city'' \<noteq> None"
  using table_types[OF lr.roaring_api_axioms sample_reachable sample_distinct]
  by (auto simp: sample_schema_def set_meta_def)

text \<open>
  C12. In every state a table can get into, the selections for two different values of a
  mutex field have no identifier in common.
\<close>

theorem table_mutex:
  assumes "roaring_api R" and "table_reachable R F J schema (m, t)"
    and "distinct (map fm_name (ts_index_field schema))"
    and "meta \<in> set (ts_index_field schema)" and "fm_index_type meta = MUTEX_INDEX" and "a \<noteq> b"
  shows "eq_ids R F (fm_name meta) (ArgStr a) t \<inter> eq_ids R F (fm_name meta) (ArgStr b) t = {}"
proof -
  have wf: "table_wf R t" "t_schema t = schema" using roaring_api.reachable_wf[OF assms(1-3)] by simp_all
  obtain fld where fld: "map_of (t_fields t) (fm_name meta) = Some fld" "f_meta fld = meta" "field_typed fld" "mutex_ok R fld"
    using table_wf_field[OF wf(1)] wf(2) assms(4) by metis
  then obtain n where n: "f_index fld = SetField n" using assms(5) by (auto simp: field_typed_def)
  show ?thesis
    using fld(2,4) n assms(5,6) by (auto simp: roaring_api.eq_ids_set[OF assms(1) wf(1) fld(1) n] mutex_ok_def)
qed

theorem table_mutex_witness:
  "eq_ids list_roaring plain_fpu ''city'' (ArgStr ''p'') (snd sample_init)
     \<inter> eq_ids list_roaring plain_fpu ''city'' (ArgStr ''q'') (snd sample_init) = {}"
  using table_mutex[OF lr.roaring_api_axioms sample_reachable sample_distinct, of "set_meta ''city'' MUTEX_INDEX" "''p''" "''q''"]
  by (simp add: sample_schema_def) (simp add: set_meta_def)

text \<open>
  C13. When a put of a document succeeds, its local identifier is in the table, and in
  every set or mutex field the document has a value for, it is selected exactly under the tags of the
  document; the selections contain the other identifiers as before.
\<close>

theorem table_put_select:
  assumes "roaring_api R" and "table_reachable R F J schema (m, t)"
    and "distinct (map fm_name (ts_index_field schema))"
    and "Table_Put R F J garbage json (m, t) = Some (0, m', t')"
  shows "\<exists>idx. Table_GetLocalId J json m t = (Some idx, m')
    \<and> rb_bits R (rbm (t_id_bitmap t')) = insert idx (rb_bits R (rbm (t_id_bitmap t)))
    \<and> (\<forall>meta v tags. meta \<in> set (ts_index_field schema) \<longrightarrow> js_find_unordered J json (fm_name meta) = Some v
        \<longrightarrow> doc_tags J (fm_index_type meta) v = Some tags
        \<longrightarrow> (\<forall>a. eq_ids R F (fm_name meta) (ArgStr a) t'
              = (if a \<in> tags then insert idx (eq_ids R F (fm_name meta) (ArgStr a) t)
                 else eq_ids R F (fm_name meta) (ArgStr a) t - {idx})))"
proof -
  have wf: "table_wf R t" "t_schema t = schema" using roaring_api.reachable_wf[OF assms(1-3)] by simp_all
  have wf': "table_wf R t'" using roaring_api.Table_Put_wf[OF assms(1,4)] wf by simp
  obtain idx flds where w: "Table_GetLocalId J json m t = (Some idx, m')"
    "put_fields R F J garbage idx json (t_fields t) = Some (0, flds)"
    "t' = t\<lparr>t_id_bitmap := (t_id_bitmap t)\<lparr>rbp := Some (rb_add R (rbm (t_id_bitmap t)) idx)\<rparr>, t_fields := flds\<rparr>"
    using assms(4) by (cases rule: Table_Put_cases) auto
  have "eq_ids R F (fm_name meta) (ArgStr a) t'
      = (if a \<in> tags then insert idx (eq_ids R F (fm_name meta) (ArgStr a) t) else eq_ids R F (fm_name meta) (ArgStr a) t - {idx})"
    if meta: "meta \<in> set (ts_index_field schema)" and v: "js_find_unordered J json (fm_name meta) = Some v"
      and tags: "doc_tags J (fm_index_type meta) v = Some tags" for meta v tags a
  proof -
    obtain fld where fld: "map_of (t_fields t) (fm_name meta) = Some fld" "f_meta fld = meta" "field_typed fld"
      using table_wf_field[OF wf(1)] wf(2) meta by metis
    obtain n where n: "f_index fld = SetField n"
      using tags fld by (auto simp: doc_tags_def field_typed_def split: FieldIndexType.splits)
    obtain fld' where fld': "map_of flds (fm_name meta) = Some fld'"
      "put_field R F J (garbage (fm_name meta)) idx (Some v) fld = Some (0, fld')"
      using list_all2_map_of[OF put_fields_0[OF w(2)] fld(1)] v by auto
    obtain n' where n': "f_index fld' = SetField n'"
      "\<And>a. set_tags R n' a = (if a \<in> tags then insert idx (set_tags R n a) else set_tags R n a - {idx})"
      using roaring_api.put_field_tags[OF assms(1) fld'(2) n] tags fld(2) by auto
    have "map_of (t_fields t') (fm_name meta) = Some fld'" using fld'(1) w(3) by simp
    from roaring_api.eq_ids_set[OF assms(1) wf' this n'(1)] n'(2)
    show ?thesis by (simp add: roaring_api.eq_ids_set[OF assms(1) wf(1) fld(1) n])
  qed
  then show ?thesis using w(1,3) roaring_api.bits_add[OF assms(1)] by (auto simp: rbm_def)
qed

theorem table_put_select_witness:
  "\<exists>m' t'. sample_put ''A'' (new_SimpleIDMapping, snd sample_init) = Some (0, m', t')
     \<and> 0 \<in> eq_ids list_roaring plain_fpu ''tags'' (ArgStr ''y'') t'
     \<and> 0 \<notin> eq_ids list_roaring plain_fpu ''tags'' (ArgStr ''z'') t'"
proof -
  obtain m' t' where p: "sample_put ''A'' (new_SimpleIDMapping, snd sample_init) = Some (0, m', t')"
    using sample_put_0 by auto
  have doc: "set_meta ''tags'' SET_INDEX \<in> set (ts_index_field sample_schema)"
    "js_find_unordered sample_json ''A'' (fm_name (set_meta ''tags'' SET_INDEX)) = Some (JArr [JStr ''x'', JStr ''y''])"
    "doc_tags sample_json (fm_index_type (set_meta ''tags'' SET_INDEX)) (JArr [JStr ''x'', JStr ''y'']) = Some {''x'', ''y''}"
    by (simp_all add: sample_schema_def set_meta_def sample_json_def plain_json_def doc_tags_def json_strings_def)
  have idx: "fst (Table_GetLocalId sample_json ''A'' new_SimpleIDMapping (snd sample_init)) = Some 0"
    by (simp add: sample_defs)
  from table_put_select[OF lr.roaring_api_axioms sample_reachable sample_distinct p] doc idx
  have "eq_ids list_roaring plain_fpu ''tags'' (ArgStr a) t'
      = (if a \<in> {''x'', ''y''} then insert 0 (eq_ids list_roaring plain_fpu ''tags'' (ArgStr a) (snd sample_init))
         else eq_ids list_roaring plain_fpu ''tags'' (ArgStr a) (snd sample_init) - {0})" for a
    by (fastforce simp: set_meta_def)
  with p show ?thesis by auto
qed



text \<open>
  After a successful \<^verbatim>\<open>Init\<close>, looking a field up is undefined exactly when two
  fields of the schema have the same name: the key of the first one is left in the map after its
  string has been freed.
\<close>

theorem table_duplicate_names:
  assumes "Table_Init R F schema new_RobimsTable = (0, t)"
  shows "Table_GetField name t = None \<longleftrightarrow> \<not> distinct (map fm_name (ts_index_field schema))"
proof -
  have "init_fields R F (ts_index_field schema)
      (new_RobimsTable\<lparr>t_schema := schema, t_id_bitmap := NewCRoaringBitmap R (t_id_bitmap new_RobimsTable)\<rparr>) = (0, t)"
    using assms by (simp add: Table_Init_def)
  from init_fields_dangling[OF this] show ?thesis by (simp add: new_RobimsTable_def Table_GetField_def)
qed

theorem table_duplicate_names_witness:
  "Table_GetField ''tags'' (snd (Table_Init list_roaring plain_fpu
     (sample_schema\<lparr>ts_index_field := [set_meta ''tags'' SET_INDEX, set_meta ''tags'' SET_INDEX]\<rparr>)
     (new_RobimsTable :: u32 list RobimsTable))) = None"
proof -
  let ?schema = "sample_schema\<lparr>ts_index_field := [set_meta ''tags'' SET_INDEX, set_meta ''tags'' SET_INDEX]\<rparr>"
  have "fst (Table_Init list_roaring plain_fpu ?schema new_RobimsTable) = 0" by (simp add: sample_defs)
  then have "Table_Init list_roaring plain_fpu ?schema new_RobimsTable
      = (0, snd (Table_Init list_roaring plain_fpu ?schema new_RobimsTable))" by (metis prod.collapse)
  from table_duplicate_names[OF this, of "''tags''"] show ?thesis by simp
qed

end
