(* ===== verification/RobimsTableIO.thy ===== *)
theory RobimsTableIO
  imports RobimsTableProps
begin

text \<open>
  \<^verbatim>\<open>RobimsTable::Save\<close> and \<^verbatim>\<open>RobimsTable::Load\<close>: the schema, the bitmap of the identifiers and the
  fields in the order of the schema. \<^verbatim>\<open>Load\<close> uses the field the builder returns without a look at the
  null pointer. The keys it enters are views of the names in the schema, which stay valid.
\<close>

fun save_fields :: "'b roaring \<Rightarrow> protobuf \<Rightarrow> bool \<Rightarrow> 'b RobimsTable \<Rightarrow> FieldMeta list \<Rightarrow> ofile \<Rightarrow> wr" where
  "save_fields R PB readonly t [] f = Wr 0 f"
| "save_fields R PB readonly t (meta # metas) f =
     (if t_dangling t then WrUndef
      else case map_of (t_fields t) (fm_name meta) of
             None \<Rightarrow> Wr (-1) f
           | Some fld \<Rightarrow> and_then (Field_Save R PB readonly fld f) (save_fields R PB readonly t metas))"

definition Table_Save :: "'b roaring \<Rightarrow> protobuf \<Rightarrow> bool \<Rightarrow> 'b RobimsTable \<Rightarrow> ofile \<Rightarrow> wr" where
  "Table_Save R PB readonly t f =
     and_then (file_write_string (schema_bytes PB (t_schema t)) f) (\<lambda>f.
     and_then (RoaringBitmap_Save R readonly (t_id_bitmap t) f)
       (save_fields R PB readonly t (ts_index_field (t_schema t))))"

fun load_fields :: "'b roaring \<Rightarrow> fpu \<Rightarrow> protobuf \<Rightarrow> FieldMeta list \<Rightarrow> (string \<times> 'b RobimsField) list
    \<Rightarrow> byte list \<Rightarrow> (string \<times> 'b RobimsField) list rd" where
  "load_fields R F PB [] flds bs = Rd flds bs"
| "load_fields R F PB (meta # metas) flds bs =
     (case FieldBuilder_Build R F meta of
        None \<Rightarrow> Undef
      | Some fld \<Rightarrow> rd_bind (Field_Load R PB fld bs) (\<lambda>fld'. load_fields R F PB metas (al_put (fm_name meta) fld' flds)))"

definition Table_Load :: "'b roaring \<Rightarrow> fpu \<Rightarrow> protobuf \<Rightarrow> 'b RobimsTable \<Rightarrow> byte list \<Rightarrow> 'b RobimsTable rd" where
  "Table_Load R F PB t bs =
     rd_bind (file_read_string bs) (\<lambda>meta_bin bs.
       case parse_schema PB meta_bin of
         None \<Rightarrow> RdErr (-1)
       | Some schema \<Rightarrow>
           rd_bind (RoaringBitmap_Load R (t_id_bitmap t) bs) (\<lambda>p bs.
           rd_bind (load_fields R F PB (ts_index_field schema) [] bs) (\<lambda>flds.
             Rd (t\<lparr>t_schema := schema, t_id_bitmap := p, t_fields := flds, t_dangling := False\<rparr>))))"

section \<open>The round trip\<close>

definition field_savable :: "'b roaring \<Rightarrow> fpu \<Rightarrow> protobuf \<Rightarrow> bool \<Rightarrow> 'b RobimsField \<Rightarrow> bool" where
  "field_savable R F PB readonly fld \<longleftrightarrow> length (meta_bytes PB (f_meta fld)) < 2 ^ 32
     \<and> (case FieldBuilder_Build R F (f_meta fld) of
          None \<Rightarrow> False | Some fld0 \<Rightarrow> index_savable R readonly (f_index fld0) (f_index fld))"

definition table_savable :: "'b roaring \<Rightarrow> fpu \<Rightarrow> protobuf \<Rightarrow> bool \<Rightarrow> 'b RobimsTable \<Rightarrow> bool" where
  "table_savable R F PB readonly t \<longleftrightarrow> length (schema_bytes PB (t_schema t)) < 2 ^ 32
     \<and> rbm_savable R readonly (t_id_bitmap t) \<and> (\<forall>p \<in> set (t_fields t). field_savable R F PB readonly (snd p))"

definition field_same :: "'b roaring \<Rightarrow> bool \<Rightarrow> 'b RobimsField \<Rightarrow> 'b RobimsField \<Rightarrow> bool" where
  "field_same R readonly fld fld' \<longleftrightarrow> f_meta fld' = f_meta fld \<and> index_same R readonly (f_index fld) (f_index fld')"

definition table_same :: "'b roaring \<Rightarrow> bool \<Rightarrow> 'b RobimsTable \<Rightarrow> 'b RobimsTable \<Rightarrow> bool" where
  "table_same R readonly t t' \<longleftrightarrow> t_schema t' = t_schema t \<and> \<not> t_dangling t'
     \<and> rbm_same R readonly (t_id_bitmap t) (t_id_bitmap t')
     \<and> named_rel (field_same R readonly) (t_fields t) (t_fields t')"

context storage_env
begin

lemma save_load_fields:
  assumes "save_fields R PB readonly t metas f = Wr 0 f'"
    and "\<And>meta. meta \<in> set metas \<Longrightarrow> \<exists>fld. map_of (t_fields t) (fm_name meta) = Some fld \<and> f_meta fld = meta
       \<and> field_savable R F PB readonly fld"
  shows "\<exists>bs. wrote bs f f' \<and> (\<forall>cs acc. distinct (map fst acc @ map fm_name metas) \<longrightarrow>
     (\<exists>flds. load_fields R F PB metas acc (bs @ cs) = Rd (acc @ flds) cs
       \<and> list_all2 (\<lambda>meta p. fst p = fm_name meta
          \<and> (\<exists>fld. map_of (t_fields t) (fm_name meta) = Some fld \<and> field_same R readonly fld (snd p))) metas flds))"
  using assms
proof (induction metas arbitrary: f)
  case Nil
  then show ?case by (intro exI[of _ "[]"]) simp
next
  case (Cons meta metas)
  obtain fld where fld: "map_of (t_fields t) (fm_name meta) = Some fld" "f_meta fld = meta"
    "field_savable R F PB readonly fld" using Cons.prems(2)[of meta] by auto
  then obtain fld0 where fld0: "FieldBuilder_Build R F meta = Some fld0"
    "index_savable R readonly (f_index fld0) (f_index fld)" "length (meta_bytes PB (f_meta fld)) < 2 ^ 32"
    by (auto simp: field_savable_def split: option.splits)
  obtain f1 where f1: "Field_Save R PB readonly fld f = Wr 0 f1" "save_fields R PB readonly t metas f1 = Wr 0 f'"
    using Cons.prems(1) fld(1) by (auto simp: and_then_0 split: if_splits)
  obtain b1 where b1: "wrote b1 f f1" "\<And>cs. \<exists>fld'. Field_Load R PB fld0 (b1 @ cs) = Rd fld' cs \<and> field_same R readonly fld fld'"
    using Field_Save_Load[OF f1(1) fld0(2,3)] by (auto simp: field_same_def)
  obtain b2 where b2: "wrote b2 f1 f'" "\<And>cs acc. distinct (map fst acc @ map fm_name metas) \<Longrightarrow>
     (\<exists>flds. load_fields R F PB metas acc (b2 @ cs) = Rd (acc @ flds) cs
       \<and> list_all2 (\<lambda>meta p. fst p = fm_name meta
          \<and> (\<exists>fld. map_of (t_fields t) (fm_name meta) = Some fld \<and> field_same R readonly fld (snd p))) metas flds)"
    using Cons.IH[OF f1(2)] Cons.prems(2) by auto
  have "\<exists>flds. load_fields R F PB (meta # metas) acc ((b1 @ b2) @ cs) = Rd (acc @ flds) cs
       \<and> list_all2 (\<lambda>meta p. fst p = fm_name meta
          \<and> (\<exists>fld. map_of (t_fields t) (fm_name meta) = Some fld \<and> field_same R readonly fld (snd p))) (meta # metas) flds"
    if d: "distinct (map fst acc @ map fm_name (meta # metas))" for cs acc
  proof -
    obtain fld' where l: "Field_Load R PB fld0 (b1 @ b2 @ cs) = Rd fld' (b2 @ cs)" "field_same R readonly fld fld'"
      using b1(2) by blast
    have put: "al_put (fm_name meta) fld' acc = acc @ [(fm_name meta, fld')]" using d by (intro al_put_fresh) auto
    obtain flds where "load_fields R F PB metas (acc @ [(fm_name meta, fld')]) (b2 @ cs)
        = Rd ((acc @ [(fm_name meta, fld')]) @ flds) cs"
      "list_all2 (\<lambda>meta p. fst p = fm_name meta
          \<and> (\<exists>fld. map_of (t_fields t) (fm_name meta) = Some fld \<and> field_same R readonly fld (snd p))) metas flds"
      using b2(2)[of "acc @ [(fm_name meta, fld')]" cs] d by auto
    then show ?thesis using l fld0(1) fld(1) put by (intro exI[of _ "(fm_name meta, fld') # flds"]) auto
  qed
  with wrote_trans[OF b1(1) b2(1)] show ?case by blast
qed

end

context storage_env
begin

lemma Table_Save_Load:
  assumes "Table_Save R PB readonly t f = Wr 0 f'" and wf: "table_wf R t" and ok: "table_savable R F PB readonly t"
  shows "\<exists>bs. wrote bs f f' \<and> (\<forall>cs. \<exists>t'. Table_Load R F PB t0 (bs @ cs) = Rd t' cs \<and> table_same R readonly t t')"
proof -
  let ?metas = "ts_index_field (t_schema t)"
  obtain f1 f2 where w: "file_write_string (schema_bytes PB (t_schema t)) f = Wr 0 f1"
    "RoaringBitmap_Save R readonly (t_id_bitmap t) f1 = Wr 0 f2" "save_fields R PB readonly t ?metas f2 = Wr 0 f'"
    using assms(1) by (auto simp: Table_Save_def and_then_0)
  obtain b1 where b1: "wrote b1 f f1" "\<And>cs. file_read_string (b1 @ cs) = Rd (schema_bytes PB (t_schema t)) cs"
    using string_codec.save_load[OF w(1)] ok by (auto simp: table_savable_def)
  obtain b2 where b2: "wrote b2 f1 f2"
    "\<And>cs. \<exists>p. RoaringBitmap_Load R (t_id_bitmap t0) (b2 @ cs) = Rd p cs \<and> rbm_same R readonly (t_id_bitmap t) p"
    using RoaringBitmap_Save_Load[OF w(2), of "t_id_bitmap t0"] ok by (auto simp: table_savable_def)
  have fields: "\<exists>fld. map_of (t_fields t) (fm_name meta) = Some fld \<and> f_meta fld = meta \<and> field_savable R F PB readonly fld"
    if m: "meta \<in> set ?metas" for meta
    using table_wf_field[OF wf m] ok unfolding table_savable_def by (metis snd_conv)
  obtain b3 where b3: "wrote b3 f2 f'" "\<And>cs. distinct (map fm_name ?metas) \<Longrightarrow>
     (\<exists>flds. load_fields R F PB ?metas [] (b3 @ cs) = Rd flds cs
       \<and> list_all2 (\<lambda>meta p. fst p = fm_name meta
          \<and> (\<exists>fld. map_of (t_fields t) (fm_name meta) = Some fld \<and> field_same R readonly fld (snd p))) ?metas flds)"
  proof -
    from save_load_fields[OF w(3) fields] obtain bs where bs: "wrote bs f2 f'"
      "\<And>cs acc. distinct (map fst acc @ map fm_name ?metas) \<Longrightarrow>
        (\<exists>flds. load_fields R F PB ?metas acc (bs @ cs) = Rd (acc @ flds) cs
         \<and> list_all2 (\<lambda>meta p. fst p = fm_name meta
          \<and> (\<exists>fld. map_of (t_fields t) (fm_name meta) = Some fld \<and> field_same R readonly fld (snd p))) ?metas flds)"
      by blast
    show thesis by (rule that[OF bs(1)]) (use bs(2)[of "[]"] in simp)
  qed
  have metas: "?metas = map (\<lambda>p. f_meta (snd p)) (t_fields t)" and key: "\<forall>p \<in> set (t_fields t). fm_name (f_meta (snd p)) = fst p"
    and d: "distinct (map fst (t_fields t))" using wf by (simp_all add: table_wf_def)
  have names: "map fm_name ?metas = map fst (t_fields t)" using key by (simp add: metas)
  have dn: "distinct (map fm_name ?metas)" unfolding names by (rule d)
  have "\<exists>t'. Table_Load R F PB t0 ((b1 @ b2 @ b3) @ cs) = Rd t' cs \<and> table_same R readonly t t'" for cs
  proof -
    obtain p where p: "RoaringBitmap_Load R (t_id_bitmap t0) (b2 @ b3 @ cs) = Rd p (b3 @ cs)"
      "rbm_same R readonly (t_id_bitmap t) p" using b2(2) by blast
    obtain flds where flds: "load_fields R F PB ?metas [] (b3 @ cs) = Rd flds cs" "list_all2 (\<lambda>meta p. fst p = fm_name meta
          \<and> (\<exists>fld. map_of (t_fields t) (fm_name meta) = Some fld \<and> field_same R readonly fld (snd p))) ?metas flds"
      using b3(2)[OF dn] by blast
    have "list_all2 (\<lambda>p q. fst p = fst q \<and> field_same R readonly (snd p) (snd q)) (t_fields t) flds"
    proof (rule list.rel_mono_strong[OF flds(2)[unfolded metas list_all2_map1]], goal_cases)
      case (1 p q)
      have "map_of (t_fields t) (fst p) = Some (snd p)" using d 1(1) by simp
      then show ?case using 1 key by simp
    qed
    from named_relI[OF this d] show ?thesis
      using p flds(1) b1(2) by (simp add: Table_Load_def table_same_def)
  qed
  with wrote_trans[OF b1(1) wrote_trans[OF b2(1) b3(1)]] show ?thesis by blast
qed

end

section \<open>Properties\<close>

text \<open>
  When a table in a state it can get into has been saved without an error, loading
  the bytes that were written gives a table with the same schema, the same identifiers and, under every
  name, a field with the same meta data and the same content; it consumes exactly these bytes.
\<close>

theorem table_save_load:
  assumes "roaring_api R" and "protobuf_api PB" and "table_reachable R F J schema (m, t)"
    and "distinct (map fm_name (ts_index_field schema))" and "table_savable R F PB readonly t"
    and "Table_Save R PB readonly t f = Wr 0 f'"
  shows "\<exists>bs. o_data f' = o_data f @ bs \<and> (\<forall>cs. \<exists>t'. Table_Load R F PB new_RobimsTable (bs @ cs) = Rd t' cs
    \<and> t_schema t' = schema \<and> rb_bits R (rbm (t_id_bitmap t')) = rb_bits R (rbm (t_id_bitmap t))
    \<and> (\<forall>k. rel_option (\<lambda>fld fld'. f_meta fld' = f_meta fld \<and> index_same R readonly (f_index fld) (f_index fld'))
         (map_of (t_fields t) k) (map_of (t_fields t') k)))"
proof -
  have wf: "table_wf R t" "t_schema t = schema" using roaring_api.reachable_wf[OF assms(1,3,4)] by simp_all
  have "storage_env R PB" using assms(1,2) by (rule storage_env.intro)
  from storage_env.Table_Save_Load[OF this assms(6) wf(1) assms(5), of new_RobimsTable]
  obtain bs where "wrote bs f f'"
    "\<And>cs. \<exists>t'. Table_Load R F PB new_RobimsTable (bs @ cs) = Rd t' cs \<and> table_same R readonly t t'" by blast
  then show ?thesis using wf(2) unfolding table_same_def named_rel_def field_same_def rbm_same_def wrote_def by fast
qed

lemma fwrite_rc_ok:
  "bs \<noteq> [] \<Longrightarrow> length bs \<le> o_space f \<Longrightarrow>
     fwrite_rc bs f = Wr 0 (f\<lparr>o_data := o_data f @ bs, o_space := o_space f - length bs\<rparr>)"
  by (simp add: fwrite_rc_def fwrite_def)

lemma sample_saved:
  "\<exists>f'. Table_Save list_roaring plain_pb False (snd sample_init) \<lparr>o_data = [], o_space = 1000\<rparr> = Wr 0 f'"
  by (simp add: Table_Save_def sample_defs file_write_string_def file_write_uint32_def fwrite_rc_ok RoaringBitmap_Save_def
      Field_Save_def field_DoSave_def SetField_DoSave_def plain_pb_def enc_schema_def enc_meta_def enc_string_def
      list_roaring_def list_bits_encode_def)

theorem table_save_load_witness:
  "\<exists>f' t'. Table_Save list_roaring plain_pb False (snd sample_init) \<lparr>o_data = [], o_space = 1000\<rparr> = Wr 0 f'
     \<and> Table_Load list_roaring plain_fpu plain_pb new_RobimsTable (o_data f') = Rd t' [] \<and> t_schema t' = sample_schema"
proof -
  obtain f' where f': "Table_Save list_roaring plain_pb False (snd sample_init) \<lparr>o_data = [], o_space = 1000\<rparr> = Wr 0 f'"
    using sample_saved by blast
  have "table_savable list_roaring plain_fpu plain_pb False (snd sample_init)"
    by (simp add: table_savable_def field_savable_def sample_defs rbm_savable_def plain_pb_def enc_schema_def
        enc_meta_def enc_string_def list_roaring_def list_bits_encode_def set_savable_def)
  from table_save_load[OF lr.roaring_api_axioms plain_pb.protobuf_api_axioms sample_reachable sample_distinct this f'] f'
  show ?thesis by (metis append_Nil append_Nil2 ofile.select_convs(1))
qed

end
