(* ===== verification/RobimsTableCreation.thy ===== *)
theory RobimsTableCreation
  imports RobimsTableProps
begin

text \<open>
  The translation of a table description to a schema: \<^verbatim>\<open>robims/robims_table_creation.cpp\<close>. The parser is
  built from the combinators of the Boost Spirit library, which is not part of the repository; it is
  an argument that yields the syntax tree, \<open>None\<close> when the text is not a description.
\<close>

datatype IntOrDouble = NoNumber | IntNumber i64 | DoubleNumber u64

record ast_Field =
  af_name :: string
  af_ztype :: string
  af_min :: IntOrDouble
  af_max :: IntOrDouble

record ast_Table =
  at_name :: string
  at_fields :: "ast_Field list"

text \<open>The type a field is declared with: the identifier, or an index type.\<close>

datatype declared_type = DeclId | DeclIndex FieldIndexType

definition declared_type_of :: "string \<Rightarrow> declared_type option" where
  "declared_type_of filed_type =
     (if filed_type = ''id'' \<or> filed_type = ''ID'' then Some DeclId
      else if filed_type = ''set'' \<or> filed_type = ''SET'' then Some (DeclIndex SET_INDEX)
      else if filed_type = ''weight_set'' \<or> filed_type = ''WEIGHT_SET'' then Some (DeclIndex WEIGHT_SET_INDEX)
      else if filed_type = ''mutex'' \<or> filed_type = ''MUTEX'' then Some (DeclIndex MUTEX_INDEX)
      else if filed_type = ''int'' \<or> filed_type = ''INT'' then Some (DeclIndex INT_INDEX)
      else if filed_type = ''float'' \<or> filed_type = ''FLOAT'' then Some (DeclIndex FLOAT_INDEX)
      else if filed_type = ''bool'' \<or> filed_type = ''BOOL'' then Some (DeclIndex BOOL_INDEX)
      else None)"

text \<open>A bound that is not given stays at the default of the message, 0.\<close>

definition bound_of :: "fpu \<Rightarrow> IntOrDouble \<Rightarrow> u64" where
  "bound_of F n = (case n of NoNumber \<Rightarrow> 0 | IntNumber i \<Rightarrow> i2d F i | DoubleNumber d \<Rightarrow> d)"

definition index_field_of :: "fpu \<Rightarrow> FieldIndexType \<Rightarrow> ast_Field \<Rightarrow> FieldMeta" where
  "index_field_of F ftype a =
     \<lparr>fm_name = af_name a, fm_index_type = ftype, fm_min = bound_of F (af_min a), fm_max = bound_of F (af_max a),
      fm_topk_limit = 0, fm_max_set_num = 0\<rparr>"

fun creation_fields :: "fpu \<Rightarrow> ast_Field list \<Rightarrow> TableSchema \<Rightarrow> int \<times> TableSchema" where
  "creation_fields F [] schema = (0, schema)"
| "creation_fields F (a # as) schema =
     (case declared_type_of (af_ztype a) of
        None \<Rightarrow> (-1, schema)
      | Some DeclId \<Rightarrow>
          (if ts_id_field schema \<noteq> [] then (-1, schema)
           else creation_fields F as (schema\<lparr>ts_id_field := af_name a\<rparr>))
      | Some (DeclIndex ftype) \<Rightarrow>
          creation_fields F as
            (schema\<lparr>ts_index_field := ts_index_field schema @ [index_field_of F ftype a]\<rparr>))"

definition parse_talbe_creation_desc ::
    "fpu \<Rightarrow> (string \<Rightarrow> ast_Table option) \<Rightarrow> string \<Rightarrow> TableSchema \<Rightarrow> int \<times> TableSchema" where
  "parse_talbe_creation_desc F parse desc schema =
     (case parse desc of
        None \<Rightarrow> (-1, schema)
      | Some table_ast \<Rightarrow> creation_fields F (at_fields table_ast) (schema\<lparr>ts_name := at_name table_ast\<rparr>))"

definition new_TableSchema :: TableSchema where
  "new_TableSchema = \<lparr>ts_name = [], ts_id_field = [], ts_index_field = [], ts_disable_local_id_creation = False\<rparr>"

section \<open>What a description means\<close>

definition is_id :: "ast_Field \<Rightarrow> bool" where
  "is_id a \<longleftrightarrow> declared_type_of (af_ztype a) = Some DeclId"

definition desc_index_fields :: "fpu \<Rightarrow> ast_Field list \<Rightarrow> FieldMeta list" where
  "desc_index_fields F as =
     concat (map (\<lambda>a. case declared_type_of (af_ztype a) of Some (DeclIndex ftype) \<Rightarrow> [index_field_of F ftype a] | _ \<Rightarrow> []) as)"

definition desc_ok :: "ast_Field list \<Rightarrow> bool" where
  "desc_ok as \<longleftrightarrow> (\<forall>a \<in> set as. declared_type_of (af_ztype a) \<noteq> None) \<and> length (filter is_id as) \<le> 1"

lemma creation_fields_eq:
  assumes "\<forall>a \<in> set as. af_name a \<noteq> []"
  shows "fst (creation_fields F as schema) = 0 \<longleftrightarrow>
      (\<forall>a \<in> set as. declared_type_of (af_ztype a) \<noteq> None)
        \<and> length (filter is_id as) \<le> (if ts_id_field schema = [] then 1 else 0)"
    and "fst (creation_fields F as schema) = 0 \<Longrightarrow> snd (creation_fields F as schema) =
      schema\<lparr>ts_id_field := (case filter is_id as of [] \<Rightarrow> ts_id_field schema | a # _ \<Rightarrow> af_name a),
             ts_index_field := ts_index_field schema @ desc_index_fields F as\<rparr>"
  using assms
proof (induction F as schema rule: creation_fields.induct)
  case (1 F schema)
  { case 1 then show ?case by simp next case 2 then show ?case by (simp add: desc_index_fields_def) }
next
  case (2 F a as schema)
  { case 1 then show ?case using 2 by (auto simp: is_id_def split: option.splits declared_type.splits)
  next
    case 2 then show ?case using "2.IH"
      by (auto simp: is_id_def desc_index_fields_def split: option.splits declared_type.splits list.splits if_splits) }
qed

lemma creation_fields_rc: "fst (creation_fields F as schema) \<in> {0, -1}"
  by (induction F as schema rule: creation_fields.induct) (auto split: option.splits declared_type.splits)

text \<open>A schema that came from a description has no field without a class.\<close>

lemma declared_known: "declared_type_of s \<noteq> Some (DeclIndex UNKNOWN_INDEX)"
  unfolding declared_type_of_def by (simp only: split: if_split) simp

lemma desc_index_types: "meta \<in> set (desc_index_fields F as) \<Longrightarrow> fm_index_type meta \<noteq> UNKNOWN_INDEX"
  by (auto simp: desc_index_fields_def index_field_of_def declared_known declared_known[symmetric] split: option.splits declared_type.splits)

lemma Build_known: "fm_index_type meta \<noteq> UNKNOWN_INDEX \<Longrightarrow> FieldBuilder_Build R F meta \<noteq> None"
  by (cases "fm_index_type meta") (simp_all add: FieldBuilder_Build_def field_OnInit_def)

lemma init_fields_known:
  "\<forall>meta \<in> set metas. fm_index_type meta \<noteq> UNKNOWN_INDEX \<Longrightarrow> fst (init_fields R F metas t) = 0"
proof (induction R F metas t rule: init_fields.induct)
  case (2 R F meta metas t)
  then obtain fld where "FieldBuilder_Build R F meta = Some fld" using Build_known[of meta R F] by auto
  then show ?case using 2 by (simp add: Let_def)
qed simp

section \<open>Properties\<close>

text \<open>
  A description whose names are not empty is accepted exactly when every type is
  known and at most one field is the identifier, and otherwise refused with \<open>- 1\<close>. The schema of an
  accepted one has the name, the identifier field and the index fields in the order of the description,
  and a table can be initialised with it.
\<close>

theorem table_creation:
  assumes "parse desc = Some a" and "\<forall>fd \<in> set (at_fields a). af_name fd \<noteq> []"
    and "parse_talbe_creation_desc F parse desc new_TableSchema = (rc, schema)"
  shows "rc = (if desc_ok (at_fields a) then 0 else -1)
    \<and> (rc = 0 \<longrightarrow> ts_name schema = at_name a
         \<and> ts_id_field schema = (case filter is_id (at_fields a) of [] \<Rightarrow> [] | fd # _ \<Rightarrow> af_name fd)
         \<and> ts_index_field schema = desc_index_fields F (at_fields a)
         \<and> fst (Table_Init R F schema new_RobimsTable) = 0)"
proof -
  let ?s0 = "new_TableSchema\<lparr>ts_name := at_name a\<rparr>"
  have run: "creation_fields F (at_fields a) ?s0 = (rc, schema)"
    using assms(1,3) by (simp add: parse_talbe_creation_desc_def)
  have "rc = 0 \<longleftrightarrow> desc_ok (at_fields a)"
    using creation_fields_eq(1)[OF assms(2), of F ?s0] run by (simp add: desc_ok_def new_TableSchema_def)
  moreover have "rc \<in> {0, -1}" using creation_fields_rc[of F "at_fields a" ?s0] run by simp
  moreover have "rc = 0 \<Longrightarrow> schema = ?s0\<lparr>ts_id_field := (case filter is_id (at_fields a) of [] \<Rightarrow> [] | fd # _ \<Rightarrow> af_name fd),
      ts_index_field := desc_index_fields F (at_fields a)\<rparr>"
    using creation_fields_eq(2)[OF assms(2), of F ?s0] run by (simp add: new_TableSchema_def split: list.splits)
  moreover have "ts_index_field s = desc_index_fields F (at_fields a) \<Longrightarrow> fst (Table_Init R F s new_RobimsTable) = 0" for s
    using init_fields_known[of "ts_index_field s"] desc_index_types by (auto simp: Table_Init_def)
  ultimately show ?thesis by auto
qed

definition sample_desc :: ast_Table where
  "sample_desc = \<lparr>at_name = ''T'', at_fields =
     [\<lparr>af_name = ''id'', af_ztype = ''id'', af_min = NoNumber, af_max = NoNumber\<rparr>,
      \<lparr>af_name = ''age'', af_ztype = ''INT'', af_min = IntNumber 0, af_max = IntNumber 120\<rparr>]\<rparr>"

theorem table_creation_witness:
  "\<exists>schema. parse_talbe_creation_desc plain_fpu (\<lambda>_. Some sample_desc) ''T'' new_TableSchema = (0, schema)
     \<and> ts_id_field schema = ''id''"
proof -
  let ?r = "parse_talbe_creation_desc plain_fpu (\<lambda>_. Some sample_desc) ''T'' new_TableSchema"
  have ok: "desc_ok (at_fields sample_desc)" "filter is_id (at_fields sample_desc) = [hd (at_fields sample_desc)]"
    by (simp_all add: desc_ok_def sample_desc_def is_id_def declared_type_of_def)
  have "\<forall>fd \<in> set (at_fields sample_desc). af_name fd \<noteq> []" by (simp add: sample_desc_def)
  from table_creation[OF refl this, where R = list_roaring and F = plain_fpu and desc = "''T''" and rc = "fst ?r"
      and schema = "snd ?r"] ok
  have "fst ?r = 0 \<and> ts_id_field (snd ?r) = af_name (hd (at_fields sample_desc))" by simp
  then have "fst ?r = 0 \<and> ts_id_field (snd ?r) = ''id''" by (simp add: sample_desc_def)
  then show ?thesis by (metis prod.collapse)
qed

end
