(* ===== verification/RobimsQuery.thy ===== *)
theory RobimsQuery
  imports RobimsFieldIO
begin

text \<open>
  The query language: \<^verbatim>\<open>robims/robims_query.cpp\<close>. The grammar is built from the combinators of the Boost
  Spirit library; the model starts with the syntax tree it yields. A variable carries the pointer to
  its field that the initialiser stores in it, of an abstract type \<open>'p\<close>. \<open>None\<close> as the value of an
  expression means undefined behaviour: an integer overflow, a division by zero or the use of a
  pointer to a field that has been freed. The text of an error is left out.
\<close>

section \<open>Syntax\<close>

datatype Optoken =
    op_plus | op_minus | op_times | op_divide | op_positive | op_negative | op_equal | op_not_equal
  | op_less | op_less_equal | op_greater | op_greater_equal | op_and | op_or | op_and_not

datatype 'p Operand =
    Nil_Operand
  | Int_Operand i64
  | Double_Operand u64
  | Bool_Operand bool
  | String_Operand string
  | Variable "string list" "'p option"
  | DynamicVariable "string list"
  | FuncCall string "'p Operand list"
  | Unary Optoken "'p Operand"
  | CondExpr "'p Operand" "'p Operand" "'p Operand"
  | Expression "'p Operand" "(Optoken \<times> 'p Operand) list"

section \<open>Values\<close>

datatype ('p, 'b) RobimsQueryValue =
    QError int
  | QBool bool
  | QInt i64
  | QDouble u64
  | QStr string
  | QField 'p
  | QBitmap 'b

text \<open>The default value of the variant is a default error.\<close>

definition q_unknown_error :: "('p, 'b) RobimsQueryValue" where
  "q_unknown_error = QError (-1)"

definition q_invalid_operand :: "('p, 'b) RobimsQueryValue" where
  "q_invalid_operand = QError ROBIMS_QUERY_ERR_INVALID_OPERAND"

section \<open>Arithmetic\<close>

text \<open>The result of a signed operation; one that does not fit 64 bits is undefined.\<close>

definition int_result :: "int \<Rightarrow> ('p, 'b) RobimsQueryValue option" where
  "int_result n = (if - (2 ^ 63) \<le> n \<and> n < 2 ^ 63 then Some (QInt (word_of_int n)) else None)"

definition calc_arith :: "fpu \<Rightarrow> (i64 \<Rightarrow> i64 \<Rightarrow> ('p, 'b) RobimsQueryValue option) \<Rightarrow> (u64 \<Rightarrow> u64 \<Rightarrow> u64)
    \<Rightarrow> ('p, 'b) RobimsQueryValue \<Rightarrow> ('p, 'b) RobimsQueryValue \<Rightarrow> ('p, 'b) RobimsQueryValue option" where
  "calc_arith F fi fd left right =
     (case (left, right) of
        (QInt a, QInt b) \<Rightarrow> fi a b
      | (QInt a, QDouble b) \<Rightarrow> Some (QDouble (fd (i2d F a) b))
      | (QDouble a, QInt b) \<Rightarrow> Some (QDouble (fd a (i2d F b)))
      | (QDouble a, QDouble b) \<Rightarrow> Some (QDouble (fd a b))
      | _ \<Rightarrow> Some q_unknown_error)"

definition calc_plus where
  "calc_plus F = calc_arith F (\<lambda>a b. int_result (sint a + sint b)) (d_add F)"

definition calc_minus where
  "calc_minus F = calc_arith F (\<lambda>a b. int_result (sint a - sint b)) (d_sub F)"

definition calc_times where
  "calc_times F = calc_arith F (\<lambda>a b. int_result (sint a * sint b)) (d_mul F)"

text \<open>Integer division rounds towards zero.\<close>

definition calc_divide where
  "calc_divide F = calc_arith F
     (\<lambda>a b. if b = 0 then None
            else int_result (sgn (sint a) * sgn (sint b) * (\<bar>sint a\<bar> div \<bar>sint b\<bar>))) (d_div F)"

section \<open>Comparisons\<close>

text \<open>The order of \<^verbatim>\<open>std::string_view\<close>: lexicographic on bytes.\<close>

fun str_lt :: "string \<Rightarrow> string \<Rightarrow> bool" where
  "str_lt s [] \<longleftrightarrow> False"
| "str_lt [] (c # t) \<longleftrightarrow> True"
| "str_lt (b # s) (c # t) \<longleftrightarrow> byte_of_char b < byte_of_char c \<or> b = c \<and> str_lt s t"

text \<open>
  Two numbers or two strings are compared at once; \<open>None\<close> for every other pair of types. An integer
  next to a double is converted.
\<close>

definition cmp_plain :: "fpu \<Rightarrow> (i64 \<Rightarrow> i64 \<Rightarrow> bool) \<Rightarrow> (u64 \<Rightarrow> u64 \<Rightarrow> bool) \<Rightarrow> (string \<Rightarrow> string \<Rightarrow> bool)
    \<Rightarrow> ('p, 'b) RobimsQueryValue \<Rightarrow> ('p, 'b) RobimsQueryValue \<Rightarrow> bool option" where
  "cmp_plain F ci cd cs left right =
     (case (left, right) of
        (QInt a, QInt b) \<Rightarrow> Some (ci a b)
      | (QInt a, QDouble b) \<Rightarrow> Some (cd (i2d F a) b)
      | (QDouble a, QInt b) \<Rightarrow> Some (cd a (i2d F b))
      | (QDouble a, QDouble b) \<Rightarrow> Some (cd a b)
      | (QStr a, QStr b) \<Rightarrow> Some (cs a b)
      | _ \<Rightarrow> None)"

text \<open>The argument of a selection; only the tests for equality take a string.\<close>

definition field_arg :: "bool \<Rightarrow> ('p, 'b) RobimsQueryValue \<Rightarrow> FieldArg option" where
  "field_arg strings v =
     (case v of
        QInt i \<Rightarrow> Some (ArgInt i)
      | QDouble d \<Rightarrow> Some (ArgDouble d)
      | QStr s \<Rightarrow> (if strings then Some (ArgStr s) else None)
      | _ \<Rightarrow> None)"

text \<open>
  \<open>sel p op arg\<close> is the call of \<^verbatim>\<open>Select\<close> through the field pointer \<open>p\<close>: its return code and the bitmap
  it puts into the output pointer. The output pointer holds a bitmap of the pool before the call.
\<close>

type_synonym ('p, 'b) selector = "'p \<Rightarrow> FieldOperator \<Rightarrow> FieldArg \<Rightarrow> (int \<times> 'b option) option"

definition field_select :: "'b roaring \<Rightarrow> ('p, 'b) selector \<Rightarrow> bool \<Rightarrow> FieldOperator \<Rightarrow> 'p
    \<Rightarrow> ('p, 'b) RobimsQueryValue \<Rightarrow> ('p, 'b) RobimsQueryValue option" where
  "field_select R sel strings op p v =
     (case field_arg strings v of
        None \<Rightarrow> Some q_invalid_operand
      | Some arg \<Rightarrow>
          map_option (\<lambda>(rc, out). if rc = 0 then QBitmap (case out of Some b \<Rightarrow> b | None \<Rightarrow> rb_create R) else QError rc)
            (sel p op arg))"

text \<open>A comparison of a field with a value, with the mirrored operator when the field is on the right.\<close>

definition calc_compare :: "'b roaring \<Rightarrow> ('p, 'b) selector \<Rightarrow> bool option \<Rightarrow> bool \<Rightarrow> FieldOperator \<Rightarrow> FieldOperator
    \<Rightarrow> ('p, 'b) RobimsQueryValue \<Rightarrow> ('p, 'b) RobimsQueryValue \<Rightarrow> ('p, 'b) RobimsQueryValue option" where
  "calc_compare R sel plain strings op mirrored left right =
     (case plain of
        Some b \<Rightarrow> Some (QBool b)
      | None \<Rightarrow>
          (case left of
             QField p \<Rightarrow> field_select R sel strings op p right
           | _ \<Rightarrow> (case right of QField p \<Rightarrow> field_select R sel strings mirrored p left | _ \<Rightarrow> Some q_invalid_operand)))"

definition calc_equal where
  "calc_equal R F sel l r =
     calc_compare R sel (cmp_plain F (=) (d_eq F) (=) l r) True FIELD_OP_EQ FIELD_OP_EQ l r"

definition calc_not_equal where
  "calc_not_equal R F sel l r =
     calc_compare R sel (cmp_plain F (\<noteq>) (\<lambda>a b. \<not> d_eq F a b) (\<noteq>) l r) True FIELD_OP_NEQ FIELD_OP_NEQ l r"

definition calc_less where
  "calc_less R F sel l r =
     calc_compare R sel (cmp_plain F (<s) (d_lt F) str_lt l r) False FIELD_OP_LT FIELD_OP_GT l r"

definition calc_less_equal where
  "calc_less_equal R F sel l r =
     calc_compare R sel (cmp_plain F (\<le>s) (\<lambda>a b. d_lt F a b \<or> d_eq F a b) (\<lambda>a b. \<not> str_lt b a) l r)
       False FIELD_OP_LTE FIELD_OP_GTE l r"

definition calc_greater where
  "calc_greater R F sel l r =
     calc_compare R sel (cmp_plain F (\<lambda>a b. b <s a) (\<lambda>a b. d_lt F b a) (\<lambda>a b. str_lt b a) l r)
       False FIELD_OP_GT FIELD_OP_LT l r"

definition calc_greater_equal where
  "calc_greater_equal R F sel l r =
     calc_compare R sel (cmp_plain F (\<lambda>a b. b \<le>s a) (\<lambda>a b. d_lt F b a \<or> d_eq F a b) (\<lambda>a b. \<not> str_lt a b) l r)
       False FIELD_OP_GTE FIELD_OP_LTE l r"

section \<open>Logic\<close>

definition calc_and :: "'b roaring \<Rightarrow> ('p, 'b) RobimsQueryValue \<Rightarrow> ('p, 'b) RobimsQueryValue \<Rightarrow> ('p, 'b) RobimsQueryValue" where
  "calc_and R left right =
     (case (left, right) of
        (QBool a, QBool b) \<Rightarrow> QBool (a \<and> b)
      | (QBitmap a, QBitmap b) \<Rightarrow> QBitmap (rb_and R a b)
      | _ \<Rightarrow> q_invalid_operand)"

definition calc_or :: "'b roaring \<Rightarrow> ('p, 'b) RobimsQueryValue \<Rightarrow> ('p, 'b) RobimsQueryValue \<Rightarrow> ('p, 'b) RobimsQueryValue" where
  "calc_or R left right =
     (case (left, right) of
        (QBool a, QBool b) \<Rightarrow> QBool (a \<or> b)
      | (QBitmap a, QBitmap b) \<Rightarrow> QBitmap (rb_or R a b)
      | _ \<Rightarrow> q_invalid_operand)"

text \<open>\<^verbatim>\<open>QueryCalc\<close>.\<close>

definition QueryCalc :: "'b roaring \<Rightarrow> fpu \<Rightarrow> ('p, 'b) selector \<Rightarrow> Optoken
    \<Rightarrow> ('p, 'b) RobimsQueryValue \<Rightarrow> ('p, 'b) RobimsQueryValue \<Rightarrow> ('p, 'b) RobimsQueryValue option" where
  "QueryCalc R F sel op left right =
     (case op of
        op_plus \<Rightarrow> calc_plus F left right
      | op_minus \<Rightarrow> calc_minus F left right
      | op_times \<Rightarrow> calc_times F left right
      | op_divide \<Rightarrow> calc_divide F left right
      | op_equal \<Rightarrow> calc_equal R F sel left right
      | op_not_equal \<Rightarrow> calc_not_equal R F sel left right
      | op_less \<Rightarrow> calc_less R F sel left right
      | op_less_equal \<Rightarrow> calc_less_equal R F sel left right
      | op_greater \<Rightarrow> calc_greater R F sel left right
      | op_greater_equal \<Rightarrow> calc_greater_equal R F sel left right
      | op_and \<Rightarrow> Some (calc_and R left right)
      | op_or \<Rightarrow> Some (calc_or R left right)
      | _ \<Rightarrow> Some (QError ROBIMS_QUERY_ERR_INVALID_OPERATOR))"

section \<open>The interpreter\<close>

definition interpret_Unary :: "fpu \<Rightarrow> Optoken \<Rightarrow> ('p, 'b) RobimsQueryValue \<Rightarrow> ('p, 'b) RobimsQueryValue option" where
  "interpret_Unary F op v =
     (case op of
        op_positive \<Rightarrow> (case v of QInt i \<Rightarrow> Some v | QDouble d \<Rightarrow> Some v | _ \<Rightarrow> Some q_invalid_operand)
      | op_negative \<Rightarrow> (case v of QInt i \<Rightarrow> int_result (0 - sint i) | QDouble d \<Rightarrow> Some (QDouble (d_sub F 0 d))
                         | _ \<Rightarrow> Some q_invalid_operand)
      | _ \<Rightarrow> Some (QError ROBIMS_QUERY_ERR_INVALID_OPERATOR))"

text \<open>
  \<^verbatim>\<open>QueryInterpreter\<close>: one equation per overload of its call operator. The operations of an expression
  are applied from left to right, whatever their operators.
\<close>

fun QueryInterpreter :: "'b roaring \<Rightarrow> fpu \<Rightarrow> ('p, 'b) selector \<Rightarrow> 'p Operand \<Rightarrow> ('p, 'b) RobimsQueryValue option"
  and apply_operations :: "'b roaring \<Rightarrow> fpu \<Rightarrow> ('p, 'b) selector \<Rightarrow> (Optoken \<times> 'p Operand) list
    \<Rightarrow> ('p, 'b) RobimsQueryValue \<Rightarrow> ('p, 'b) RobimsQueryValue option" where
  "QueryInterpreter R F sel Nil_Operand = Some q_unknown_error"
| "QueryInterpreter R F sel (Int_Operand n) = Some (QInt n)"
| "QueryInterpreter R F sel (Double_Operand d) = Some (QDouble d)"
| "QueryInterpreter R F sel (Bool_Operand b) = Some (QBool b)"
| "QueryInterpreter R F sel (String_Operand s) = Some (QStr s)"
| "QueryInterpreter R F sel (Variable v field) =
     (case field of None \<Rightarrow> Some (QError ROBIMS_QUERY_ERR_EMPTY_FIELD_INSTANCE) | Some p \<Rightarrow> Some (QField p))"
| "QueryInterpreter R F sel (DynamicVariable v) = Some q_unknown_error"
| "QueryInterpreter R F sel (FuncCall func args) = Some q_unknown_error"
| "QueryInterpreter R F sel (Unary op x) = Option.bind (QueryInterpreter R F sel x) (interpret_Unary F op)"
| "QueryInterpreter R F sel (CondExpr lhs rhs_true rhs_false) =
     Option.bind (QueryInterpreter R F sel lhs) (\<lambda>test.
       case test of
         QBool b \<Rightarrow> (if b then QueryInterpreter R F sel rhs_true else QueryInterpreter R F sel rhs_false)
       | _ \<Rightarrow> Some test)"
| "QueryInterpreter R F sel (Expression first rest) = Option.bind (QueryInterpreter R F sel first) (apply_operations R F sel rest)"
| "apply_operations R F sel [] state = Some state"
| "apply_operations R F sel ((op, x) # rest) state =
     Option.bind (QueryInterpreter R F sel x) (\<lambda>rhs.
     Option.bind (QueryCalc R F sel op state rhs) (apply_operations R F sel rest))"

section \<open>The initialiser\<close>

text \<open>
  What the database answers to the two names of a variable: there is no such table, or the pointer
  \<^verbatim>\<open>GetField\<close> returns, null when the table has no such field. \<open>ResolveUndef\<close> stands for a lookup in a
  map with a dangling key.
\<close>

datatype 'p resolution = NoTable | FieldPointer "'p option" | ResolveUndef

datatype 'a init = InitOk 'a | InitErr int | InitUndef

fun init_bind :: "'a init \<Rightarrow> ('a \<Rightarrow> 'c init) \<Rightarrow> 'c init" where
  "init_bind (InitOk x) g = g x"
| "init_bind (InitErr e) g = InitErr e"
| "init_bind InitUndef g = InitUndef"

text \<open>
  \<^verbatim>\<open>Initializer\<close>: the tree with the pointers filled in. After the lookup of the field the code tests the
  table pointer once more instead of the field pointer.
\<close>

definition init_Variable :: "(string \<Rightarrow> string \<Rightarrow> 'p resolution) \<Rightarrow> string list \<Rightarrow> 'p Operand init" where
  "init_Variable resolve v =
     (if length v \<noteq> 2 then InitErr ROBIMS_QUERY_ERR_INVALID_FIELD_ARGS
      else case resolve (v ! 0) (v ! 1) of
             NoTable \<Rightarrow> InitErr ROBIMS_QUERY_ERR_INVALID_TABLE_NAME
           | FieldPointer field \<Rightarrow> InitOk (Variable v field)
           | ResolveUndef \<Rightarrow> InitUndef)"

fun Initializer :: "(string \<Rightarrow> string \<Rightarrow> 'p resolution) \<Rightarrow> 'p Operand \<Rightarrow> 'p Operand init"
  and init_rest :: "(string \<Rightarrow> string \<Rightarrow> 'p resolution) \<Rightarrow> (Optoken \<times> 'p Operand) list
    \<Rightarrow> (Optoken \<times> 'p Operand) list init" where
  "Initializer resolve (Variable v field) = init_Variable resolve v"
| "Initializer resolve (CondExpr lhs rhs_true rhs_false) =
     init_bind (Initializer resolve lhs) (\<lambda>a.
     init_bind (Initializer resolve rhs_true) (\<lambda>b.
     init_bind (Initializer resolve rhs_false) (\<lambda>c. InitOk (CondExpr a b c))))"
| "Initializer resolve (Unary op x) = init_bind (Initializer resolve x) (\<lambda>y. InitOk (Unary op y))"
| "Initializer resolve (Expression first rest) =
     init_bind (Initializer resolve first) (\<lambda>a. init_bind (init_rest resolve rest) (\<lambda>as. InitOk (Expression a as)))"
| "Initializer resolve x = InitOk x"
| "init_rest resolve [] = InitOk []"
| "init_rest resolve ((op, x) # rest) =
     init_bind (Initializer resolve x) (\<lambda>y. init_bind (init_rest resolve rest) (\<lambda>ys. InitOk ((op, y) # ys)))"

text \<open>
  \<^verbatim>\<open>RobimsQuery::Init\<close> and \<^verbatim>\<open>RobimsQuery::Execute\<close>. The parsed operand becomes the first operand of an
  expression without further operations. A query that was not initialised has no expression.
\<close>

definition Query_Init :: "(string \<Rightarrow> 'p Operand option) \<Rightarrow> (string \<Rightarrow> string \<Rightarrow> 'p resolution) \<Rightarrow> string \<Rightarrow> 'p Operand init" where
  "Query_Init parse resolve query =
     (case parse query of None \<Rightarrow> InitErr (-1) | Some x \<Rightarrow> Initializer resolve (Expression x []))"

definition Query_Execute :: "'b roaring \<Rightarrow> fpu \<Rightarrow> ('p, 'b) selector \<Rightarrow> 'p Operand option \<Rightarrow> ('p, 'b) RobimsQueryValue option" where
  "Query_Execute R F sel expr =
     (case expr of None \<Rightarrow> Some (QError ROBIMS_QUERY_ERR_NIL_INTERPRETER) | Some x \<Rightarrow> QueryInterpreter R F sel x)"

end
