(* ===== verification/RobimsQueryProps.thy ===== *)
theory RobimsQueryProps
  imports RobimsQuery
begin

text \<open>
  What the evaluation of a query computes: set algebra on the results of the selections, with types.
\<close>

section \<open>Bitmaps as sets\<close>

text \<open>The operations of the interpreter on plain sets; a set is not serialised.\<close>

definition set_algebra :: "u32 set roaring" where
  "set_algebra = \<lparr>
     rb_create = {}, rb_clear = (\<lambda>_. {}), rb_overwrite = (\<lambda>_ b. b),
     rb_add = (\<lambda>b x. insert x b), rb_remove = (\<lambda>b x. b - {x}), rb_contains = (\<lambda>b x. x \<in> b),
     rb_is_empty = (\<lambda>b. b = {}), rb_cardinality = (\<lambda>b. of_nat (card b)),
     rb_and = (\<inter>), rb_or = (\<union>), rb_xor = (\<lambda>b c. (b - c) \<union> (c - b)), rb_andnot = (-),
     rb_to_array = sorted_list_of_set, rb_range_array = (\<lambda>b off lim. take lim (drop off (sorted_list_of_set b))),
     rb_run_optimize = (\<lambda>b. b), rb_shrink_to_fit = (\<lambda>b. b),
     rb_serialize = (\<lambda>_. []), rb_deserialize = (\<lambda>_. None), rb_frozen_serialize = (\<lambda>_. []), rb_frozen_view = (\<lambda>_. None)\<rparr>"

abbreviation qbits :: "'b roaring \<Rightarrow> ('p, 'b) RobimsQueryValue \<Rightarrow> ('p, u32 set) RobimsQueryValue" where
  "qbits R \<equiv> map_RobimsQueryValue (\<lambda>p. p) (rb_bits R)"

definition sel_bits :: "'b roaring \<Rightarrow> ('p, 'b) selector \<Rightarrow> ('p, u32 set) selector" where
  "sel_bits R sel p op arg = map_option (\<lambda>(rc, out). (rc, map_option (rb_bits R) out)) (sel p op arg)"

lemma cmp_plain_bits: "cmp_plain F ci cd cs (qbits R l) (qbits R r) = cmp_plain F ci cd cs l r"
  by (cases l; cases r) (simp_all add: cmp_plain_def)

lemma calc_arith_bits:
  assumes "\<And>a b. fi' a b = map_option (qbits R) (fi a b)"
  shows "calc_arith F fi' fd (qbits R l) (qbits R r) = map_option (qbits R) (calc_arith F fi fd l r)"
  by (cases l; cases r) (simp_all add: calc_arith_def assms q_unknown_error_def)

lemma int_result_bits: "int_result n = map_option (qbits R) (int_result n)"
  by (simp add: int_result_def)

lemma field_arg_bits: "field_arg s (qbits R v) = field_arg s v"
  by (cases v) (simp_all add: field_arg_def)

lemma unary_bits: "interpret_Unary F op (qbits R v) = map_option (qbits R) (interpret_Unary F op v)"
  by (cases op; cases v) (simp_all add: interpret_Unary_def int_result_def q_invalid_operand_def)

context roaring_api
begin

lemma field_select_bits:
  "field_select set_algebra (sel_bits R sel) s op p (qbits R v) = map_option (qbits R) (field_select R sel s op p v)"
proof (cases "field_arg s v")
  case None
  then show ?thesis by (simp add: field_select_def field_arg_bits q_invalid_operand_def)
next
  case (Some arg)
  then show ?thesis
    by (cases "sel p op arg") (auto simp: field_select_def field_arg_bits sel_bits_def set_algebra_def split: option.splits)
qed

lemma compare_bits:
  "calc_compare set_algebra (sel_bits R sel) pl s op mi (qbits R l) (qbits R r)
     = map_option (qbits R) (calc_compare R sel pl s op mi l r)"
proof (cases pl)
  case None
  then show ?thesis
    using field_select_bits[of sel s op _ r] field_select_bits[of sel s mi _ l]
    by (cases l; cases r) (simp_all add: calc_compare_def q_invalid_operand_def)
qed (simp add: calc_compare_def)

lemma QueryCalc_bits:
  "QueryCalc set_algebra F (sel_bits R sel) op (qbits R l) (qbits R r) = map_option (qbits R) (QueryCalc R F sel op l r)"
proof -
  note arith = calc_arith_bits int_result_bits
  have "calc_and set_algebra (qbits R l) (qbits R r) = qbits R (calc_and R l r)"
    "calc_or set_algebra (qbits R l) (qbits R r) = qbits R (calc_or R l r)"
    by (cases l; cases r; simp add: calc_and_def calc_or_def q_invalid_operand_def set_algebra_def)+
  moreover have "calc_plus F (qbits R l) (qbits R r) = map_option (qbits R) (calc_plus F l r)"
    "calc_minus F (qbits R l) (qbits R r) = map_option (qbits R) (calc_minus F l r)"
    "calc_times F (qbits R l) (qbits R r) = map_option (qbits R) (calc_times F l r)"
    "calc_divide F (qbits R l) (qbits R r) = map_option (qbits R) (calc_divide F l r)"
    unfolding calc_plus_def calc_minus_def calc_times_def calc_divide_def
    by (rule calc_arith_bits; simp add: int_result_def)+
  ultimately show ?thesis
    by (cases op) (simp_all add: QueryCalc_def calc_equal_def calc_not_equal_def calc_less_def calc_less_equal_def
        calc_greater_def calc_greater_equal_def cmp_plain_bits compare_bits)
qed

end

lemma QueryInterpreter_bits:
  "roaring_api R \<Longrightarrow>
     QueryInterpreter set_algebra F (sel_bits R sel) x = map_option (qbits R) (QueryInterpreter R F sel x)"
  "roaring_api R \<Longrightarrow>
     apply_operations set_algebra F (sel_bits R sel) rest (qbits R v) = map_option (qbits R) (apply_operations R F sel rest v)"
proof (induction R F sel x and R F sel rest v rule: QueryInterpreter_apply_operations.induct)
  case (9 R F sel op x)
  then show ?case using unary_bits[of F op R] by (cases "QueryInterpreter R F sel x") simp_all
next
  case (10 R F sel lhs rt rf)
  show ?case
  proof (cases "QueryInterpreter R F sel lhs")
    case (Some test)
    then show ?thesis using 10 by (cases test) simp_all
  qed (use 10 in simp)
next
  case (11 R F sel first rest)
  then show ?case by (cases "QueryInterpreter R F sel first") simp_all
next
  case (13 R F sel op x rest state)
  show ?case
  proof (cases "QueryInterpreter R F sel x")
    case (Some rhs)
    then show ?thesis
      using 13 roaring_api.QueryCalc_bits[OF "13.prems", of F sel op state rhs]
      by (cases "QueryCalc R F sel op state rhs") simp_all
  qed (use 13 in simp)
qed (auto simp: q_unknown_error_def split: option.split)

section \<open>Types\<close>

datatype qtype = TBool | TInt | TDouble | TStr | TField | TBitmap

fun has_type :: "('p, 'b) RobimsQueryValue \<Rightarrow> qtype \<Rightarrow> bool" where
  "has_type (QBool _) t \<longleftrightarrow> t = TBool"
| "has_type (QInt _) t \<longleftrightarrow> t = TInt"
| "has_type (QDouble _) t \<longleftrightarrow> t = TDouble"
| "has_type (QStr _) t \<longleftrightarrow> t = TStr"
| "has_type (QField _) t \<longleftrightarrow> t = TField"
| "has_type (QBitmap _) t \<longleftrightarrow> t = TBitmap"
| "has_type (QError _) t \<longleftrightarrow> False"

definition number :: "qtype \<Rightarrow> bool" where
  "number t \<longleftrightarrow> t = TInt \<or> t = TDouble"

text \<open>The type of the result of a binary operation.\<close>

definition op_type :: "Optoken \<Rightarrow> qtype \<Rightarrow> qtype \<Rightarrow> qtype option" where
  "op_type op l r =
     (if op \<in> {op_plus, op_minus, op_times, op_divide}
      then (if number l \<and> number r then Some (if l = TInt \<and> r = TInt then TInt else TDouble) else None)
      else if op \<in> {op_equal, op_not_equal, op_less, op_less_equal, op_greater, op_greater_equal}
      then (let arg = (\<lambda>t. number t \<or> t = TStr \<and> op \<in> {op_equal, op_not_equal})
            in if number l \<and> number r \<or> l = TStr \<and> r = TStr then Some TBool
               else if l = TField \<and> arg r \<or> r = TField \<and> arg l then Some TBitmap else None)
      else if op \<in> {op_and, op_or} then (if l = r \<and> l \<in> {TBool, TBitmap} then Some l else None)
      else None)"

fun type_of :: "'p Operand \<Rightarrow> qtype option"
  and type_of_rest :: "qtype \<Rightarrow> (Optoken \<times> 'p Operand) list \<Rightarrow> qtype option" where
  "type_of (Int_Operand _) = Some TInt"
| "type_of (Double_Operand _) = Some TDouble"
| "type_of (Bool_Operand _) = Some TBool"
| "type_of (String_Operand _) = Some TStr"
| "type_of (Variable _ p) = (case p of None \<Rightarrow> None | Some _ \<Rightarrow> Some TField)"
| "type_of (Unary op x) =
     (if op \<in> {op_positive, op_negative} then Option.bind (type_of x) (\<lambda>t. if number t then Some t else None) else None)"
| "type_of (CondExpr a b c) =
     Option.bind (type_of a) (\<lambda>t. if t = TBool \<and> type_of b = type_of c then type_of b else None)"
| "type_of (Expression x rest) = Option.bind (type_of x) (\<lambda>t. type_of_rest t rest)"
| "type_of _ = None"
| "type_of_rest t [] = Some t"
| "type_of_rest t ((op, x) # rest) =
     Option.bind (type_of x) (\<lambda>u. Option.bind (op_type op t u) (\<lambda>v. type_of_rest v rest))"

text \<open>A selector whose calls all succeed.\<close>

definition sel_succeeds :: "('p, 'b) selector \<Rightarrow> bool" where
  "sel_succeeds sel \<longleftrightarrow> (\<forall>p op arg. \<exists>b. sel p op arg = Some (0, Some b))"

lemma field_select_type:
  assumes "sel_succeeds sel" and "field_arg s v \<noteq> None"
  shows "\<exists>b. field_select R sel s op p v = Some (QBitmap b)"
  using assms by (force simp: field_select_def sel_succeeds_def)

lemma int_result_type: "int_result n = Some v \<Longrightarrow> has_type v TInt"
  by (auto simp: int_result_def split: if_splits)

lemma number_value:
  "number t \<Longrightarrow> has_type v t \<Longrightarrow> t = TInt \<and> (\<exists>i. v = QInt i) \<or> t = TDouble \<and> (\<exists>d. v = QDouble d)"
  by (cases v) (auto simp: number_def)

lemma calc_arith_numbers:
  "calc_arith F fi fd (QInt a) (QInt b) = fi a b"
  "calc_arith F fi fd (QInt a) (QDouble d) = Some (QDouble (fd (i2d F a) d))"
  "calc_arith F fi fd (QDouble c) (QInt b) = Some (QDouble (fd c (i2d F b)))"
  "calc_arith F fi fd (QDouble c) (QDouble d) = Some (QDouble (fd c d))"
  by (simp_all add: calc_arith_def)

lemma calc_arith_type:
  assumes "number t" and "number u" and "has_type l t" and "has_type r u"
    and "\<And>a b v. fi a b = Some v \<Longrightarrow> has_type v TInt" and "calc_arith F fi fd l r = Some v"
  shows "has_type v (if t = TInt \<and> u = TInt then TInt else TDouble)"
  using number_value[OF assms(1,3)] number_value[OF assms(2,4)] assms(6)
  by (elim disjE conjE exE) (simp_all add: calc_arith_numbers assms(5), auto)

lemma arith_type:
  assumes "number t" and "number u" and "has_type l t" and "has_type r u"
    and "op \<in> {op_plus, op_minus, op_times, op_divide}" and "QueryCalc R F sel op l r = Some v"
  shows "has_type v (if t = TInt \<and> u = TInt then TInt else TDouble)"
proof -
  have "has_type v (if t = TInt \<and> u = TInt then TInt else TDouble)"
    if "calc_arith F fi fd l r = Some v" "\<And>a b n. fi a b = Some n \<Longrightarrow> has_type n TInt" for fi fd
    using calc_arith_type[OF assms(1-4) that(2,1)] .
  note arith = this[OF _ int_result_type]
  consider "calc_plus F l r = Some v" | "calc_minus F l r = Some v" | "calc_times F l r = Some v" | "calc_divide F l r = Some v"
    using assms(5,6) by (auto simp: QueryCalc_def)
  then show ?thesis
    unfolding calc_plus_def calc_minus_def calc_times_def calc_divide_def
  proof cases
    case 4
    then show ?thesis by (rule calc_arith_type[OF assms(1-4), rotated]) (auto dest: int_result_type split: if_splits)
  qed (erule arith, assumption)+
qed

lemma calc_compare_field:
  "calc_compare R sel None s op mi (QField p) r = field_select R sel s op p r"
  "field_arg s l \<noteq> None \<Longrightarrow> calc_compare R sel None s op mi l (QField p) = field_select R sel s mi p l"
  by (simp add: calc_compare_def) (cases l; simp add: calc_compare_def field_arg_def)

lemma has_type_field: "has_type v TField \<longleftrightarrow> (\<exists>p. v = QField p)"
  by (cases v) simp_all

lemma compare_type:
  assumes "sel_succeeds sel" and "calc_compare R sel pl s op mi l r = Some v"
  shows "pl \<noteq> None \<Longrightarrow> has_type v TBool"
    and "pl = None \<Longrightarrow> has_type l TField \<and> field_arg s r \<noteq> None \<or> has_type r TField \<and> field_arg s l \<noteq> None \<Longrightarrow> has_type v TBitmap"
proof -
  show "has_type v TBool" if "pl \<noteq> None" using assms(2) that by (auto simp: calc_compare_def)
  assume pl: "pl = None" and "has_type l TField \<and> field_arg s r \<noteq> None \<or> has_type r TField \<and> field_arg s l \<noteq> None"
  then consider p where "l = QField p" "field_arg s r \<noteq> None" | p where "r = QField p" "field_arg s l \<noteq> None"
    by (auto simp: has_type_field)
  then show "has_type v TBitmap"
  proof cases
    case 1
    then show ?thesis using assms(2) pl field_select_type[OF assms(1) 1(2), of R op p] by (auto simp: calc_compare_field)
  next
    case 2
    then show ?thesis using assms(2) pl field_select_type[OF assms(1) 2(2), of R mi p] calc_compare_field(2)[OF 2(2)] by auto
  qed
qed

definition comparable :: "('p, 'b) RobimsQueryValue \<Rightarrow> ('p, 'b) RobimsQueryValue \<Rightarrow> bool" where
  "comparable l r \<longleftrightarrow> (case (l, r) of (QInt _, QInt _) \<Rightarrow> True | (QInt _, QDouble _) \<Rightarrow> True | (QDouble _, QInt _) \<Rightarrow> True
     | (QDouble _, QDouble _) \<Rightarrow> True | (QStr _, QStr _) \<Rightarrow> True | _ \<Rightarrow> False)"

lemma cmp_plain_comparable: "cmp_plain F ci cd cs l r = None \<longleftrightarrow> \<not> comparable l r"
  by (cases l; cases r) (simp_all add: cmp_plain_def comparable_def)

lemma comparable_type:
  "has_type l t \<Longrightarrow> has_type r u \<Longrightarrow> comparable l r \<longleftrightarrow> number t \<and> number u \<or> t = TStr \<and> u = TStr"
  by (cases l; cases r) (auto simp: comparable_def number_def)

text \<open>The comparisons share their shape.\<close>

lemma comparison_shape:
  assumes "op \<in> {op_equal, op_not_equal, op_less, op_less_equal, op_greater, op_greater_equal}"
  obtains pl fop mi where
    "QueryCalc R F sel op l r = calc_compare R sel pl (op \<in> {op_equal, op_not_equal}) fop mi l r"
    "pl = None \<longleftrightarrow> \<not> comparable l r"
proof -
  note defs = QueryCalc_def calc_equal_def calc_not_equal_def calc_less_def calc_less_equal_def
    calc_greater_def calc_greater_equal_def
  have "\<exists>ci cd cs fop mi. QueryCalc R F sel op l r
      = calc_compare R sel (cmp_plain F ci cd cs l r) (op \<in> {op_equal, op_not_equal}) fop mi l r"
    using assms by (elim insertE emptyE) (simp add: defs, (rule exI)+, rule refl)+
  then show thesis using that cmp_plain_comparable by metis
qed

lemma field_arg_type: "has_type v t \<Longrightarrow> field_arg s v \<noteq> None \<longleftrightarrow> number t \<or> t = TStr \<and> s"
  by (cases v) (auto simp: field_arg_def number_def)

lemma comparison_type:
  assumes "op_type op t u = Some w" and l: "has_type l t" and r: "has_type r u" and sel: "sel_succeeds sel"
    and "op \<in> {op_equal, op_not_equal, op_less, op_less_equal, op_greater, op_greater_equal}"
    and "QueryCalc R F sel op l r = Some v"
  shows "has_type v w"
proof -
  obtain pl fop mi where c: "calc_compare R sel pl (op \<in> {op_equal, op_not_equal}) fop mi l r = Some v"
    "pl = None \<longleftrightarrow> \<not> comparable l r"
    using comparison_shape[OF assms(5), of R F sel l r] assms(6) by metis
  have "has_type x TField \<longleftrightarrow> y = TField" if "has_type x y" for x :: "('a, 'b) RobimsQueryValue" and y
    using that by (cases x) auto
  then show ?thesis
    using compare_type[OF sel c(1)] c(2) comparable_type[OF l r] field_arg_type[OF l] field_arg_type[OF r] l r assms(1,5)
    by (auto simp: op_type_def Let_def split: if_splits)
qed

lemma logic_type:
  assumes "op_type op t u = Some w" and "has_type l t" and "has_type r u" and "op \<in> {op_and, op_or}"
    and "QueryCalc R F sel op l r = Some v"
  shows "has_type v w"
  using assms by (cases l; cases r) (auto simp: QueryCalc_def calc_and_def calc_or_def op_type_def split: if_splits)

lemma QueryCalc_type:
  assumes "op_type op t u = Some w" and "has_type l t" and "has_type r u" and "sel_succeeds sel"
    and "QueryCalc R F sel op l r = Some v"
  shows "has_type v w"
proof -
  consider "op \<in> {op_plus, op_minus, op_times, op_divide}"
    | "op \<in> {op_equal, op_not_equal, op_less, op_less_equal, op_greater, op_greater_equal}" | "op \<in> {op_and, op_or}"
    using assms(1) by (auto simp: op_type_def split: if_splits)
  then show ?thesis
  proof cases
    case 1
    then have "number t" "number u" "w = (if t = TInt \<and> u = TInt then TInt else TDouble)"
      using assms(1) by (auto simp: op_type_def split: if_splits)
    then show ?thesis using arith_type[OF _ _ assms(2,3) 1 assms(5)] by simp
  next
    case 2
    then show ?thesis using comparison_type assms by blast
  next
    case 3
    then show ?thesis using logic_type assms by blast
  qed
qed

lemma interpret_type:
  "sel_succeeds sel \<Longrightarrow> type_of x = Some t \<Longrightarrow> QueryInterpreter R F sel x = Some v \<Longrightarrow> has_type v t"
  "sel_succeeds sel \<Longrightarrow> has_type s u \<Longrightarrow> type_of_rest u rest = Some t \<Longrightarrow> apply_operations R F sel rest s = Some v
    \<Longrightarrow> has_type v t"
proof (induction R F sel x and R F sel rest s arbitrary: t v and t u v rule: QueryInterpreter_apply_operations.induct)
  case (9 R F sel op x)
  then obtain y where y: "QueryInterpreter R F sel x = Some y" "interpret_Unary F op y = Some v"
    by (auto simp: bind_eq_Some_conv)
  have ty: "type_of x = Some t" "number t" "op \<in> {op_positive, op_negative}"
    using 9(3) by (auto simp: bind_eq_Some_conv split: if_splits)
  have "has_type y t" using 9(1)[OF 9(2) ty(1) y(1)] .
  then show ?case
    using y(2) ty by (cases y) (auto simp: interpret_Unary_def number_def dest: int_result_type)
next
  case (10 R F sel a b c)
  then obtain test where test: "QueryInterpreter R F sel a = Some test" by (auto simp: bind_eq_Some_conv)
  have ty: "type_of a = Some TBool" "type_of b = Some t" "type_of c = Some t"
    using 10(5) by (auto simp: bind_eq_Some_conv split: if_splits)
  have "has_type test TBool" using 10(1)[OF 10(4) ty(1) test] .
  then obtain d where "test = QBool d" by (cases test) auto
  then show ?case using 10 ty test by (cases d) auto
next
  case (11 R F sel x rest)
  obtain y where y: "QueryInterpreter R F sel x = Some y" "apply_operations R F sel rest y = Some v"
    using "11.prems"(3) by (auto simp: bind_eq_Some_conv)
  obtain u where u: "type_of x = Some u" "type_of_rest u rest = Some t"
    using "11.prems"(2) by (auto simp: bind_eq_Some_conv)
  show ?case by (rule "11.IH"(2)[OF y(1) "11.prems"(1) "11.IH"(1)[OF "11.prems"(1) u(1) y(1)] u(2) y(2)])
next
  case (13 R F sel op x rest s)
  obtain y z where y: "QueryInterpreter R F sel x = Some y" "QueryCalc R F sel op s y = Some z"
    "apply_operations R F sel rest z = Some v"
    using "13.prems"(4) by (auto simp: bind_eq_Some_conv)
  obtain a b where u: "type_of x = Some a" "op_type op u a = Some b" "type_of_rest b rest = Some t"
    using "13.prems"(3) by (auto simp: bind_eq_Some_conv)
  have "has_type y a" by (rule "13.IH"(1)[OF "13.prems"(1) u(1) y(1)])
  from QueryCalc_type[OF u(2) "13.prems"(2) this "13.prems"(1) y(2)]
  show ?case by (rule "13.IH"(2)[OF y(1,2) "13.prems"(1) _ u(3) y(3)])
qed (auto split: option.splits)

section \<open>Definedness\<close>

definition arith_op :: "Optoken \<Rightarrow> bool" where
  "arith_op op \<longleftrightarrow> op \<in> {op_plus, op_minus, op_times, op_divide, op_negative}"

fun arith_free :: "'p Operand \<Rightarrow> bool" where
  "arith_free (Unary op x) \<longleftrightarrow> \<not> arith_op op \<and> arith_free x"
| "arith_free (CondExpr a b c) \<longleftrightarrow> arith_free a \<and> arith_free b \<and> arith_free c"
| "arith_free (Expression x rest) \<longleftrightarrow> arith_free x \<and> (\<forall>p \<in> set rest. \<not> arith_op (fst p) \<and> arith_free (snd p))"
| "arith_free _ \<longleftrightarrow> True"

text \<open>The pointers of a query and of a value are among \<open>P\<close>, and a selection through these is defined.\<close>

fun pointers_in :: "'p set \<Rightarrow> 'p Operand \<Rightarrow> bool" where
  "pointers_in P (Variable _ p) \<longleftrightarrow> set_option p \<subseteq> P"
| "pointers_in P (Unary op x) \<longleftrightarrow> pointers_in P x"
| "pointers_in P (CondExpr a b c) \<longleftrightarrow> pointers_in P a \<and> pointers_in P b \<and> pointers_in P c"
| "pointers_in P (Expression x rest) \<longleftrightarrow> pointers_in P x \<and> (\<forall>p \<in> set rest. pointers_in P (snd p))"
| "pointers_in P _ \<longleftrightarrow> True"

fun value_in :: "'p set \<Rightarrow> ('p, 'b) RobimsQueryValue \<Rightarrow> bool" where
  "value_in P (QField p) \<longleftrightarrow> p \<in> P"
| "value_in P _ \<longleftrightarrow> True"

definition sel_total :: "('p, 'b) selector \<Rightarrow> 'p set \<Rightarrow> bool" where
  "sel_total sel P \<longleftrightarrow> (\<forall>p \<in> P. \<forall>op arg. sel p op arg \<noteq> None)"

lemma field_select_defined:
  assumes "sel_total sel P" and "p \<in> P"
  shows "\<exists>v. field_select R sel s op p w = Some v \<and> value_in P v"
proof (cases "field_arg s w")
  case None
  then show ?thesis by (simp add: field_select_def q_invalid_operand_def)
next
  case (Some arg)
  have "sel p op arg \<noteq> None" using assms by (simp add: sel_total_def)
  then obtain rc out where "sel p op arg = Some (rc, out)" by auto
  then show ?thesis using Some by (simp add: field_select_def)
qed

lemma calc_compare_defined:
  assumes "sel_total sel P" and "value_in P l" and "value_in P r"
  shows "\<exists>v. calc_compare R sel pl s op mi l r = Some v \<and> value_in P v"
  using assms field_select_defined[OF assms(1)]
  by (cases pl; cases l; cases r) (simp_all add: calc_compare_def q_invalid_operand_def)

lemma QueryCalc_defined:
  assumes "sel_total sel P" and "value_in P l" and "value_in P r" and "\<not> arith_op op"
  shows "\<exists>v. QueryCalc R F sel op l r = Some v \<and> value_in P v"
proof -
  have "value_in P (calc_and R l r)" "value_in P (calc_or R l r)"
    by (cases l; cases r; simp add: calc_and_def calc_or_def q_invalid_operand_def)+
  then show ?thesis
    using assms(4) calc_compare_defined[OF assms(1-3), of R]
    by (cases op) (simp_all add: QueryCalc_def arith_op_def calc_equal_def calc_not_equal_def calc_less_def
        calc_less_equal_def calc_greater_def calc_greater_equal_def)
qed

lemma unary_defined: "\<not> arith_op op \<Longrightarrow> \<exists>u. interpret_Unary F op v = Some u \<and> value_in P u"
  by (cases op; cases v) (simp_all add: interpret_Unary_def arith_op_def q_invalid_operand_def)

lemma interpret_defined:
  "sel_total sel P \<Longrightarrow> arith_free x \<Longrightarrow> pointers_in P x \<Longrightarrow> \<exists>v. QueryInterpreter R F sel x = Some v \<and> value_in P v"
  "sel_total sel P \<Longrightarrow> (\<forall>p \<in> set rest. \<not> arith_op (fst p) \<and> arith_free (snd p) \<and> pointers_in P (snd p)) \<Longrightarrow> value_in P s
    \<Longrightarrow> \<exists>v. apply_operations R F sel rest s = Some v \<and> value_in P v"
proof (induction R F sel x and R F sel rest s rule: QueryInterpreter_apply_operations.induct)
  case (9 R F sel op x)
  then show ?case using unary_defined[of op F] by fastforce
next
  case (10 R F sel a b c)
  then obtain v where v: "QueryInterpreter R F sel a = Some v" "value_in P v" by auto
  then show ?case using 10 by (cases v) auto
next
  case (11 R F sel x rest)
  obtain v where v: "QueryInterpreter R F sel x = Some v" "value_in P v" using 11 by auto
  have "\<exists>w. apply_operations R F sel rest v = Some w \<and> value_in P w"
    by (rule "11.IH"(2)[OF v(1) "11.prems"(1) _ v(2)]) (use "11.prems" in auto)
  then show ?case using v by simp
next
  case (13 R F sel op x rest s)
  obtain v where v: "QueryInterpreter R F sel x = Some v" "value_in P v" using 13 by auto
  obtain w where w: "QueryCalc R F sel op s v = Some w" "value_in P w"
    using QueryCalc_defined[OF "13.prems"(1,3) v(2), of op R F] "13.prems"(2) by auto
  have "\<exists>u. apply_operations R F sel rest w = Some u \<and> value_in P u"
    by (rule "13.IH"(2)[OF v(1) w(1) "13.prems"(1) _ w(2)]) (use "13.prems" in auto)
  then show ?case using v w by simp
qed (auto simp: q_unknown_error_def split: option.splits)

text \<open>The quotient of two 64-bit integers fits, with one exception.\<close>

lemma quotient_fits:
  assumes "- (2 ^ 63) \<le> a" "a < 2 ^ 63" "- (2 ^ 63) \<le> b" "b < 2 ^ 63" "b \<noteq> (0 :: int)"
  defines "q \<equiv> sgn a * sgn b * (\<bar>a\<bar> div \<bar>b\<bar>)"
  shows "- (2 ^ 63) \<le> q \<and> q < 2 ^ 63 \<longleftrightarrow> \<not> (a = - (2 ^ 63) \<and> b = -1)"
proof (cases "\<bar>b\<bar> = 1")
  case True
  then have "b = 1 \<or> b = -1" by linarith
  moreover have "sgn a * \<bar>a\<bar> = a" by (rule sgn_mult_abs)
  ultimately show ?thesis using assms(1,2) by (auto simp: q_def)
next
  case False
  then have "2 \<le> \<bar>b\<bar>" using assms(5) by linarith
  then have "\<bar>a\<bar> div \<bar>b\<bar> \<le> \<bar>a\<bar> div 2" by (intro zdiv_mono2) auto
  moreover have "0 \<le> \<bar>a\<bar> div \<bar>b\<bar>" by (simp add: pos_imp_zdiv_nonneg_iff assms(5))
  moreover have "\<bar>q\<bar> \<le> \<bar>a\<bar> div \<bar>b\<bar>" using \<open>0 \<le> _\<close> by (simp add: q_def abs_mult abs_sgn_eq)
  ultimately have "\<bar>q\<bar> < 2 ^ 63" using assms(1,2) by linarith
  then show ?thesis using False by auto
qed

lemma sint_bounds_i64: "- (2 ^ 63) \<le> sint (a :: i64)" "sint (a :: i64) < 2 ^ 63"
  using sint_ge[of a] sint_lt[of a] by simp_all

lemma int_result_undefined: "int_result n = None \<longleftrightarrow> \<not> (- (2 ^ 63) \<le> n \<and> n < 2 ^ 63)"
  by (simp add: int_result_def)

lemma divide_undefined:
  "QueryCalc R F sel op_divide (QInt a) (QInt b) = None \<longleftrightarrow> b = 0 \<or> sint a = - (2 ^ 63) \<and> sint b = -1"
proof (cases "b = 0")
  case False
  then have "sint b \<noteq> 0" by (metis signed_0 signed_word_eqI)
  from quotient_fits[OF sint_bounds_i64[of a] sint_bounds_i64[of b] this] show ?thesis
    unfolding QueryCalc_def calc_divide_def calc_arith_def Optoken.case prod.case RobimsQueryValue.case if_not_P[OF False]
      int_result_undefined
    using False by blast
qed (simp add: QueryCalc_def calc_divide_def calc_arith_def)

section \<open>Names\<close>

lemma init_bind_Err: "init_bind i g = InitErr e \<longleftrightarrow> i = InitErr e \<or> (\<exists>x. i = InitOk x \<and> g x = InitErr e)"
  by (cases i) auto

text \<open>The codes the initialiser returns.\<close>

lemma Initializer_codes:
  "Initializer resolve x = InitErr e \<Longrightarrow> e \<in> {ROBIMS_QUERY_ERR_INVALID_FIELD_ARGS, ROBIMS_QUERY_ERR_INVALID_TABLE_NAME}"
  "init_rest resolve rest = InitErr e \<Longrightarrow> e \<in> {ROBIMS_QUERY_ERR_INVALID_FIELD_ARGS, ROBIMS_QUERY_ERR_INVALID_TABLE_NAME}"
  by (induction resolve x and resolve rest rule: Initializer_init_rest.induct)
    (auto simp: init_Variable_def init_bind_Err split: if_splits resolution.splits)

section \<open>Properties\<close>

text \<open>Two fields with constant contents; the sample query is \<open>t.f > 3 && (t.g = 'x' || t.f = 7)\<close>.\<close>

definition sample_sel :: "(nat, u32 list) selector" where
  "sample_sel p op arg = Some (0, Some (if p = 0 then (if op = FIELD_OP_GT then [4, 5] else [5]) else [6, 4]))"

definition sample_query :: "nat Operand" where
  "sample_query =
     Expression
       (Expression (Variable [''t'', ''f''] (Some 0)) [(op_greater, Int_Operand 3)])
       [(op_and, Expression
          (Expression (Variable [''t'', ''g''] (Some 1)) [(op_equal, String_Operand ''x'')])
          [(op_or, Expression (Variable [''t'', ''f''] (Some 0)) [(op_equal, Int_Operand 7)])])]"

lemma sample_query_value: "QueryInterpreter list_roaring F sample_sel sample_query = Some (QBitmap [4, 5])"
  by (simp add: sample_query_def sample_sel_def QueryCalc_def calc_greater_def calc_equal_def calc_compare_def
      cmp_plain_def field_select_def field_arg_def calc_or_def calc_and_def list_roaring_def)

lemma sample_sel_ok: "sel_succeeds sample_sel" "sel_total sample_sel UNIV"
  by (simp_all add: sel_succeeds_def sel_total_def sample_sel_def)



text \<open>
  Evaluation keeps the types: when every selection succeeds and a query has a static type, its value,
  if the evaluation is defined, is of that type, so it is not an error. In particular a query of the
  type of bitmaps never makes the database answer that the result is no bitmap.
\<close>

theorem query_type_sound:
  assumes "sel_succeeds sel" and "type_of x = Some t" and "QueryInterpreter R F sel x = Some v"
  shows "has_type v t"
  by (rule interpret_type(1)[OF assms])

theorem query_type_sound_witness:
  "type_of sample_query = Some TBitmap \<and> has_type (QBitmap [4, 5] :: (nat, u32 list) RobimsQueryValue) TBitmap"
proof -
  have t: "type_of sample_query = Some TBitmap"
    by (simp add: sample_query_def op_type_def number_def)
  show ?thesis
    using t query_type_sound[OF sample_sel_ok(1) t sample_query_value] by simp
qed




text \<open>
  A comparison of a number with a field is the mirrored comparison of the field with the number,
  and a test for equality with a string does not depend on the side of the field.
\<close>

theorem query_mirrored:
  assumes "v \<in> {QInt i, QDouble d}" and "w \<in> {v, QStr s}"
  shows "QueryCalc R F sel op_less v (QField p) = QueryCalc R F sel op_greater (QField p) v
    \<and> QueryCalc R F sel op_less_equal v (QField p) = QueryCalc R F sel op_greater_equal (QField p) v
    \<and> QueryCalc R F sel op_greater v (QField p) = QueryCalc R F sel op_less (QField p) v
    \<and> QueryCalc R F sel op_greater_equal v (QField p) = QueryCalc R F sel op_less_equal (QField p) v
    \<and> QueryCalc R F sel op_equal w (QField p) = QueryCalc R F sel op_equal (QField p) w
    \<and> QueryCalc R F sel op_not_equal w (QField p) = QueryCalc R F sel op_not_equal (QField p) w"
  using assms
  by (auto simp: QueryCalc_def calc_less_def calc_less_equal_def calc_greater_def calc_greater_equal_def calc_equal_def
      calc_not_equal_def calc_compare_def cmp_plain_def)

theorem query_mirrored_witness:
  "QueryCalc list_roaring plain_fpu sample_sel op_less (QInt 3) (QField 0) = Some (QBitmap [4, 5])"
  using query_mirrored[where v = "QInt 3" and i = 3 and w = "QInt 3" and d = 0 and s = "''x''" and R = list_roaring
      and F = plain_fpu and sel = sample_sel and p = 0]
  by (simp add: QueryCalc_def calc_greater_def calc_compare_def cmp_plain_def field_select_def field_arg_def sample_sel_def)


text \<open>
  The initialiser never reports an unknown field name: its only codes are those of a name with
  other than two parts and of an unknown table. A query that is just a field the table does not have
  initialises, and fails later with the code of a missing field instance.
\<close>

theorem query_unknown_field:
  assumes "parse q = Some (Variable [t, f] old)" and "resolve t f = FieldPointer None"
  shows "(\<forall>q'. Query_Init parse resolve q' \<noteq> InitErr ROBIMS_QUERY_ERR_INVALID_FIELD_NAME)
    \<and> (\<exists>y. Query_Init parse resolve q = InitOk y
         \<and> Query_Execute R F sel (Some y) = Some (QError ROBIMS_QUERY_ERR_EMPTY_FIELD_INSTANCE))"
proof -
  have "Query_Init parse resolve q' \<noteq> InitErr ROBIMS_QUERY_ERR_INVALID_FIELD_NAME" for q'
    using Initializer_codes(1)[of resolve _ ROBIMS_QUERY_ERR_INVALID_FIELD_NAME]
    by (auto simp: Query_Init_def robims_codes simp del: Initializer.simps split: option.split)
  then show ?thesis using assms by (simp add: Query_Init_def Query_Execute_def init_Variable_def)
qed

theorem query_unknown_field_witness:
  "\<exists>y. Query_Init (\<lambda>_. Some (Variable [''t'', ''z''] None)) (\<lambda>t f. FieldPointer (if f = ''f'' then Some 0 else None)) ''t.z'' = InitOk y
     \<and> Query_Execute list_roaring plain_fpu sample_sel (Some y) = Some (QError ROBIMS_QUERY_ERR_EMPTY_FIELD_INSTANCE)"
  using query_unknown_field[of "\<lambda>_. Some (Variable [''t'', ''z''] None)" "''t.z''" "''t''" "''z''" None
      "\<lambda>t f. FieldPointer (if f = ''f'' then Some 0 else None)" list_roaring plain_fpu sample_sel] by simp

end
