(* ===== verification/RobimsDb.thy ===== *)
theory RobimsDb
  imports RobimsTableIO RobimsTableCreation RobimsQueryProps
begin

text \<open>
  The database: \<^verbatim>\<open>robims/robims_db_impl.cpp\<close>. Its data are the identifier mapping, the tables and the
  cache of queries. Tables are reached through shared pointers: a table that is replaced is freed, so
  every table carries the number of its instance, and the pointer a cached query holds to a field is
  the instance number of its table and the name of the field. The keys of the table map are views of
  the names in the schemas of the tables; \<open>tables_dangling\<close> records that the table a key refers to has
  been freed, after which a lookup is undefined behaviour. Calls are taken one after the other, so the
  mutexes have no counterpart. \<open>None\<close> as the result of an operation means undefined behaviour or an
  exception.
\<close>

section \<open>The cache of queries\<close>

text \<open>
  \<^verbatim>\<open>EvictingCacheMap\<close> belongs to the folly library. A lookup may reorder the cache, and an insertion may
  evict entries. The locale states that an entry is never changed and never made up.
\<close>

record ('c, 'q) evicting_map =
  ec_new :: "nat \<Rightarrow> 'c"
  ec_find :: "string \<Rightarrow> 'c \<Rightarrow> 'q option \<times> 'c"
  ec_insert :: "string \<Rightarrow> 'q \<Rightarrow> 'c \<Rightarrow> 'c"

definition ec_get :: "('c, 'q) evicting_map \<Rightarrow> 'c \<Rightarrow> string \<Rightarrow> 'q option" where
  "ec_get C c k = fst (ec_find C k c)"

locale evicting_map_api =
  fixes C :: "('c, 'q) evicting_map"
  assumes get_new: "ec_get C (ec_new C n) k = None"
    and get_find: "ec_get C (snd (ec_find C k c)) l = ec_get C c l"
    and get_insert: "ec_get C (ec_insert C k v c) l = Some w \<Longrightarrow> (if l = k then w = v else ec_get C c l = Some w)"

section \<open>State\<close>

type_synonym field_ptr = "nat \<times> string"
type_synonym bound_query = "field_ptr Operand"

record ('b, 'c) RobimsDBData =
  id_mapping :: SimpleIDMapping
  db_tables :: "(string \<times> nat \<times> 'b RobimsTable) list"
  tables_dangling :: bool
  query_cache :: 'c
  next_instance :: nat

definition new_RobimsDBData :: "('c, bound_query) evicting_map \<Rightarrow> ('b, 'c) RobimsDBData" where
  "new_RobimsDBData C =
     \<lparr>id_mapping = new_SimpleIDMapping, db_tables = [], tables_dangling = False, query_cache = ec_new C 1024, next_instance = 0\<rparr>"

text \<open>\<open>tables[name].store(table)\<close>.\<close>

definition store_table :: "string \<Rightarrow> 'b RobimsTable \<Rightarrow> ('b, 'c) RobimsDBData \<Rightarrow> ('b, 'c) RobimsDBData" where
  "store_table name t db =
     db\<lparr>tables_dangling := tables_dangling db \<or> name \<in> fst ` set (db_tables db),
        db_tables := al_put name (next_instance db, t) (db_tables db), next_instance := Suc (next_instance db)\<rparr>"

section \<open>Tables\<close>

definition CreateTableInstance :: "'b roaring \<Rightarrow> fpu \<Rightarrow> TableSchema \<Rightarrow> 'b RobimsTable option" where
  "CreateTableInstance R F schema =
     (case Table_Init R F schema new_RobimsTable of (rc, t) \<Rightarrow> if rc \<noteq> 0 then None else Some t)"

definition DB_CreateTable :: "'b roaring \<Rightarrow> fpu \<Rightarrow> TableSchema \<Rightarrow> ('b, 'c) RobimsDBData
    \<Rightarrow> (int \<times> ('b, 'c) RobimsDBData) option" where
  "DB_CreateTable R F schema db =
     (case CreateTableInstance R F schema of
        None \<Rightarrow> Some (-1, db)
      | Some t \<Rightarrow> if tables_dangling db then None else Some (0, store_table (ts_name (t_schema t)) t db))"

definition DB_CreateTable_str :: "'b roaring \<Rightarrow> fpu \<Rightarrow> (string \<Rightarrow> ast_Table option) \<Rightarrow> string \<Rightarrow> ('b, 'c) RobimsDBData
    \<Rightarrow> (int \<times> ('b, 'c) RobimsDBData) option" where
  "DB_CreateTable_str R F parse schema db =
     (case parse_talbe_creation_desc F parse schema new_TableSchema of
        (rc, table_schema) \<Rightarrow> if rc \<noteq> 0 then Some (rc, db) else DB_CreateTable R F table_schema db)"

text \<open>The inner \<open>None\<close> is the null pointer.\<close>

definition DB_GetTable :: "string \<Rightarrow> ('b, 'c) RobimsDBData \<Rightarrow> (nat \<times> 'b RobimsTable) option option" where
  "DB_GetTable name db = (if tables_dangling db then None else Some (map_of (db_tables db) name))"

text \<open>A call that changes a table in place.\<close>

definition with_table :: "string \<Rightarrow> (SimpleIDMapping \<times> 'b RobimsTable \<Rightarrow> (int \<times> SimpleIDMapping \<times> 'b RobimsTable) option)
    \<Rightarrow> ('b, 'c) RobimsDBData \<Rightarrow> (int \<times> ('b, 'c) RobimsDBData) option" where
  "with_table name f db =
     Option.bind (DB_GetTable name db) (\<lambda>found.
       case found of
         None \<Rightarrow> Some (-1, db)
       | Some (inst, t) \<Rightarrow>
           map_option (\<lambda>(rc, m, t'). (rc, db\<lparr>id_mapping := m, db_tables := al_put name (inst, t') (db_tables db)\<rparr>))
             (f (id_mapping db, t)))"

definition DB_Put :: "'b roaring \<Rightarrow> fpu \<Rightarrow> 'v simdjson \<Rightarrow> (string \<Rightarrow> i64 \<times> u32) \<Rightarrow> string \<Rightarrow> string
    \<Rightarrow> ('b, 'c) RobimsDBData \<Rightarrow> (int \<times> ('b, 'c) RobimsDBData) option" where
  "DB_Put R F J garbage table json = with_table table (Table_Put R F J garbage json)"

definition DB_Remove :: "'b roaring \<Rightarrow> 'v simdjson \<Rightarrow> (string \<Rightarrow> i64 \<times> u32) \<Rightarrow> string \<Rightarrow> string
    \<Rightarrow> ('b, 'c) RobimsDBData \<Rightarrow> (int \<times> ('b, 'c) RobimsDBData) option" where
  "DB_Remove R J garbage table json = with_table table (Table_Remove R J garbage json)"

section \<open>Queries\<close>

definition real_id :: "SimpleIDMapping \<Rightarrow> u32 \<Rightarrow> string" where
  "real_id m x = (case GetID x m of Some s \<Rightarrow> s | None \<Rightarrow> [])"

text \<open>\<^verbatim>\<open>GetRealIDs\<close> appends to its result.\<close>

definition GetRealIDs :: "SimpleIDMapping \<Rightarrow> u32 list \<Rightarrow> string list \<Rightarrow> string list" where
  "GetRealIDs m local_ids ids = ids @ map (real_id m) local_ids"

text \<open>What the initialiser of a query finds, and what a query reaches through the pointers it was given.\<close>

definition db_resolve :: "('b, 'c) RobimsDBData \<Rightarrow> string \<Rightarrow> string \<Rightarrow> field_ptr resolution" where
  "db_resolve db table field =
     (case DB_GetTable table db of
        None \<Rightarrow> ResolveUndef
      | Some None \<Rightarrow> NoTable
      | Some (Some (inst, t)) \<Rightarrow>
          (case Table_GetField field t of
             None \<Rightarrow> ResolveUndef
           | Some found \<Rightarrow> FieldPointer (map_option (\<lambda>_. (inst, field)) found)))"

definition db_selector :: "'b roaring \<Rightarrow> fpu \<Rightarrow> ('b, 'c) RobimsDBData \<Rightarrow> (field_ptr, 'b) selector" where
  "db_selector R F db p op arg =
     (case map_of (map snd (db_tables db)) (fst p) of
        None \<Rightarrow> None
      | Some t \<Rightarrow>
          map_option (\<lambda>fld. Field_Select R F (rbm (t_id_bitmap t)) fld op arg) (map_of (t_fields t) (snd p)))"

text \<open>
  The loop over the buffer. The unused end of the buffer is zero, and 0 is a local identifier as
  well.
\<close>

fun select_ids :: "'b roaring \<Rightarrow> 'b \<Rightarrow> SimpleIDMapping \<Rightarrow> nat \<Rightarrow> nat \<Rightarrow> u32 list \<Rightarrow> string list" where
  "select_ids R b m offset i [] = []"
| "select_ids R b m offset i (x # xs) =
     (if x = 0 \<and> (0 < i \<or> 0 < offset \<or> \<not> rb_contains R b 0) then []
      else real_id m x # select_ids R b m offset (Suc i) xs)"

record SelectResult =
  res_total :: u64
  res_ids :: "string list"

text \<open>The page of a result that \<open>offset\<close> and \<open>limit\<close> select.\<close>

definition select_page :: "'b roaring \<Rightarrow> SimpleIDMapping \<Rightarrow> nat \<Rightarrow> nat \<Rightarrow> 'b \<Rightarrow> SelectResult" where
  "select_page R m offset limit b =
     (let filled = rb_range_array R b offset limit;
          local_ids = filled @ replicate (limit - length filled) 0
      in \<lparr>res_total = rb_cardinality R b, res_ids = select_ids R b m offset 0 local_ids\<rparr>)"

text \<open>The query object: from the cache or initialised and entered.\<close>

definition cached_query :: "('c, bound_query) evicting_map \<Rightarrow> (string \<Rightarrow> bound_query option) \<Rightarrow> string
    \<Rightarrow> ('b, 'c) RobimsDBData \<Rightarrow> bound_query init \<times> ('b, 'c) RobimsDBData" where
  "cached_query C parse query db =
     (case ec_find C query (query_cache db) of
        (Some q, c) \<Rightarrow> (InitOk q, db\<lparr>query_cache := c\<rparr>)
      | (None, c) \<Rightarrow>
          (case Query_Init parse (db_resolve db) query of
             InitOk q \<Rightarrow> (InitOk q, db\<lparr>query_cache := ec_insert C query q c\<rparr>)
           | r \<Rightarrow> (r, db\<lparr>query_cache := c\<rparr>)))"

definition DB_Select :: "'b roaring \<Rightarrow> fpu \<Rightarrow> ('c, bound_query) evicting_map \<Rightarrow> (string \<Rightarrow> bound_query option) \<Rightarrow> string
    \<Rightarrow> int \<Rightarrow> int \<Rightarrow> ('b, 'c) RobimsDBData \<Rightarrow> (int \<times> SelectResult \<times> ('b, 'c) RobimsDBData) option" where
  "DB_Select R F C parse query offset limit db =
     (let lim = nat (if limit \<le> 0 then 100 else limit); off = nat (if offset < 0 then 0 else offset);
          none = \<lparr>res_total = 0, res_ids = []\<rparr>
      in case cached_query C parse query db of
           (InitUndef, db') \<Rightarrow> None
         | (InitErr rc, db') \<Rightarrow> Some (-1, none, db')
         | (InitOk q, db') \<Rightarrow>
             (case Query_Execute R F (db_selector R F db') (Some q) of
                None \<Rightarrow> None
              | Some (QBitmap b) \<Rightarrow> Some (0, select_page R (id_mapping db') off lim b, db')
              | Some v \<Rightarrow> Some (-1, none, db')))"

section \<open>Saving\<close>

definition db_header :: "bool \<Rightarrow> string list \<Rightarrow> DBHeader" where
  "db_header whole tables = \<lparr>hdr_version = 1, hdr_readonly = False, hdr_whole_db = whole, hdr_partial_tables = tables\<rparr>"

text \<open>
  \<open>None\<close> for the file is a failed \<^verbatim>\<open>fopen\<close>. The results are the return code and the file, if there is
  one; the outer \<open>None\<close> is undefined behaviour.
\<close>

fun wr_result :: "wr \<Rightarrow> (int \<times> ofile option) option" where
  "wr_result (Wr rc f) = Some (rc, Some f)"
| "wr_result WrUndef = None"

definition write_tables :: "'b roaring \<Rightarrow> protobuf \<Rightarrow> bool \<Rightarrow> ('b, 'c) RobimsDBData \<Rightarrow> ofile \<Rightarrow> wr" where
  "write_tables R PB readonly db f =
     and_then (file_write_uint32 (of_nat (length (db_tables db))) f)
       (save_each (\<lambda>p. Table_Save R PB readonly (snd (snd p))) (db_tables db))"

definition DB_Save :: "'b roaring \<Rightarrow> protobuf \<Rightarrow> bool \<Rightarrow> ofile option \<Rightarrow> ('b, 'c) RobimsDBData
    \<Rightarrow> (int \<times> ofile option) option" where
  "DB_Save R PB readonly fp db =
     (case fp of
        None \<Rightarrow> Some (-1, None)
      | Some f \<Rightarrow>
          wr_result
            (and_then (file_write_string (header_bytes PB (db_header True [])) f) (\<lambda>f.
             and_then (write_tables R PB readonly db f) (idmap_Save (id_mapping db)))))"

definition DB_SaveTable :: "'b roaring \<Rightarrow> protobuf \<Rightarrow> bool \<Rightarrow> string \<Rightarrow> ofile option \<Rightarrow> ('b, 'c) RobimsDBData
    \<Rightarrow> (int \<times> ofile option) option" where
  "DB_SaveTable R PB readonly table fp db =
     (case DB_GetTable table db of
        None \<Rightarrow> None
      | Some None \<Rightarrow> Some (-1, fp)
      | Some (Some (inst, t)) \<Rightarrow>
          (case fp of
             None \<Rightarrow> Some (-1, None)
           | Some f \<Rightarrow>
               wr_result (and_then (file_write_string (header_bytes PB (db_header False [table])) f) (Table_Save R PB readonly t))))"

section \<open>Loading\<close>

text \<open>One round of the loop over the tables of a whole database; every failure is the code \<open>- 1\<close>.\<close>

definition load_table :: "'b roaring \<Rightarrow> fpu \<Rightarrow> protobuf \<Rightarrow> ('b, 'c) RobimsDBData \<Rightarrow> byte list \<Rightarrow> ('b, 'c) RobimsDBData rd" where
  "load_table R F PB db bs =
     (case Table_Load R F PB new_RobimsTable bs of
        Undef \<Rightarrow> Undef
      | RdErr rc \<Rightarrow> RdErr (-1)
      | Rd t cs \<Rightarrow> if tables_dangling db then Undef else Rd (store_table (ts_name (t_schema t)) t db) cs)"

text \<open>
  The return code of the read of the count is dropped. When it fails the file is at its end and the
  next read fails, whatever the count.
\<close>

definition load_whole :: "'b roaring \<Rightarrow> fpu \<Rightarrow> protobuf \<Rightarrow> ('c, bound_query) evicting_map \<Rightarrow> byte list \<Rightarrow> ('b, 'c) RobimsDBData rd" where
  "load_whole R F PB C bs =
     (case file_read_uint32 bs of
        Undef \<Rightarrow> Undef
      | RdErr rc \<Rightarrow> RdErr (-1)
      | Rd table_size cs \<Rightarrow>
          rd_bind (rd_iter (unat table_size) (load_table R F PB) (new_RobimsDBData C) cs) (\<lambda>db ds.
          rd_bind (idmap_Load (id_mapping db) ds) (\<lambda>m. Rd (db\<lparr>id_mapping := m\<rparr>))))"

text \<open>
  The loop over the tables of a partial file. A table that fails to load is skipped, and the loop goes
  on where the failed load left the file, which is \<open>stuck name\<close>; the return code is the last one.
\<close>

fun load_partial :: "'b roaring \<Rightarrow> fpu \<Rightarrow> protobuf \<Rightarrow> (string \<Rightarrow> byte list) \<Rightarrow> string list \<Rightarrow> int \<Rightarrow> byte list
    \<Rightarrow> ('b, 'c) RobimsDBData \<Rightarrow> (int \<times> ('b, 'c) RobimsDBData) option" where
  "load_partial R F PB stuck [] rc bs db = Some (rc, db)"
| "load_partial R F PB stuck (name # names) rc bs db =
     (case DB_GetTable name db of
        None \<Rightarrow> None
      | Some None \<Rightarrow> Some (-1, db)
      | Some (Some (inst, old)) \<Rightarrow>
          (case CreateTableInstance R F (t_schema old) of
             None \<Rightarrow> Some (-1, db)
           | Some t0 \<Rightarrow>
               (case Table_Load R F PB t0 bs of
                  Undef \<Rightarrow> None
                | RdErr e \<Rightarrow> load_partial R F PB stuck names e (stuck name) db
                | Rd t cs \<Rightarrow> load_partial R F PB stuck names 0 cs (store_table name t db))))"

definition DB_Load :: "'b roaring \<Rightarrow> fpu \<Rightarrow> protobuf \<Rightarrow> ('c, bound_query) evicting_map \<Rightarrow> (string \<Rightarrow> byte list)
    \<Rightarrow> byte list option \<Rightarrow> ('b, 'c) RobimsDBData \<Rightarrow> (int \<times> ('b, 'c) RobimsDBData) option" where
  "DB_Load R F PB C stuck fp db =
     (case fp of
        None \<Rightarrow> Some (-1, db)
      | Some bs \<Rightarrow>
          (case file_read_string bs of
             Undef \<Rightarrow> None
           | RdErr rc \<Rightarrow> Some (-1, db)
           | Rd db_header_bin cs \<Rightarrow>
               (case parse_header PB db_header_bin of
                  None \<Rightarrow> Some (-1, db)
                | Some header \<Rightarrow>
                    if \<not> hdr_whole_db header then load_partial R F PB stuck (hdr_partial_tables header) 0 cs db
                    else case load_whole R F PB C cs of
                           Undef \<Rightarrow> None
                         | RdErr rc \<Rightarrow> Some (rc, db)
                         | Rd new_db ds \<Rightarrow> Some (0, new_db))))"

end
