(* ===== verification/RobimsDbProps.thy ===== *)
theory RobimsDbProps
  imports RobimsDb
begin

text \<open>
  What the database promises: the pages of a result, a cache that can not be noticed, pointers that
  stay valid as long as no table is replaced, and the round trip through a file.
\<close>

section \<open>Pages\<close>

text \<open>The loop ends at the first zero after the first element.\<close>

lemma select_ids_tail:
  assumes "0 < i \<or> 0 < offset" and "0 \<notin> set ys"
  shows "select_ids R b m offset i (ys @ replicate n 0) = map (real_id m) ys"
  using assms
proof (induction ys arbitrary: i)
  case Nil
  then show ?case by (cases n) auto
qed auto

context roaring_api
begin

lemma zero_only_first:
  assumes "ys = take lim (drop off (rb_to_array R b))"
  shows "0 \<notin> set (tl ys)" and "0 < off \<Longrightarrow> 0 \<notin> set ys"
proof -
  let ?a = "rb_to_array R b"
  have strict: "?a ! i < ?a ! j" if "i < j" "j < length ?a" for i j
    using strict_sorted_iff[of ?a] sorted_to_array distinct_to_array that by (simp add: sorted_wrt_iff_nth_less)
  have nz: "?a ! j \<noteq> 0" if "0 < j" "j < length ?a" for j
    using strict[of 0 j] that by auto
  show "0 \<notin> set (tl ys)"
  proof
    assume "0 \<in> set (tl ys)"
    then obtain j where j: "j < length ys - 1" "ys ! Suc j = 0" by (auto simp: in_set_conv_nth nth_tl)
    then have "off + Suc j < length ?a" using assms by simp
    then show False using nz[of "off + Suc j"] j assms by simp
  qed
  show "0 \<notin> set ys" if "0 < off"
  proof
    assume "0 \<in> set ys"
    then obtain j where j: "j < length ys" "ys ! j = 0" by (auto simp: in_set_conv_nth)
    then have "off + j < length ?a" using assms by (simp add: less_diff_conv ac_simps)
    then show False using nz[of "off + j"] j assms that by simp
  qed
qed

lemma select_page_ids:
  assumes "0 < lim"
  shows "res_ids (select_page R m off lim b) = map (real_id m) (take lim (drop off (rb_to_array R b)))"
proof -
  let ?ys = "take lim (drop off (rb_to_array R b))" and ?n = "lim - length (rb_range_array R b off lim)"
  have page: "res_ids (select_page R m off lim b) = select_ids R b m off 0 (?ys @ replicate ?n 0)"
    by (simp add: select_page_def Let_def range_array)
  show ?thesis
  proof (cases "0 < off")
    case True
    then show ?thesis unfolding page by (intro select_ids_tail zero_only_first(2)[OF refl]) simp_all
  next
    case False
    show ?thesis
    proof (cases ?ys)
      case Nil
      then have "rb_bits R b = {}" using assms False set_to_array[of b] by simp
      moreover have "0 < ?n" using Nil assms by (simp add: range_array)
      then obtain k where "?n = Suc k" by (metis gr0_implies_Suc)
      ultimately show ?thesis using page Nil by (simp add: rb_contains_iff)
    next
      case (Cons y zs)
      have "y \<in> set ?ys" unfolding Cons by simp
      then have "y \<in> rb_bits R b" unfolding set_to_array[symmetric] by (meson in_set_dropD in_set_takeD)
      moreover have "0 \<notin> set zs" using zero_only_first(1)[of ?ys lim off b] Cons by simp
      ultimately show ?thesis using select_ids_tail[of 1 off zs] page Cons False by (auto simp: rb_contains_iff)
    qed
  qed
qed

end

section \<open>Bound queries\<close>

text \<open>More tables do not change what a name that was found means.\<close>

lemma init_bind_Ok: "init_bind i g = InitOk y \<longleftrightarrow> (\<exists>x. i = InitOk x \<and> g x = InitOk y)"
  by (cases i) auto

definition resolves_more :: "(string \<Rightarrow> string \<Rightarrow> 'p resolution) \<Rightarrow> (string \<Rightarrow> string \<Rightarrow> 'p resolution) \<Rightarrow> bool" where
  "resolves_more resolve resolve' \<longleftrightarrow> (\<forall>t f p. resolve t f = FieldPointer p \<longrightarrow> resolve' t f = FieldPointer p)"

lemma Initializer_mono:
  "resolves_more resolve resolve' \<Longrightarrow> Initializer resolve x = InitOk y \<Longrightarrow> Initializer resolve' x = InitOk y"
  "resolves_more resolve resolve' \<Longrightarrow> init_rest resolve rest = InitOk rest' \<Longrightarrow> init_rest resolve' rest = InitOk rest'"
  by (induction resolve x and resolve rest arbitrary: y and rest' rule: Initializer_init_rest.induct)
    (auto simp: init_bind_Ok init_Variable_def resolves_more_def split: if_splits resolution.splits)

definition resolves_to :: "(string \<Rightarrow> string \<Rightarrow> 'p resolution) \<Rightarrow> 'p set" where
  "resolves_to resolve = {p. \<exists>t f. resolve t f = FieldPointer (Some p)}"

lemma resolves_toI: "resolve t f = FieldPointer (Some p) \<Longrightarrow> p \<in> resolves_to resolve"
  by (auto simp: resolves_to_def)

lemma Initializer_pointers:
  "Initializer resolve x = InitOk y \<Longrightarrow> pointers_in (resolves_to resolve) y"
  "init_rest resolve rest = InitOk rest' \<Longrightarrow> \<forall>q \<in> set rest'. pointers_in (resolves_to resolve) (snd q)"
  by (induction resolve x and resolve rest arbitrary: y and rest' rule: Initializer_init_rest.induct)
    (fastforce simp: init_bind_Ok init_Variable_def resolves_toI split: if_splits resolution.splits)+

lemma Initializer_arith_free:
  "Initializer resolve x = InitOk y \<Longrightarrow> arith_free x \<Longrightarrow> arith_free y"
  "init_rest resolve rest = InitOk rest' \<Longrightarrow> \<forall>q \<in> set rest. \<not> arith_op (fst q) \<and> arith_free (snd q)
     \<Longrightarrow> \<forall>q \<in> set rest'. \<not> arith_op (fst q) \<and> arith_free (snd q)"
  by (induction resolve x and resolve rest arbitrary: y and rest' rule: Initializer_init_rest.induct)
    (fastforce simp: init_bind_Ok init_Variable_def split: if_splits resolution.splits)+

lemma Initializer_defined:
  "(\<And>t f. resolve t f \<noteq> ResolveUndef) \<Longrightarrow> Initializer resolve x \<noteq> InitUndef"
  "(\<And>t f. resolve t f \<noteq> ResolveUndef) \<Longrightarrow> init_rest resolve rest \<noteq> InitUndef"
proof (induction resolve x and resolve rest rule: Initializer_init_rest.induct)
  case (2 resolve a b c)
  then show ?case by (cases "Initializer resolve a"; cases "Initializer resolve b"; cases "Initializer resolve c") auto
next
  case (3 resolve op x)
  then show ?case by (cases "Initializer resolve x") auto
next
  case (4 resolve x rest)
  then show ?case by (cases "Initializer resolve x"; cases "init_rest resolve rest") auto
next
  case (7 resolve op x rest)
  then show ?case by (cases "Initializer resolve x"; cases "init_rest resolve rest") auto
qed (auto simp: init_Variable_def split: resolution.splits)

section \<open>The invariant\<close>

text \<open>
  Every key is live, every instance has its own number, and a cached query is what the initialiser
  would make of its text now.
\<close>

definition cache_ok :: "('c, bound_query) evicting_map \<Rightarrow> (string \<Rightarrow> bound_query option) \<Rightarrow> ('b, 'c) RobimsDBData \<Rightarrow> bool" where
  "cache_ok C parse db \<longleftrightarrow>
     (\<forall>q y. ec_get C (query_cache db) q = Some y \<longrightarrow> Query_Init parse (db_resolve db) q = InitOk y)"

definition tables_ok :: "('b, 'c) RobimsDBData \<Rightarrow> bool" where
  "tables_ok db \<longleftrightarrow> \<not> tables_dangling db \<and> distinct (map fst (db_tables db))
     \<and> distinct (map (\<lambda>p. fst (snd p)) (db_tables db))
     \<and> (\<forall>p \<in> set (db_tables db). fst (snd p) < next_instance db \<and> \<not> t_dangling (snd (snd p)))"

definition db_wf :: "('c, bound_query) evicting_map \<Rightarrow> (string \<Rightarrow> bound_query option) \<Rightarrow> ('b, 'c) RobimsDBData \<Rightarrow> bool" where
  "db_wf C parse db \<longleftrightarrow> tables_ok db \<and> cache_ok C parse db"

text \<open>The states a database can get into when no table is replaced.\<close>

inductive db_reachable :: "'b roaring \<Rightarrow> fpu \<Rightarrow> 'v simdjson \<Rightarrow> protobuf \<Rightarrow> ('c, bound_query) evicting_map
    \<Rightarrow> (string \<Rightarrow> bound_query option) \<Rightarrow> ('b, 'c) RobimsDBData \<Rightarrow> bool" for R F J PB C parse where
  new: "db_reachable R F J PB C parse (new_RobimsDBData C)"
| create: "db_reachable R F J PB C parse db \<Longrightarrow> DB_CreateTable R F schema db = Some (rc, db') \<Longrightarrow>
    distinct (map fm_name (ts_index_field schema)) \<Longrightarrow> \<not> tables_dangling db' \<Longrightarrow> db_reachable R F J PB C parse db'"
| put: "db_reachable R F J PB C parse db \<Longrightarrow> DB_Put R F J garbage table json db = Some (rc, db') \<Longrightarrow>
    db_reachable R F J PB C parse db'"
| remove: "db_reachable R F J PB C parse db \<Longrightarrow> DB_Remove R J garbage table json db = Some (rc, db') \<Longrightarrow>
    db_reachable R F J PB C parse db'"
| select: "db_reachable R F J PB C parse db \<Longrightarrow> DB_Select R F C parse query offset limit db = Some (rc, res, db') \<Longrightarrow>
    db_reachable R F J PB C parse db'"
| load: "db_reachable R F J PB C parse db \<Longrightarrow> DB_Load R F PB C stuck fp db = Some (rc, db') \<Longrightarrow>
    \<not> tables_dangling db' \<Longrightarrow> db_reachable R F J PB C parse db'"

lemma resolve_ok:
  assumes "tables_ok db"
  shows "db_resolve db t f = (case map_of (db_tables db) t of
     None \<Rightarrow> NoTable | Some (inst, tab) \<Rightarrow> FieldPointer (if f \<in> fst ` set (t_fields tab) then Some (inst, f) else None))"
proof (cases "map_of (db_tables db) t")
  case (Some p)
  then have "\<not> t_dangling (snd p)" using assms by (auto simp: tables_ok_def dest!: map_of_SomeD)
  moreover have "map_of (t_fields (snd p)) f = None \<longleftrightarrow> f \<notin> fst ` set (t_fields (snd p))" by (simp add: map_of_eq_None_iff)
  ultimately show ?thesis
    using Some assms by (cases p; cases "map_of (t_fields (snd p)) f")
      (auto simp: db_resolve_def DB_GetTable_def Table_GetField_def tables_ok_def)
qed (use assms in \<open>auto simp: db_resolve_def DB_GetTable_def tables_ok_def\<close>)

lemma Query_Init_mono:
  "resolves_more resolve resolve' \<Longrightarrow> Query_Init parse resolve q = InitOk y \<Longrightarrow> Query_Init parse resolve' q = InitOk y"
  unfolding Query_Init_def by (cases "parse q") (simp, simp only: option.case Initializer_mono(1))

lemma cache_ok_more:
  assumes "cache_ok C parse db" and "resolves_more (db_resolve db) (db_resolve db')" and "query_cache db' = query_cache db"
  shows "cache_ok C parse db'"
  using assms(1,3) Query_Init_mono[OF assms(2)] by (simp add: cache_ok_def)

text \<open>A fresh table.\<close>

lemma store_table_wf:
  assumes "db_wf C parse db" and "\<not> t_dangling t" and "\<not> tables_dangling (store_table name t db)"
  shows "db_wf C parse (store_table name t db)"
proof -
  let ?db = "store_table name t db"
  have new: "name \<notin> fst ` set (db_tables db)" using assms(3) by (simp add: store_table_def)
  have ts: "db_tables ?db = db_tables db @ [(name, next_instance db, t)]"
    using new by (simp add: store_table_def al_put_fresh)
  have ok: "tables_ok db" "cache_ok C parse db" using assms(1) by (simp_all add: db_wf_def)
  have ok': "tables_ok ?db"
    using ok(1) new assms(2,3) unfolding tables_ok_def ts by (force simp: store_table_def)
  have "resolves_more (db_resolve db) (db_resolve ?db)"
    using new by (auto simp: resolves_more_def resolve_ok[OF ok(1)] resolve_ok[OF ok'] ts map_add_def split: option.splits)
  from cache_ok_more[OF ok(2) this] ok' show ?thesis by (simp add: db_wf_def store_table_def)
qed

text \<open>A table that is changed in place.\<close>

lemma al_put_in_place:
  "map_of m k = Some (i, t) \<Longrightarrow> map fst (al_put k (i, t') m) = map fst m
     \<and> map (\<lambda>p. fst (snd p)) (al_put k (i, t') m) = map (\<lambda>p. fst (snd p)) m"
  by (induction k "(i, t')" m rule: al_put.induct) (auto split: if_splits)

definition keeps_fields :: "'b RobimsTable \<Rightarrow> 'b RobimsTable \<Rightarrow> bool" where
  "keeps_fields t t' \<longleftrightarrow> map fst (t_fields t') = map fst (t_fields t) \<and> t_dangling t' = t_dangling t"

lemma Table_Put_keeps: "Table_Put R F J garbage json (m, t) = Some (rc, m', t') \<Longrightarrow> keeps_fields t t'"
proof (erule Table_Put_cases)
  fix idx m1 flds
  assume flds: "put_fields R F J garbage idx json (t_fields t) = Some (rc, flds)"
    and t': "(m', t') = (m1, t\<lparr>t_id_bitmap := (t_id_bitmap t)\<lparr>rbp := Some (rb_add R (rbm (t_id_bitmap t)) idx)\<rparr>, t_fields := flds\<rparr>)"
  have "map fst flds = map fst (t_fields t)"
    using put_fields_rel[OF flds] by (induction rule: list_all2_induct) auto
  then show ?thesis using t' by (simp add: keeps_fields_def)
qed (simp add: keeps_fields_def)

lemma Table_Remove_keeps: "Table_Remove R J garbage json (m, t) = Some (rc, m', t') \<Longrightarrow> keeps_fields t t'"
  by (auto simp: Table_Remove_def keeps_fields_def split: if_splits prod.splits option.splits)

lemma with_table_cases:
  assumes "with_table name f db = Some (rc, db')"
  obtains (none) "db' = db" "rc = -1"
  | (found) inst t m' t' where "map_of (db_tables db) name = Some (inst, t)" "f (id_mapping db, t) = Some (rc, m', t')"
      "db' = db\<lparr>id_mapping := m', db_tables := al_put name (inst, t') (db_tables db)\<rparr>"
proof (cases "map_of (db_tables db) name")
  case None
  then show ?thesis using assms none by (simp add: with_table_def DB_GetTable_def split: if_splits)
next
  case (Some p)
  then show ?thesis
    using assms found[of "fst p" "snd p"] by (cases p) (auto simp: with_table_def DB_GetTable_def split: if_splits)
qed

lemma with_table_wf:
  assumes "with_table name f db = Some (rc, db')" and wf: "db_wf C parse db"
    and keeps: "\<And>m t rc m' t'. f (m, t) = Some (rc, m', t') \<Longrightarrow> keeps_fields t t'"
  shows "db_wf C parse db'"
proof -
  have ok: "tables_ok db" "cache_ok C parse db" using wf by (simp_all add: db_wf_def)
  consider "db' = db" | inst t m' t' where "map_of (db_tables db) name = Some (inst, t)" "f (id_mapping db, t) = Some (rc, m', t')"
    "db' = db\<lparr>id_mapping := m', db_tables := al_put name (inst, t') (db_tables db)\<rparr>"
    using assms(1) ok(1) by (elim with_table_cases) (simp_all add: tables_ok_def)
  then show ?thesis
  proof cases
    case 2
    have k: "keeps_fields t t'" by (rule keeps[OF 2(2)])
    have keys: "fst ` set (t_fields t') = fst ` set (t_fields t)" using k by (metis keeps_fields_def list.set_map)
    have mem: "(name, inst, t) \<in> set (db_tables db)" by (rule map_of_SomeD[OF 2(1)])
    have "inst < next_instance db" "\<not> t_dangling t'" using ok(1) mem k by (force simp: tables_ok_def keeps_fields_def)+
    then have "fst (snd p) < next_instance db \<and> \<not> t_dangling (snd (snd p))"
      if "p \<in> set (al_put name (inst, t') (db_tables db))" for p
      using subsetD[OF set_al_put that] ok(1) by (auto simp: tables_ok_def)
    then have ok': "tables_ok db'"
      using ok(1) al_put_in_place[OF 2(1), of t'] by (simp add: tables_ok_def 2(3))
    have "resolves_more (db_resolve db) (db_resolve db')"
      using 2(1) keys arg_cong[OF 2(3), of db_tables]
      by (auto simp: resolves_more_def resolve_ok[OF ok(1)] resolve_ok[OF ok'] split: option.splits if_splits)
    from cache_ok_more[OF ok(2) this] ok' show ?thesis by (simp add: db_wf_def 2(3))
  qed (use wf in simp)
qed

text \<open>A query.\<close>

lemma tables_ok_cache [simp]: "tables_ok (db\<lparr>query_cache := c\<rparr>) = tables_ok db"
  by (simp add: tables_ok_def)

lemma db_resolve_cache [simp]: "db_resolve (db\<lparr>query_cache := c\<rparr>) = db_resolve db"
  by (simp add: fun_eq_iff db_resolve_def DB_GetTable_def)

lemma cached_query_tables:
  "cached_query C parse query db = (r, db') \<Longrightarrow> \<exists>c. db' = db\<lparr>query_cache := c\<rparr>"
  by (auto simp: cached_query_def split: prod.splits option.splits init.splits)

locale query_cache_api = evicting_map_api C for C :: "('c, bound_query) evicting_map"
begin

lemma cached_query_wf:
  assumes "cached_query C parse query db = (r, db')" and "db_wf C parse db"
  shows "db_wf C parse db' \<and> r = Query_Init parse (db_resolve db) query"
proof -
  obtain found c where find: "ec_find C query (query_cache db) = (found, c)" by (cases "ec_find C query (query_cache db)")
  have ok: "cache_ok C parse db" "tables_ok db" using assms(2) by (simp_all add: db_wf_def)
  have c: "ec_get C c q = ec_get C (query_cache db) q" for q using get_find[of query "query_cache db" q] find by simp
  have same: "db_wf C parse (db\<lparr>query_cache := c\<rparr>)" using ok c by (simp add: db_wf_def cache_ok_def)
  show ?thesis
  proof (cases found)
    case (Some q)
    then have "ec_get C (query_cache db) query = Some q" using find by (simp add: ec_get_def)
    then show ?thesis using ok(1) same assms(1) find Some by (simp add: cached_query_def cache_ok_def)
  next
    case None
    show ?thesis
    proof (cases "Query_Init parse (db_resolve db) query")
      case (InitOk q)
      have "cache_ok C parse (db\<lparr>query_cache := ec_insert C query q c\<rparr>)"
        using ok(1) InitOk by (auto simp: cache_ok_def c dest!: get_insert split: if_splits)
      then show ?thesis using assms(1) find None InitOk ok(2) by (auto simp: cached_query_def db_wf_def)
    qed (use assms(1) find None same in \<open>auto simp: cached_query_def\<close>)
  qed
qed

end

text \<open>A file.\<close>

lemma rd_iter_inv:
  assumes "rd_iter n g s bs = Rd s' cs" and "P s" and "\<And>s bs s' cs. P s \<Longrightarrow> g s bs = Rd s' cs \<Longrightarrow> P s'"
  shows "P s'"
  using assms(1,2)
proof (induction n arbitrary: s bs)
  case (Suc n)
  then obtain s1 bs1 where "g s bs = Rd s1 bs1" "rd_iter n g s1 bs1 = Rd s' cs" by (auto simp: rd_bind_Rd)
  then show ?case using Suc.IH assms(3) Suc.prems(2) by blast
qed simp

lemma Table_Load_live: "Table_Load R F PB t0 bs = Rd t cs \<Longrightarrow> \<not> t_dangling t"
  by (auto simp: Table_Load_def rd_bind_Rd split: option.splits)

lemma load_table_wf:
  assumes "db_wf C parse db \<or> tables_dangling db" and "load_table R F PB db bs = Rd db' cs"
  shows "db_wf C parse db' \<or> tables_dangling db'"
proof -
  obtain t where t: "Table_Load R F PB new_RobimsTable bs = Rd t cs" "\<not> tables_dangling db"
    "db' = store_table (ts_name (t_schema t)) t db"
    using assms(2) by (auto simp: load_table_def split: rd.splits if_splits)
  then show ?thesis using assms(1) store_table_wf[OF _ Table_Load_live[OF t(1)]] by blast
qed

lemma tables_ok_ids [simp]: "tables_ok (db\<lparr>id_mapping := m\<rparr>) = tables_ok db"
  by (simp add: tables_ok_def)

lemma db_resolve_ids [simp]: "db_resolve (db\<lparr>id_mapping := m\<rparr>) = db_resolve db"
  by (simp add: fun_eq_iff db_resolve_def DB_GetTable_def)

lemma load_partial_dangling:
  "load_partial R F PB stuck names rc bs db = Some (rc', db') \<Longrightarrow> db' = db \<or> tables_dangling db'"
proof (induction R F PB stuck names rc bs db rule: load_partial.induct)
  case (2 R F PB stuck name names rc bs db)
  then show ?case
  proof (cases "DB_GetTable name db")
    case (Some found)
    then show ?thesis
    proof (cases found)
      case (Some p)
      then have g: "DB_GetTable name db = Some (Some (fst p, snd p))" using \<open>DB_GetTable name db = Some found\<close> by simp
      then have "name \<in> fst ` set (db_tables db)"
        by (auto simp: DB_GetTable_def split: if_splits dest!: map_of_SomeD intro: rev_image_eqI)
      then have "tables_dangling (store_table name t db)" for t by (simp add: store_table_def)
      then show ?thesis using "2.prems" "2.IH"[OF g refl refl] g by (cases p) (fastforce split: option.splits rd.splits)
    qed (use "2.prems" in auto)
  qed (use "2.prems" in auto)
qed simp

context query_cache_api
begin

lemma new_db_wf: "db_wf C parse (new_RobimsDBData C)"
  by (simp add: db_wf_def tables_ok_def cache_ok_def new_RobimsDBData_def get_new)

lemma DB_Load_wf:
  assumes "DB_Load R F PB C stuck fp db = Some (rc, db')" and "db_wf C parse db" and "\<not> tables_dangling db'"
  shows "db_wf C parse db'"
proof -
  consider "db' = db" | names cs where "load_partial R F PB stuck names 0 cs db = Some (rc, db')"
    | cs ds where "load_whole R F PB C cs = Rd db' ds"
    using assms(1) by (auto simp: DB_Load_def split: option.splits rd.splits if_splits)
  then show ?thesis
  proof cases
    case 2
    then show ?thesis using load_partial_dangling[OF 2] assms(2,3) by blast
  next
    case 3
    then obtain n cs db1 ds m where l: "rd_iter n (load_table R F PB) (new_RobimsDBData C) cs = Rd db1 ds"
      "db' = db1\<lparr>id_mapping := m\<rparr>"
      by (auto simp: load_whole_def rd_bind_Rd split: rd.splits)
    have "db_wf C parse db1 \<or> tables_dangling db1"
      by (rule rd_iter_inv[OF l(1), of "\<lambda>db. db_wf C parse db \<or> tables_dangling db"])
        (simp_all add: new_db_wf load_table_wf)
    then show ?thesis using assms(3) l(2) by (simp add: db_wf_def cache_ok_def)
  qed (use assms(2) in simp)
qed

lemma DB_Select_wf:
  assumes "DB_Select R F C parse query offset limit db = Some (rc, res, db')" and "db_wf C parse db"
  shows "db_wf C parse db'"
proof -
  obtain r db1 where q: "cached_query C parse query db = (r, db1)" by (cases "cached_query C parse query db")
  then have "db' = db1"
    using assms(1) by (auto simp: DB_Select_def Let_def split: init.splits option.splits RobimsQueryValue.splits)
  then show ?thesis using cached_query_wf[OF q assms(2)] by simp
qed

lemma DB_CreateTable_wf:
  assumes "DB_CreateTable R F schema db = Some (rc, db')" and "db_wf C parse db"
    and "distinct (map fm_name (ts_index_field schema))" and "\<not> tables_dangling db'"
  shows "db_wf C parse db'"
proof (cases "CreateTableInstance R F schema")
  case (Some t)
  then have t: "Table_Init R F schema new_RobimsTable = (0, t)"
    by (auto simp: CreateTableInstance_def split: prod.splits if_splits)
  then have "\<not> t_dangling t" using Table_Init_wf[OF t assms(3)] by (simp add: table_wf_def)
  then show ?thesis using assms Some store_table_wf by (auto simp: DB_CreateTable_def split: if_splits)
qed (use assms in \<open>simp add: DB_CreateTable_def\<close>)

lemma reachable_db_wf: "db_reachable R F J PB C parse db \<Longrightarrow> db_wf C parse db"
proof (induction rule: db_reachable.induct)
  case (put db garbage table json rc db')
  then show ?case by (intro with_table_wf[OF put(2)[unfolded DB_Put_def]]) (auto intro: Table_Put_keeps)
next
  case (remove db garbage table json rc db')
  then show ?case by (intro with_table_wf[OF remove(2)[unfolded DB_Remove_def]]) (auto intro: Table_Remove_keeps)
qed (auto intro: new_db_wf DB_CreateTable_wf DB_Select_wf DB_Load_wf)

end

section \<open>A reference cache\<close>

text \<open>The most recent entries first.\<close>

definition list_cache :: "(nat \<times> (string \<times> 'q) list, 'q) evicting_map" where
  "list_cache = \<lparr>
     ec_new = (\<lambda>n. (n, [])),
     ec_find = (\<lambda>k c. case map_of (snd c) k of
        None \<Rightarrow> (None, c)
      | Some v \<Rightarrow> (Some v, fst c, (k, v) # filter (\<lambda>p. fst p \<noteq> k) (snd c))),
     ec_insert = (\<lambda>k v c. (fst c, take (fst c) ((k, v) # filter (\<lambda>p. fst p \<noteq> k) (snd c))))\<rparr>"

lemma map_of_take: "map_of (take n m) k = Some v \<Longrightarrow> map_of m k = Some v"
  by (induction m arbitrary: n) (auto simp: take_Cons split: nat.splits if_splits)

lemma map_of_without: "map_of (filter (\<lambda>p. fst p \<noteq> k) m) l = (if l = k then None else map_of m l)"
  by (induction m) auto

interpretation lc: query_cache_api "list_cache :: (nat \<times> (string \<times> bound_query) list, bound_query) evicting_map"
proof
  fix n k l v w and c :: "nat \<times> (string \<times> bound_query) list"
  show "ec_get list_cache (ec_new list_cache n :: nat \<times> (string \<times> bound_query) list) k = None"
    by (simp add: ec_get_def list_cache_def)
  show "ec_get list_cache (snd (ec_find list_cache k c)) l = ec_get list_cache c l"
    by (auto simp: ec_get_def list_cache_def map_of_without split: option.splits)
  show "if l = k then w = v else ec_get list_cache c l = Some w" if "ec_get list_cache (ec_insert list_cache k v c) l = Some w"
  proof -
    have "map_of (take (fst c) ((k, v) # filter (\<lambda>p. fst p \<noteq> k) (snd c))) l = Some w"
      using that by (auto simp: ec_get_def list_cache_def split: option.splits)
    from map_of_take[OF this] show ?thesis
      by (auto simp: ec_get_def list_cache_def map_of_without split: option.splits if_splits)
  qed
qed

section \<open>Queries of a database\<close>

text \<open>A database without a cache.\<close>

definition uncached_select :: "'b roaring \<Rightarrow> fpu \<Rightarrow> (string \<Rightarrow> bound_query option) \<Rightarrow> string \<Rightarrow> int \<Rightarrow> int
    \<Rightarrow> ('b, 'c) RobimsDBData \<Rightarrow> (int \<times> SelectResult) option" where
  "uncached_select R F parse query offset limit db =
     (case Query_Init parse (db_resolve db) query of
        InitUndef \<Rightarrow> None
      | InitErr rc \<Rightarrow> Some (-1, \<lparr>res_total = 0, res_ids = []\<rparr>)
      | InitOk q \<Rightarrow>
          (case QueryInterpreter R F (db_selector R F db) q of
             None \<Rightarrow> None
           | Some (QBitmap b) \<Rightarrow>
               Some (0, select_page R (id_mapping db) (nat offset) (nat (if limit \<le> 0 then 100 else limit)) b)
           | Some v \<Rightarrow> Some (-1, \<lparr>res_total = 0, res_ids = []\<rparr>)))"

lemma db_selector_cache [simp]: "db_selector R F (db\<lparr>query_cache := c\<rparr>) = db_selector R F db"
  by (simp add: fun_eq_iff db_selector_def)

context query_cache_api
begin

lemma DB_Select_uncached:
  assumes "db_wf C parse db"
  shows "map_option (\<lambda>(rc, res, _). (rc, res)) (DB_Select R F C parse query offset limit db)
    = uncached_select R F parse query offset limit db"
proof -
  obtain r db1 where q: "cached_query C parse query db = (r, db1)" by (cases "cached_query C parse query db")
  obtain c where db1: "db1 = db\<lparr>query_cache := c\<rparr>" using cached_query_tables[OF q] by blast
  have r: "Query_Init parse (db_resolve db) query = r" using cached_query_wf[OF q assms] by simp
  have off: "nat (if offset < 0 then 0 else offset) = nat offset" by simp
  show ?thesis
    unfolding DB_Select_def uncached_select_def q db1 r off Let_def
    by (cases r) (auto simp: Query_Execute_def split: option.splits RobimsQueryValue.splits)
qed

end

text \<open>The pointers an initialiser gives out lead to fields.\<close>

lemma db_selector_total:
  assumes "tables_ok db"
  shows "sel_total (db_selector R F db) (resolves_to (db_resolve db))"
proof -
  have "db_selector R F db p op arg \<noteq> None" if p: "db_resolve db t f = FieldPointer (Some p)" for p t f op arg
  proof -
    obtain inst tab where tab: "map_of (db_tables db) t = Some (inst, tab)" "f \<in> fst ` set (t_fields tab)" "p = (inst, f)"
      using p by (auto simp: resolve_ok[OF assms] split: option.splits if_splits)
    have "(inst, tab) \<in> set (map snd (db_tables db))" using map_of_SomeD[OF tab(1)] by force
    moreover have "distinct (map fst (map snd (db_tables db)))" using assms by (simp add: tables_ok_def comp_def)
    ultimately have "map_of (map snd (db_tables db)) inst = Some tab" by (metis map_of_is_SomeI)
    moreover have "map_of (t_fields tab) f \<noteq> None" using tab(2) by (simp add: map_of_eq_None_iff)
    ultimately show ?thesis using tab(3) by (auto simp: db_selector_def)
  qed
  then show ?thesis by (auto simp: sel_total_def resolves_to_def)
qed

lemma uncached_select_defined:
  assumes "tables_ok db" and "\<And>x. parse query = Some x \<Longrightarrow> arith_free x"
  shows "uncached_select R F parse query offset limit db \<noteq> None"
proof -
  have "db_resolve db t f \<noteq> ResolveUndef" for t f by (simp add: resolve_ok[OF assms(1)] split: option.splits)
  then have "Query_Init parse (db_resolve db) query \<noteq> InitUndef"
    using Initializer_defined(1)[of "db_resolve db"] by (simp add: Query_Init_def del: Initializer.simps split: option.splits)
  moreover have "QueryInterpreter R F (db_selector R F db) q \<noteq> None"
    if q: "Query_Init parse (db_resolve db) query = InitOk q" for q
  proof -
    obtain x where x: "parse query = Some x" "Initializer (db_resolve db) (Expression x []) = InitOk q"
      using q by (auto simp: Query_Init_def simp del: Initializer.simps split: option.splits)
    have "arith_free q" using Initializer_arith_free(1)[OF x(2)] assms(2)[OF x(1)] by simp
    with interpret_defined(1)[OF db_selector_total[OF assms(1)] _ Initializer_pointers(1)[OF x(2)]]
    show ?thesis by blast
  qed
  ultimately show ?thesis
    by (auto simp: uncached_select_def split: init.splits option.splits RobimsQueryValue.splits)
qed

section \<open>The round trip\<close>

definition stored_ok :: "'b roaring \<Rightarrow> fpu \<Rightarrow> protobuf \<Rightarrow> bool \<Rightarrow> string \<times> nat \<times> 'b RobimsTable \<Rightarrow> bool" where
  "stored_ok R F PB readonly p \<longleftrightarrow> table_wf R (snd (snd p)) \<and> table_savable R F PB readonly (snd (snd p))
     \<and> ts_name (t_schema (snd (snd p))) = fst p"

definition stored_same :: "'b roaring \<Rightarrow> bool \<Rightarrow> string \<times> nat \<times> 'b RobimsTable \<Rightarrow> string \<times> nat \<times> 'b RobimsTable \<Rightarrow> bool" where
  "stored_same R readonly p q \<longleftrightarrow> fst q = fst p \<and> table_same R readonly (snd (snd p)) (snd (snd q))"

definition db_savable :: "'b roaring \<Rightarrow> fpu \<Rightarrow> protobuf \<Rightarrow> bool \<Rightarrow> ('b, 'c) RobimsDBData \<Rightarrow> bool" where
  "db_savable R F PB readonly db \<longleftrightarrow> length (header_bytes PB (db_header True [])) < 2 ^ 32 \<and> length (db_tables db) < 2 ^ 32
     \<and> distinct (map fst (db_tables db)) \<and> (\<forall>p \<in> set (db_tables db). stored_ok R F PB readonly p)
     \<and> idmap_inv (id_mapping db) \<and> idmap_savable (id_mapping db)"

context storage_env
begin

lemma save_load_tables:
  assumes "save_each (\<lambda>p. Table_Save R PB readonly (snd (snd p))) ts f = Wr 0 f'"
    and "\<forall>p \<in> set ts. stored_ok R F PB readonly p"
  shows "\<exists>bs. wrote bs f f' \<and> (\<forall>cs (db :: ('b, 'c) RobimsDBData). \<not> tables_dangling db \<longrightarrow> distinct (map fst (db_tables db) @ map fst ts) \<longrightarrow>
     (\<exists>us n. rd_iter (length ts) (load_table R F PB) db (bs @ cs) = Rd (db\<lparr>db_tables := db_tables db @ us, next_instance := n\<rparr>) cs
       \<and> list_all2 (stored_same R readonly) ts us))"
  using assms
proof (induction ts arbitrary: f)
  case Nil
  have "\<exists>n. db = db\<lparr>next_instance := n\<rparr>" for db :: "('b, 'c) RobimsDBData"
    by (rule exI[of _ "next_instance db"]) simp
  then show ?case using Nil by (intro exI[of _ "[]"]) simp
next
  case (Cons p ts)
  obtain f1 where f1: "Table_Save R PB readonly (snd (snd p)) f = Wr 0 f1"
    "save_each (\<lambda>p. Table_Save R PB readonly (snd (snd p))) ts f1 = Wr 0 f'"
    using Cons.prems(1) by (auto simp: and_then_0)
  have ok: "table_wf R (snd (snd p))" "table_savable R F PB readonly (snd (snd p))" "ts_name (t_schema (snd (snd p))) = fst p"
    using Cons.prems(2) by (simp_all add: stored_ok_def)
  obtain b1 where b1: "wrote b1 f f1"
    "\<And>cs. \<exists>t. Table_Load R F PB new_RobimsTable (b1 @ cs) = Rd t cs \<and> table_same R readonly (snd (snd p)) t"
    using Table_Save_Load[OF f1(1) ok(1,2)] by blast
  obtain b2 where b2: "wrote b2 f1 f'" "\<And>cs (db :: ('b, 'c) RobimsDBData). \<not> tables_dangling db \<Longrightarrow> distinct (map fst (db_tables db) @ map fst ts) \<Longrightarrow>
     (\<exists>us n. rd_iter (length ts) (load_table R F PB) db (b2 @ cs) = Rd (db\<lparr>db_tables := db_tables db @ us, next_instance := n\<rparr>) cs
       \<and> list_all2 (stored_same R readonly) ts us)"
    using Cons.IH[OF f1(2)] Cons.prems(2) by auto
  have "\<exists>us n. rd_iter (length (p # ts)) (load_table R F PB) db ((b1 @ b2) @ cs)
        = Rd (db\<lparr>db_tables := db_tables db @ us, next_instance := n\<rparr>) cs \<and> list_all2 (stored_same R readonly) (p # ts) us"
    if live: "\<not> tables_dangling db" and d: "distinct (map fst (db_tables db) @ map fst (p # ts))"
    for cs and db :: "('b, 'c) RobimsDBData"
  proof -
    obtain t where t: "Table_Load R F PB new_RobimsTable (b1 @ b2 @ cs) = Rd t (b2 @ cs)" "table_same R readonly (snd (snd p)) t"
      using b1(2) by blast
    let ?db = "store_table (fst p) t db"
    have "ts_name (t_schema t) = fst p" using t(2) ok(3) by (simp add: table_same_def)
    then have load: "load_table R F PB db (b1 @ b2 @ cs) = Rd ?db (b2 @ cs)" using t(1) live by (simp add: load_table_def)
    have fresh: "fst p \<notin> fst ` set (db_tables db)" using d by auto
    then have ts: "db_tables ?db = db_tables db @ [(fst p, next_instance db, t)]" "\<not> tables_dangling ?db"
      using live by (simp_all add: store_table_def al_put_fresh)
    obtain us n where us: "rd_iter (length ts) (load_table R F PB) ?db (b2 @ cs)
        = Rd (?db\<lparr>db_tables := db_tables ?db @ us, next_instance := n\<rparr>) cs" "list_all2 (stored_same R readonly) ts us"
      using b2(2)[OF ts(2), of cs] d ts(1) by auto
    have "?db\<lparr>db_tables := db_tables ?db @ us, next_instance := n\<rparr>
        = db\<lparr>db_tables := db_tables db @ (fst p, next_instance db, t) # us, next_instance := n\<rparr>"
      using live fresh unfolding ts(1) by (simp add: store_table_def)
    then show ?thesis
      using us load t(2) by (intro exI[of _ "(fst p, next_instance db, t) # us"] exI[of _ n]) (simp add: stored_same_def)
  qed
  with wrote_trans[OF b1(1) b2(1)] show ?case by blast
qed

lemma DB_Save_Load:
  assumes "DB_Save R PB readonly (Some f) db = Some (0, Some f')" and ok: "db_savable R F PB readonly db"
  shows "\<exists>bs. o_data f' = o_data f @ bs \<and> (\<exists>new. DB_Load R F PB C stuck (Some bs) db0 = Some (0, new)
    \<and> \<not> tables_dangling new \<and> list_all2 (stored_same R readonly) (db_tables db) (db_tables new)
    \<and> idmap_same (id_mapping db) (id_mapping new))"
proof -
  let ?h = "header_bytes PB (db_header True [])" and ?ts = "db_tables db"
  obtain f1 f2 f3 where w: "file_write_string ?h f = Wr 0 f1" "file_write_uint32 (of_nat (length ?ts)) f1 = Wr 0 f2"
    "save_each (\<lambda>p. Table_Save R PB readonly (snd (snd p))) ?ts f2 = Wr 0 f3" "idmap_Save (id_mapping db) f3 = Wr 0 f'"
  proof -
    have "and_then (file_write_string ?h f) (\<lambda>f. and_then (write_tables R PB readonly db f) (idmap_Save (id_mapping db))) = Wr 0 f'"
      using assms(1) by (cases "and_then (file_write_string ?h f) (\<lambda>f. and_then (write_tables R PB readonly db f) (idmap_Save (id_mapping db)))")
        (simp_all add: DB_Save_def)
    then show thesis using that by (auto simp: and_then_0 write_tables_def)
  qed
  obtain b1 where b1: "wrote b1 f f1" "\<And>cs. file_read_string (b1 @ cs) = Rd ?h cs"
    using string_codec.save_load[OF w(1)] ok by (auto simp: db_savable_def)
  have b2: "wrote (mem32 (htonl (of_nat (length ?ts)))) f1 f2" using w(2) by (simp add: file_write_uint32_0)
  have tables: "\<forall>p \<in> set ?ts. stored_ok R F PB readonly p" and d: "distinct (map fst ?ts)"
    and n: "unat (of_nat (length ?ts) :: u32) = length ?ts"
    using ok by (simp_all add: db_savable_def unat_of_nat)
  have "\<not> tables_dangling (new_RobimsDBData C)" "distinct (map fst (db_tables (new_RobimsDBData C)) @ map fst ?ts)"
    using d by (simp_all add: new_RobimsDBData_def)
  then obtain b3 where b3: "wrote b3 f2 f3" "\<And>cs. \<exists>us n. rd_iter (length ?ts) (load_table R F PB) (new_RobimsDBData C) (b3 @ cs)
      = Rd ((new_RobimsDBData C)\<lparr>db_tables := us, next_instance := n\<rparr>) cs \<and> list_all2 (stored_same R readonly) ?ts us"
    using save_load_tables[OF w(3) tables] by (fastforce simp: new_RobimsDBData_def)
  obtain b4 where b4: "wrote b4 f3 f'"
    "\<And>cs. \<exists>m. idmap_Load new_SimpleIDMapping (b4 @ cs) = Rd m cs \<and> idmap_same (id_mapping db) m"
    using idmap_Save_Load[OF w(4)] ok by (auto simp: db_savable_def)
  let ?bs = "b1 @ mem32 (htonl (of_nat (length ?ts))) @ b3 @ b4"
  obtain us k where us: "rd_iter (length ?ts) (load_table R F PB) (new_RobimsDBData C) (b3 @ b4)
      = Rd ((new_RobimsDBData C)\<lparr>db_tables := us, next_instance := k\<rparr>) b4" "list_all2 (stored_same R readonly) ?ts us"
    using b3(2) by blast
  obtain m where m: "idmap_Load new_SimpleIDMapping b4 = Rd m []" "idmap_same (id_mapping db) m"
    using b4(2)[of "[]"] by auto
  have "DB_Load R F PB C stuck (Some ?bs) db0
      = Some (0, (new_RobimsDBData C)\<lparr>db_tables := us, next_instance := k, id_mapping := m\<rparr>)"
    using us(1) m(1) by (simp add: DB_Load_def b1(2) db_header_def load_whole_def n new_RobimsDBData_def)
  moreover have "o_data f' = o_data f @ ?bs"
    using wrote_trans[OF b1(1) wrote_trans[OF b2 wrote_trans[OF b3(1) b4(1)]]] by (simp add: wrote_def)
  ultimately show ?thesis using us(2) m(2) by (intro exI[of _ ?bs]) (simp add: new_RobimsDBData_def)
qed

end

section \<open>A sample\<close>

type_synonym sample_cache = "nat \<times> (string \<times> bound_query) list"

definition sample_parse :: "string \<Rightarrow> bound_query option" where
  "sample_parse q =
     (if q = ''T.city = p'' then Some (Expression (Variable [''T'', ''city''] None) [(op_equal, String_Operand ''p'')]) else None)"

definition empty_db :: "(u32 list, sample_cache) RobimsDBData" where
  "empty_db = new_RobimsDBData list_cache"

definition sample_db :: "(u32 list, sample_cache) RobimsDBData" where
  "sample_db = store_table ''T'' (snd sample_init) empty_db"

abbreviation sample_reached :: "(u32 list, sample_cache) RobimsDBData \<Rightarrow> bool" where
  "sample_reached \<equiv> db_reachable list_roaring plain_fpu sample_json plain_pb list_cache sample_parse"

lemma sample_instance: "CreateTableInstance list_roaring plain_fpu sample_schema = Some (snd sample_init)"
  using sample_init_0 by (simp add: CreateTableInstance_def case_prod_beta)

lemma sample_name: "ts_name (t_schema (snd sample_init)) = ''T''"
  by (simp add: sample_defs)

lemma sample_created: "DB_CreateTable list_roaring plain_fpu sample_schema empty_db = Some (0, sample_db)"
  by (simp add: DB_CreateTable_def sample_instance sample_name sample_db_def)
    (simp add: empty_db_def new_RobimsDBData_def)

lemma sample_db_live: "\<not> tables_dangling sample_db"
  by (simp add: sample_db_def store_table_def empty_db_def new_RobimsDBData_def)

lemma sample_db_reached: "sample_reached sample_db"
proof (rule db_reachable.create[OF _ sample_created sample_distinct sample_db_live])
  show "sample_reached empty_db" unfolding empty_db_def by (rule db_reachable.new)
qed

definition sample_ids :: "SimpleIDMapping \<times> u32 list RobimsTable" where
  "sample_ids = snd (the (sample_put ''A'' (new_SimpleIDMapping, snd sample_init)))"

definition filled_db :: "(u32 list, sample_cache) RobimsDBData" where
  "filled_db = sample_db\<lparr>id_mapping := fst sample_ids, db_tables := [(''T'', 0, snd sample_ids)]\<rparr>"

lemma sample_filled: "DB_Put list_roaring plain_fpu sample_json no_garbage ''T'' ''A'' sample_db = Some (0, filled_db)"
proof -
  have "sample_put ''A'' (new_SimpleIDMapping, snd sample_init) = Some (0, sample_ids)"
    using sample_put_0 by (auto simp: sample_ids_def)
  then show ?thesis
    by (simp add: DB_Put_def with_table_def DB_GetTable_def sample_db_def store_table_def empty_db_def new_RobimsDBData_def
        filled_db_def case_prod_beta)
qed

lemma filled_db_reached: "sample_reached filled_db"
  by (rule db_reachable.put[OF sample_db_reached sample_filled])

lemma filled_select:
  "uncached_select list_roaring plain_fpu sample_parse ''T.city = p'' 0 1 filled_db = Some (0, \<lparr>res_total = 1, res_ids = [''a'']\<rparr>)"
  by (simp add: uncached_select_def Query_Init_def sample_parse_def init_Variable_def db_resolve_def DB_GetTable_def
      filled_db_def sample_ids_def sample_db_def store_table_def empty_db_def new_RobimsDBData_def Table_GetField_def
      QueryCalc_def calc_equal_def calc_compare_def cmp_plain_def field_select_def field_arg_def db_selector_def
      Field_Select_def SetField_Select_def sample_defs list_roaring_def select_page_def real_id_def GetID_def robims_codes)

section \<open>Properties\<close>

text \<open>
  C19. As long as no table has been replaced, the cache of queries can not be noticed: in every such state
  a selection returns the code, the total and the identifiers that initialising the query from its text
  and evaluating it would give, and it is undefined only if that is.
\<close>

theorem db_cache_transparent:
  assumes "query_cache_api C" and "db_reachable R F J PB C parse db"
  shows "map_option (\<lambda>(rc, res, _). (rc, res)) (DB_Select R F C parse query offset limit db)
    = uncached_select R F parse query offset limit db"
  by (rule query_cache_api.DB_Select_uncached[OF assms(1) query_cache_api.reachable_db_wf[OF assms]])

theorem db_cache_transparent_witness:
  "map_option (\<lambda>(rc, res, _). (rc, res)) (DB_Select list_roaring plain_fpu list_cache sample_parse ''T.city = p'' 0 1 filled_db)
    = Some (0, \<lparr>res_total = 1, res_ids = [''a'']\<rparr>)"
  using db_cache_transparent[OF lc.query_cache_api_axioms filled_db_reached, of "''T.city = p''" 0 1] filled_select by simp

text \<open>
  C20. As long as no table has been replaced and no table has two fields of one name, a selection without
  arithmetic has a defined outcome: the pointers to fields that the cached queries hold are live.
\<close>

theorem db_select_safe:
  assumes "query_cache_api C" and "db_reachable R F J PB C parse db" and "\<And>x. parse query = Some x \<Longrightarrow> arith_free x"
  shows "\<exists>rc res db'. DB_Select R F C parse query offset limit db = Some (rc, res, db') \<and> db_reachable R F J PB C parse db'"
proof -
  have wf: "db_wf C parse db" by (rule query_cache_api.reachable_db_wf[OF assms(1,2)])
  then have "uncached_select R F parse query offset limit db \<noteq> None"
    using assms(3) by (intro uncached_select_defined) (simp_all add: db_wf_def)
  then obtain rc res db' where "DB_Select R F C parse query offset limit db = Some (rc, res, db')"
    using query_cache_api.DB_Select_uncached[OF assms(1) wf, of R F query offset limit] by (metis map_option_is_None option.exhaust prod_cases3)
  then show ?thesis using db_reachable.select[OF assms(2)] by blast
qed

theorem db_select_safe_witness:
  "\<exists>rc res db'. DB_Select list_roaring plain_fpu list_cache sample_parse ''T.city = p'' 0 1 filled_db = Some (rc, res, db')"
proof -
  have "arith_free x" if "sample_parse ''T.city = p'' = Some x" for x
    using that by (auto simp: sample_parse_def arith_op_def)
  from db_select_safe[OF lc.query_cache_api_axioms filled_db_reached this, where offset = 0 and limit = 1] show ?thesis by blast
qed

text \<open>
  C21. A selection that returns 0 is a page of the ids in the bitmap of the query: the total is their number,
  and the identifiers are those of the ids number \<open>offset\<close> to \<open>offset + limit - 1\<close> in increasing order, a
  negative offset standing for 0 and a limit that is not positive for 100. The zero that fills the
  buffer is never taken for the local identifier 0, nor the identifier 0 for the end.
\<close>

theorem db_select_page:
  assumes "roaring_api R" and "DB_Select R F C parse query offset limit db = Some (0, res, db')"
  shows "\<exists>q b. fst (cached_query C parse query db) = InitOk q \<and> QueryInterpreter R F (db_selector R F db) q = Some (QBitmap b)
    \<and> unat (res_total res) = card (rb_bits R b)
    \<and> res_ids res = map (real_id (id_mapping db))
        (take (nat (if limit \<le> 0 then 100 else limit)) (drop (nat offset) (rb_to_array R b)))"
proof -
  obtain r db1 where cq: "cached_query C parse query db = (r, db1)" by (cases "cached_query C parse query db")
  obtain c where db1: "db1 = db\<lparr>query_cache := c\<rparr>" using cached_query_tables[OF cq] by blast
  let ?lim = "nat (if limit \<le> 0 then 100 else limit)"
  obtain q b where q: "r = InitOk q" "QueryInterpreter R F (db_selector R F db) q = Some (QBitmap b)"
    "res = select_page R (id_mapping db) (nat offset) ?lim b"
    using assms(2) cq by (auto simp: DB_Select_def Let_def Query_Execute_def db1 split: init.splits option.splits
        RobimsQueryValue.splits if_splits)
  have "0 < ?lim" by simp
  from roaring_api.select_page_ids[OF assms(1) this] roaring_api.cardinality[OF assms(1), of b] q cq show ?thesis
    by (simp add: select_page_def Let_def)
qed

theorem db_select_page_witness:
  "\<exists>res db' q. DB_Select list_roaring plain_fpu list_cache sample_parse ''T.city = p'' 0 1 filled_db = Some (0, res, db')
    \<and> fst (cached_query list_cache sample_parse ''T.city = p'' filled_db) = InitOk q \<and> length (res_ids res) \<le> 1"
proof -
  obtain res db' where s: "DB_Select list_roaring plain_fpu list_cache sample_parse ''T.city = p'' 0 1 filled_db = Some (0, res, db')"
    using lc.DB_Select_uncached[OF lc.reachable_db_wf[OF filled_db_reached], of list_roaring plain_fpu "''T.city = p''" 0 1] filled_select
    by auto
  from db_select_page[OF lr.roaring_api_axioms s] obtain q b where
    "fst (cached_query list_cache sample_parse ''T.city = p'' filled_db) = InitOk q"
    "res_ids res = map (real_id (id_mapping filled_db)) (take 1 (drop 0 (rb_to_array list_roaring b)))" by auto
  with s show ?thesis by auto
qed

lemma dangling_lookups:
  assumes "tables_dangling db"
  shows "DB_GetTable name db = None \<and> DB_Put R F J garbage name json db = None \<and> DB_Remove R J garbage name json db = None
    \<and> DB_SaveTable R PB readonly name fp db = None"
  using assms by (simp add: DB_GetTable_def DB_Put_def DB_Remove_def with_table_def DB_SaveTable_def)



text \<open>
  C22. When a database has been saved without an error, loading the file into any database returns 0 and gives a
  database with the same tables under the same names and the same identifier mapping, in which every
  key is live.
\<close>

theorem db_save_load:
  assumes "roaring_api R" and "protobuf_api PB" and "db_savable R F PB readonly db"
    and "DB_Save R PB readonly (Some f) db = Some (0, Some f')"
  shows "\<exists>bs. o_data f' = o_data f @ bs \<and> (\<exists>new. DB_Load R F PB C stuck (Some bs) db0 = Some (0, new)
    \<and> \<not> tables_dangling new \<and> idmap_same (id_mapping db) (id_mapping new)
    \<and> (\<forall>name. rel_option (\<lambda>p q. table_same R readonly (snd p) (snd q)) (map_of (db_tables db) name) (map_of (db_tables new) name)))"
proof -
  have "rel_option (\<lambda>p q. table_same R readonly (snd p) (snd q)) (map_of ts name) (map_of us name)"
    if "list_all2 (stored_same R readonly) ts us" for ts us name
    using that by (induction rule: list_all2_induct) (auto simp: stored_same_def)
  with storage_env.DB_Save_Load[OF storage_env.intro[OF assms(1,2)] assms(4,3), of C stuck db0] show ?thesis by blast
qed

lemma sample_table_savable: "table_savable list_roaring plain_fpu plain_pb False (snd sample_init)"
  by (simp add: table_savable_def field_savable_def sample_defs rbm_savable_def plain_pb_def enc_schema_def
      enc_meta_def enc_string_def list_roaring_def list_bits_encode_def set_savable_def)

lemma sample_stored_ok: "stored_ok list_roaring plain_fpu plain_pb False (''T'', i, snd sample_init)"
proof -
  have "table_wf list_roaring (snd sample_init)"
    using lr.reachable_wf[OF sample_reachable sample_distinct] by simp
  then show ?thesis by (simp add: stored_ok_def sample_table_savable sample_name)
qed

theorem db_save_load_witness:
  "\<exists>f' new. DB_Save list_roaring plain_pb False (Some \<lparr>o_data = [], o_space = 2000\<rparr>) sample_db = Some (0, Some f')
     \<and> DB_Load list_roaring plain_fpu plain_pb list_cache (\<lambda>_. []) (Some (o_data f')) empty_db = Some (0, new)
     \<and> map_of (db_tables new) ''T'' \<noteq> None"
proof -
  let ?f = "\<lparr>o_data = [], o_space = 2000\<rparr> :: ofile"
  have tables: "db_tables sample_db = [(''T'', 0, snd sample_init)]" "id_mapping sample_db = new_SimpleIDMapping"
    by (simp_all add: sample_db_def store_table_def empty_db_def new_RobimsDBData_def)
  have "\<exists>f'. DB_Save list_roaring plain_pb False (Some ?f) sample_db = Some (0, Some f')"
    unfolding DB_Save_def write_tables_def tables
    by (simp add: Table_Save_def sample_defs file_write_string_def file_write_uint32_def fwrite_rc_ok RoaringBitmap_Save_def
      Field_Save_def field_DoSave_def SetField_DoSave_def plain_pb_def enc_schema_def enc_meta_def enc_string_def enc_header_def
      db_header_def list_roaring_def list_bits_encode_def idmap_Save_def)
  then obtain f' where f': "DB_Save list_roaring plain_pb False (Some ?f) sample_db = Some (0, Some f')" by blast
  have "db_savable list_roaring plain_fpu plain_pb False sample_db"
    using sample_stored_ok idmap_inv_new
    by (simp add: db_savable_def tables idmap_savable_def plain_pb_def enc_header_def db_header_def enc_string_def)
      (simp add: new_SimpleIDMapping_def)
  from db_save_load[OF lr.roaring_api_axioms plain_pb.protobuf_api_axioms this f', of list_cache "\<lambda>_. []" empty_db]
  obtain new where "DB_Load list_roaring plain_fpu plain_pb list_cache (\<lambda>_. []) (Some (o_data f')) empty_db = Some (0, new)"
    "rel_option (\<lambda>p q. table_same list_roaring False (snd p) (snd q)) (map_of (db_tables sample_db) ''T'') (map_of (db_tables new) ''T'')"
    by auto
  with f' show ?thesis by (cases "map_of (db_tables new) ''T''") (auto simp: tables)
qed



end
