(* ===== verification/DidagleVertex.thy ===== *)
theory DidagleVertex
  imports Prelude "HOL-Library.List_Lexorder" "HOL-Library.Char_ord"
begin

text \<open>
  The vertices of a processing graph: \<^verbatim>\<open>didagle/graph_data.h\<close>, \<^verbatim>\<open>didagle/graph_vertex.h\<close> and
  \<^verbatim>\<open>didagle/graph_vertex.cpp\<close>. A graph owns the vertices of its description and those it generates for
  conditions; a pointer to a vertex is its place in one of the two sequences. A \<^verbatim>\<open>std::set\<close> of
  strings is a sorted list, an unordered container is a list in its order of iteration. \<open>None\<close> as
  the result of a step is the return code \<open>- 1\<close>; the caller gives the graph up.
\<close>

section \<open>Data\<close>

datatype VertexResult = V_RESULT_INVALID | V_RESULT_OK | V_RESULT_ERR | V_RESULT_ALL

definition result_bits :: "VertexResult \<Rightarrow> nat" where
  "result_bits r = (case r of V_RESULT_INVALID \<Rightarrow> 0 | V_RESULT_OK \<Rightarrow> 1 | V_RESULT_ERR \<Rightarrow> 2 | V_RESULT_ALL \<Rightarrow> 3)"

datatype VertexErrCode = V_CODE_INVALID | V_CODE_OK | V_CODE_ERR | V_CODE_SKIP

definition errcode_int :: "VertexErrCode \<Rightarrow> int" where
  "errcode_int c = (case c of V_CODE_INVALID \<Rightarrow> 0 | V_CODE_OK \<Rightarrow> 1 | V_CODE_ERR \<Rightarrow> 2 | V_CODE_SKIP \<Rightarrow> 3)"

record GraphData =
  gd_id :: string
  gd_field :: string
  gd_move_from_when_skipped :: string
  gd_aggregate :: "string list"
  gd_required :: bool
  gd_move :: bool
  gd_is_extern :: bool
  gd_is_in_out :: bool

definition new_GraphData :: GraphData where
  "new_GraphData = \<lparr>gd_id = [], gd_field = [], gd_move_from_when_skipped = [], gd_aggregate = [], gd_required = False,
     gd_move = False, gd_is_extern = False, gd_is_in_out = False\<rparr>"

record ConfigSetting =
  cs_name :: string
  cs_cond :: string
  cs_processor :: string

datatype vptr = User nat | Gen nat

text \<open>The parameters a vertex passes to its processor play no part in building a graph and are left out.\<close>

record Vertex =
  v_id :: string
  v_processor :: string
  v_select_args :: "string list"  \<comment> \<open>the \<^verbatim>\<open>match\<close> of each\<close>
  v_cond :: string
  v_expect :: string
  v_expect_deps :: "string list"
  v_expect_config :: string
  v_is_start :: bool
  v_cluster :: string
  v_graph :: string
  v_while_cluster :: string
  v_while_async :: bool
  v_successor :: "string list"
  v_successor_on_ok :: "string list"
  v_successor_on_err :: "string list"
  v_consequent :: "string list"
  v_alternative :: "string list"
  v_deps :: "string list"
  v_deps_on_ok :: "string list"
  v_deps_on_err :: "string list"
  v_input :: "GraphData list"
  v_output :: "GraphData list"
  v_ignore_processor_execute_error :: bool
  v_successor_vertex :: "vptr list"
  v_deps_expected_results :: "VertexResult list"
  v_deps_idx :: "(vptr \<times> nat) list"
  v_is_id_generated :: bool

definition new_Vertex :: Vertex where
  "new_Vertex = \<lparr>v_id = [], v_processor = [], v_select_args = [], v_cond = [], v_expect = [], v_expect_deps = [],
     v_expect_config = [], v_is_start = False, v_cluster = [], v_graph = [], v_while_cluster = [], v_while_async = True,
     v_successor = [], v_successor_on_ok = [], v_successor_on_err = [], v_consequent = [], v_alternative = [],
     v_deps = [], v_deps_on_ok = [], v_deps_on_err = [], v_input = [], v_output = [],
     v_ignore_processor_execute_error = True, v_successor_vertex = [], v_deps_expected_results = [], v_deps_idx = [],
     v_is_id_generated = False\<rparr>"

record Graph =
  g_name :: string
  g_vertex :: "Vertex list"
  g_gen_vertex :: "Vertex list"
  g_nodes :: "(string \<times> vptr) list"
  g_data_mapping_table :: "(string \<times> vptr) list"
  g_idx :: nat

text \<open>What a graph reads of its cluster.\<close>

record ClusterInfo =
  cl_name :: string
  cl_strict_dsl :: bool
  cl_default_expr_processor :: string
  cl_config_setting :: "ConfigSetting list"

definition vget :: "Graph \<Rightarrow> vptr \<Rightarrow> Vertex" where
  "vget g p = (case p of User i \<Rightarrow> g_vertex g ! i | Gen i \<Rightarrow> g_gen_vertex g ! i)"

definition vset :: "vptr \<Rightarrow> Vertex \<Rightarrow> Graph \<Rightarrow> Graph" where
  "vset p v g =
     (case p of
        User i \<Rightarrow> g\<lparr>g_vertex := (g_vertex g)[i := v]\<rparr>
      | Gen i \<Rightarrow> g\<lparr>g_gen_vertex := (g_gen_vertex g)[i := v]\<rparr>)"

section \<open>Lookups\<close>

definition FindVertexByData :: "string \<Rightarrow> Graph \<Rightarrow> vptr option" where
  "FindVertexByData data g = map_of (g_data_mapping_table g) data"

definition FindVertexById :: "string \<Rightarrow> Graph \<Rightarrow> vptr option" where
  "FindVertexById vid g = map_of (g_nodes g) vid"

definition ContainsConfigSetting :: "string \<Rightarrow> ClusterInfo \<Rightarrow> bool" where
  "ContainsConfigSetting name cl =
     list_ex (\<lambda>cfg. if name \<noteq> [] \<and> hd name = CHR ''!'' then cs_name cfg = tl name else cs_name cfg = name)
       (cl_config_setting cl)"

text \<open>\<^verbatim>\<open>isalpha\<close> and \<^verbatim>\<open>isdigit\<close> in the C locale.\<close>

definition word_char :: "char \<Rightarrow> bool" where
  "word_char c \<longleftrightarrow> (let n = of_char c :: nat in
     65 \<le> n \<and> n \<le> 90 \<or> 97 \<le> n \<and> n \<le> 122 \<or> 48 \<le> n \<and> n \<le> 57 \<or> c = CHR ''_'')"

definition IsCondExpr :: "string \<Rightarrow> bool" where
  "IsCondExpr match = (if match = [] then False else list_ex (\<lambda>ch. \<not> word_char ch) match)"

definition IsCondVertex :: "Vertex \<Rightarrow> bool" where
  "IsCondVertex v \<longleftrightarrow> v_cond v \<noteq> []"

section \<open>Inputs and outputs\<close>

text \<open>The fields a processor declares. \<^verbatim>\<open>ProcessorFactory::GetProcessor\<close> is a function of the name.\<close>

record FieldInfo =
  fi_name :: string
  fi_id :: u32
  fi_is_extern :: bool
  fi_is_aggregate :: bool
  fi_is_in_out :: bool

type_synonym factory = "string \<Rightarrow> (FieldInfo list \<times> FieldInfo list) option"

text \<open>The first matching entry is changed.\<close>

fun fill_input :: "FieldInfo \<Rightarrow> GraphData list \<Rightarrow> GraphData list" where
  "fill_input f [] =
     [new_GraphData\<lparr>gd_id := fi_name f, gd_field := fi_name f, gd_is_extern := fi_is_extern f,
        gd_is_in_out := fi_is_in_out f, gd_move := fi_is_in_out f\<rparr>]"
| "fill_input f (d # ds) =
     (if gd_field d = fi_name f
      then (if fi_is_in_out f
            then d\<lparr>gd_move := True, gd_is_in_out := True, gd_is_extern := gd_is_extern d \<or> fi_is_extern f\<rparr> else d) # ds
      else d # fill_input f ds)"

definition fill_output :: "FieldInfo \<Rightarrow> GraphData list \<Rightarrow> GraphData list" where
  "fill_output f ds =
     (if list_ex (\<lambda>d. gd_field d = fi_name f) ds then ds
      else ds @ [new_GraphData\<lparr>gd_id := fi_name f, gd_field := fi_name f\<rparr>])"

definition FillInputOutput :: "factory \<Rightarrow> Vertex \<Rightarrow> int \<times> Vertex" where
  "FillInputOutput fac v =
     (if v_processor v = [] then (0, v)
      else case fac (v_processor v) of
             None \<Rightarrow> (-1, v)
           | Some (ins, outs) \<Rightarrow>
               (0, v\<lparr>v_input := fold fill_input ins (v_input v), v_output := fold fill_output outs (v_output v)\<rparr>))"

section \<open>Edges\<close>

definition MergeSuccessor :: "Vertex \<Rightarrow> Vertex" where
  "MergeSuccessor v =
     v\<lparr>v_successor_on_ok := fold insort_insert (v_consequent v) (v_successor_on_ok v),
       v_successor_on_err := fold insort_insert (v_alternative v) (v_successor_on_err v)\<rparr>"

text \<open>\<open>Depend this v\<close>: the first expectation for a dependency is kept.\<close>

definition Depend :: "vptr \<Rightarrow> vptr \<Rightarrow> VertexResult \<Rightarrow> Graph \<Rightarrow> Graph" where
  "Depend this v expected g =
     (let dep = vget g v;
          g1 = vset v (dep\<lparr>v_successor_vertex := List.insert this (v_successor_vertex dep)\<rparr>) g;
          me = vget g1 this
      in if v \<in> fst ` set (v_deps_idx me) then g1
         else vset this
                (me\<lparr>v_deps_idx := v_deps_idx me @ [(v, length (v_deps_idx me))],
                    v_deps_expected_results := v_deps_expected_results me @ [expected]\<rparr>) g1)"

fun BuildSuccessors :: "vptr \<Rightarrow> string list \<Rightarrow> VertexResult \<Rightarrow> Graph \<Rightarrow> Graph option" where
  "BuildSuccessors this [] expected g = Some g"
| "BuildSuccessors this (i # ids) expected g =
     (case FindVertexById i g of
        None \<Rightarrow> None
      | Some s \<Rightarrow> BuildSuccessors this ids expected (Depend s this expected g))"

fun BuildDeps :: "vptr \<Rightarrow> string list \<Rightarrow> VertexResult \<Rightarrow> Graph \<Rightarrow> Graph option" where
  "BuildDeps this [] expected g = Some g"
| "BuildDeps this (i # ids) expected g =
     (case FindVertexById i g of
        None \<Rightarrow> None
      | Some d \<Rightarrow> BuildDeps this ids expected (Depend this d expected g))"

text \<open>The dependencies that come from the data a vertex reads.\<close>

fun build_aggregate :: "vptr \<Rightarrow> GraphData \<Rightarrow> string list \<Rightarrow> Graph \<Rightarrow> Graph option" where
  "build_aggregate this data [] g = Some g"
| "build_aggregate this data (a # as) g =
     (case FindVertexByData a g of
        None \<Rightarrow> if gd_is_extern data then build_aggregate this data as g else None
      | Some d \<Rightarrow> build_aggregate this data as
                   (Depend this d (if gd_required data then V_RESULT_OK else V_RESULT_ALL) g))"

fun build_inputs :: "vptr \<Rightarrow> GraphData list \<Rightarrow> Graph \<Rightarrow> Graph option" where
  "build_inputs this [] g = Some g"
| "build_inputs this (data # ds) g =
     (if gd_aggregate data = []
      then (case FindVertexByData (gd_id data) g of
              None \<Rightarrow> if gd_is_extern data then build_inputs this ds g else None
            | Some d \<Rightarrow>
                if gd_is_in_out data \<and> d = this then build_inputs this ds g
                else build_inputs this ds (Depend this d (if gd_required data then V_RESULT_OK else V_RESULT_ALL) g))
      else Option.bind (build_aggregate this data (gd_aggregate data) g) (build_inputs this ds))"

definition Vertex_Build :: "ClusterInfo \<Rightarrow> vptr \<Rightarrow> Graph \<Rightarrow> Graph option" where
  "Vertex_Build cl this g =
     (let v = vget g this in
      if list_ex (\<lambda>m. \<not> IsCondExpr m \<and> \<not> ContainsConfigSetting m cl) (v_select_args v) then None
      else
        Option.bind (BuildDeps this (v_deps v) V_RESULT_ALL g) (\<lambda>g.
        Option.bind (BuildDeps this (v_deps_on_ok v) V_RESULT_OK g) (\<lambda>g.
        Option.bind (BuildDeps this (v_deps_on_err v) V_RESULT_ERR g) (\<lambda>g.
        Option.bind (BuildSuccessors this (v_successor v) V_RESULT_ALL g) (\<lambda>g.
        Option.bind (BuildSuccessors this (v_successor_on_ok v) V_RESULT_OK g) (\<lambda>g.
        Option.bind (BuildSuccessors this (v_successor_on_err v) V_RESULT_ERR g)
          (build_inputs this (v_input v))))))))"

definition Verify :: "Vertex \<Rightarrow> bool" where
  "Verify v =
     (if v_is_start v then v_deps v = [] \<and> v_deps_on_ok v = [] \<and> v_deps_on_err v = []
      else \<not> (v_successor_vertex v = [] \<and> v_deps_idx v = []))"

definition GetDependencyIndex :: "vptr \<Rightarrow> Vertex \<Rightarrow> int" where
  "GetDependencyIndex p v = (case map_of (v_deps_idx v) p of None \<Rightarrow> -1 | Some i \<Rightarrow> int i)"

end
