(* ===== verification/DidagleGraph.thy ===== *)
theory DidagleGraph
  imports DidagleVertex
begin

text \<open>
  Building a graph: \<^verbatim>\<open>Graph\<close> and \<^verbatim>\<open>GraphCluster\<close> of \<^verbatim>\<open>didagle/graph.cpp\<close>. The search for a circle is a
  recursion over pointers that need not end; it gets the number of stack frames it may use, and
  \<open>None\<close> as its result means that these do not suffice.
\<close>

section \<open>Generated vertices\<close>

definition digit_char :: "nat \<Rightarrow> char" where
  "digit_char d = char_of (48 + d)"

text \<open>\<^verbatim>\<open>std::to_string\<close>.\<close>

fun nat_string :: "nat \<Rightarrow> string" where
  "nat_string n = (if n < 10 then [digit_char n] else nat_string (n div 10) @ [digit_char (n mod 10)])"

declare nat_string.simps [simp del]

definition generateNodeId :: "Graph \<Rightarrow> string \<times> Graph" where
  "generateNodeId g = (g_name g @ ''_'' @ nat_string (g_idx g), g\<lparr>g_idx := Suc (g_idx g)\<rparr>)"

definition SetGeneratedId :: "string \<Rightarrow> Vertex \<Rightarrow> Vertex" where
  "SetGeneratedId i v = v\<lparr>v_id := i, v_is_id_generated := True\<rparr>"

definition geneatedCondVertex :: "ClusterInfo \<Rightarrow> string \<Rightarrow> Graph \<Rightarrow> vptr \<times> Graph" where
  "geneatedCondVertex cl cond g =
     (case generateNodeId g of
        (i, g1) \<Rightarrow>
          let v = MergeSuccessor ((SetGeneratedId i new_Vertex)\<lparr>v_processor := cl_default_expr_processor cl, v_cond := cond\<rparr>);
              p = Gen (length (g_gen_vertex g1))
          in (p, g1\<lparr>g_nodes := al_put i p (g_nodes g1), g_gen_vertex := g_gen_vertex g1 @ [v]\<rparr>))"

section \<open>The first pass\<close>

text \<open>The names of a vertex.\<close>

definition prepare_names :: "ClusterInfo \<Rightarrow> nat \<Rightarrow> Graph \<Rightarrow> Graph" where
  "prepare_names cl i g =
     (let n = g_vertex g ! i;
          n = (if v_processor n = [] \<and> v_cond n \<noteq> [] then n\<lparr>v_processor := cl_default_expr_processor cl\<rparr> else n);
          (n, g) = (if v_id n = []
                    then if v_processor n = []
                         then case generateNodeId g of (vid, g) \<Rightarrow> (SetGeneratedId vid n, g)
                         else (n\<lparr>v_id := v_processor n\<rparr>, g)
                    else (n, g));
          n = (if v_graph n \<noteq> [] \<and> (v_cluster n = ''.'' \<or> v_cluster n = []) then n\<lparr>v_cluster := cl_name cl\<rparr> else n)
      in vset (User i) n g)"

text \<open>
  The vertex that evaluates the condition a vertex expects, shared by the vertices with the same
  condition, and the dependency on it. The first component of the state maps conditions to
  vertices.
\<close>

definition prepare_expect :: "ClusterInfo \<Rightarrow> nat \<Rightarrow> (string \<times> vptr) list \<times> Graph \<Rightarrow> (string \<times> vptr) list \<times> Graph" where
  "prepare_expect cl i s =
     (let (conds, g) = s; n = g_vertex g ! i in
      if v_expect n = [] then s
      else
        let (conds, g) =
              (if v_expect n \<in> fst ` set conds then (conds, g)
               else case geneatedCondVertex cl (v_expect n) g of
                      (p, g) \<Rightarrow>
                        (al_put (v_expect n) p conds,
                         vset p (if v_expect_deps n \<noteq> [] then (vget g p)\<lparr>v_deps := v_expect_deps n\<rparr>
                                 else (vget g p)\<lparr>v_deps := v_deps n, v_deps_on_err := v_deps_on_err n,
                                        v_deps_on_ok := v_deps_on_ok n\<rparr>) g));
            p = the (map_of conds (v_expect n))
        in (conds, vset (User i) (n\<lparr>v_deps_on_ok := insort_insert (v_id (vget g p)) (v_deps_on_ok n)\<rparr>) g))"

text \<open>The outputs enter the table of data, every data name once.\<close>

fun prepare_outputs :: "vptr \<Rightarrow> GraphData list \<Rightarrow> (string \<times> vptr) list \<Rightarrow> (GraphData list \<times> (string \<times> vptr) list) option" where
  "prepare_outputs p [] tab = Some ([], tab)"
| "prepare_outputs p (d # ds) tab =
     (if gd_field d = [] then None
      else
        let d = (if gd_id d = [] then d\<lparr>gd_id := gd_field d\<rparr> else d)
        in if gd_id d \<in> fst ` set tab then None
           else map_option (\<lambda>(ds', tab'). (d # ds', tab')) (prepare_outputs p ds (al_put (gd_id d) p tab)))"

definition prepare_inputs :: "GraphData list \<Rightarrow> GraphData list option" where
  "prepare_inputs ds =
     (if list_ex (\<lambda>d. gd_field d = []) ds then None
      else Some (map (\<lambda>d. if gd_id d = [] then d\<lparr>gd_id := gd_field d\<rparr> else d) ds))"

text \<open>The node is entered before the fields of its processor are filled in.\<close>

definition enter_node :: "ClusterInfo \<Rightarrow> factory \<Rightarrow> nat \<Rightarrow> Graph \<Rightarrow> Graph option" where
  "enter_node cl fac i g =
     (let n = g_vertex g ! i in
      if v_id n \<in> fst ` set (g_nodes g) then None
      else
        case FillInputOutput fac (MergeSuccessor n) of
          (rc, n) \<Rightarrow>
            if cl_strict_dsl cl \<and> rc \<noteq> 0 then None
            else
              Option.bind (prepare_outputs (User i) (v_output n) (g_data_mapping_table g)) (\<lambda>(outs, tab).
              Option.bind (prepare_inputs (v_input n)) (\<lambda>ins.
                Some (vset (User i) (n\<lparr>v_output := outs, v_input := ins\<rparr>)
                  (g\<lparr>g_nodes := al_put (v_id n) (User i) (g_nodes g), g_data_mapping_table := tab\<rparr>)))))"

definition prepare_vertex :: "ClusterInfo \<Rightarrow> factory \<Rightarrow> nat \<Rightarrow> (string \<times> vptr) list \<times> Graph
    \<Rightarrow> ((string \<times> vptr) list \<times> Graph) option" where
  "prepare_vertex cl fac i s =
     (let (conds, g) = s; g = prepare_names cl i g; n = g_vertex g ! i in
      if v_expect n \<noteq> [] \<and> v_expect_config n \<noteq> [] then None
      else if v_expect_config n \<noteq> [] \<and> \<not> ContainsConfigSetting (v_expect_config n) cl then None
      else let (conds, g) = prepare_expect cl i (conds, g) in map_option (Pair conds) (enter_node cl fac i g))"

fun prepare_all :: "ClusterInfo \<Rightarrow> factory \<Rightarrow> nat list \<Rightarrow> (string \<times> vptr) list \<times> Graph \<Rightarrow> Graph option" where
  "prepare_all cl fac [] s = Some (snd s)"
| "prepare_all cl fac (i # is) s = Option.bind (prepare_vertex cl fac i s) (prepare_all cl fac is)"

section \<open>The second pass\<close>

fun build_all :: "ClusterInfo \<Rightarrow> vptr list \<Rightarrow> Graph \<Rightarrow> Graph option" where
  "build_all cl [] g = Some g"
| "build_all cl (p # ps) g = Option.bind (Vertex_Build cl p g) (build_all cl ps)"

definition all_ptrs :: "Graph \<Rightarrow> vptr list" where
  "all_ptrs g = map User [0..<length (g_vertex g)] @ map Gen [0..<length (g_gen_vertex g)]"

section \<open>Circles\<close>

fun any_found :: "('a \<Rightarrow> bool option) \<Rightarrow> 'a list \<Rightarrow> bool option" where
  "any_found f [] = Some False"
| "any_found f (x # xs) = (case f x of None \<Rightarrow> None | Some b \<Rightarrow> if b then Some True else any_found f xs)"

primrec FindVertexInSuccessors :: "nat \<Rightarrow> ('p \<Rightarrow> 'p list) \<Rightarrow> 'p \<Rightarrow> 'p \<Rightarrow> bool option" where
  "FindVertexInSuccessors 0 succ v this = None"
| "FindVertexInSuccessors (Suc frames) succ v this =
     (if succ this = [] then Some False
      else if v \<in> set (succ this) then Some True
      else any_found (FindVertexInSuccessors frames succ v) (succ this))"

definition TestCircle :: "nat \<Rightarrow> ('p \<Rightarrow> 'p list) \<Rightarrow> 'p list \<Rightarrow> bool option" where
  "TestCircle frames succ nodes = any_found (\<lambda>v. FindVertexInSuccessors frames succ v v) nodes"

definition g_succ :: "Graph \<Rightarrow> vptr \<Rightarrow> vptr list" where
  "g_succ g p = v_successor_vertex (vget g p)"

section \<open>Build\<close>

datatype build_result = Built Graph | BuildFailed | BuildOverflow

definition Graph_Build :: "nat \<Rightarrow> ClusterInfo \<Rightarrow> factory \<Rightarrow> Graph \<Rightarrow> build_result" where
  "Graph_Build frames cl fac g0 =
     (case Option.bind (prepare_all cl fac [0..<length (g_vertex g0)] ([], g0)) (\<lambda>g. build_all cl (all_ptrs g) g) of
        None \<Rightarrow> BuildFailed
      | Some g \<Rightarrow>
          if list_ex (\<lambda>p. \<not> Verify (vget g p)) (all_ptrs g) then BuildFailed
          else
            case TestCircle frames (g_succ g) (map snd (g_nodes g)) of
              None \<Rightarrow> BuildOverflow
            | Some circle \<Rightarrow>
                if circle then BuildFailed
                else if g_nodes g = [] \<and> g_gen_vertex g = [] then BuildFailed
                else Built g)"

end
