(* ===== verification/DidagleCircle.thy ===== *)
theory DidagleCircle
  imports DidagleGraph
begin

text \<open>
  The search for circles. It is right when it returns, it returns on every graph without a circle,
  but it need not return on a graph with one.
\<close>

definition edges :: "('p \<Rightarrow> 'p list) \<Rightarrow> ('p \<times> 'p) set" where
  "edges succ = {(u, v). v \<in> set (succ u)}"

lemma edges_iff [simp]: "(u, v) \<in> edges succ \<longleftrightarrow> v \<in> set (succ u)"
  by (simp add: edges_def)

lemma any_found_True: "any_found f xs = Some True \<Longrightarrow> \<exists>x \<in> set xs. f x = Some True"
  by (induction xs) (auto split: option.splits if_splits)

lemma any_found_False: "any_found f xs = Some False \<longleftrightarrow> (\<forall>x \<in> set xs. f x = Some False)"
  by (induction xs) (auto split: option.splits if_splits)

lemma any_found_defined: "\<forall>x \<in> set xs. f x \<noteq> None \<Longrightarrow> any_found f xs \<noteq> None"
  by (induction xs) auto

lemma any_found_mono:
  "(\<And>x b. f x = Some b \<Longrightarrow> g x = Some b) \<Longrightarrow> any_found f xs = Some b \<Longrightarrow> any_found g xs = Some b"
  by (induction xs) (auto split: option.splits if_splits)

section \<open>Soundness\<close>

text \<open>A vertex that is found can be reached.\<close>

lemma find_True: "FindVertexInSuccessors n succ v u = Some True \<Longrightarrow> (u, v) \<in> (edges succ)\<^sup>+"
proof (induction n arbitrary: u)
  case (Suc n)
  show ?case
  proof (cases "v \<in> set (succ u)")
    case True
    then show ?thesis by (intro r_into_trancl) simp
  next
    case False
    then obtain x where "x \<in> set (succ u)" "FindVertexInSuccessors n succ v x = Some True"
      using Suc.prems by (auto dest: any_found_True split: if_splits)
    then show ?thesis using Suc.IH by (meson edges_iff trancl_into_trancl2)
  qed
qed simp

text \<open>A search that ends without finding the vertex has seen everything, and there was no circle.\<close>

lemma find_False:
  "FindVertexInSuccessors n succ v u = Some False \<Longrightarrow>
     (u, v) \<notin> (edges succ)\<^sup>+ \<and> (\<forall>w. (u, w) \<in> (edges succ)\<^sup>* \<longrightarrow> (w, w) \<notin> (edges succ)\<^sup>+)"
proof (induction n arbitrary: u)
  case (Suc n)
  let ?E = "edges succ"
  have below: "FindVertexInSuccessors n succ v x = Some False" if "x \<in> set (succ u)" for x
    using Suc.prems that by (auto simp: any_found_False split: if_splits)
  have IH: "(x, v) \<notin> ?E\<^sup>+ \<and> (\<forall>w. (x, w) \<in> ?E\<^sup>* \<longrightarrow> (w, w) \<notin> ?E\<^sup>+)" if "(u, x) \<in> ?E" for x
    using Suc.IH[OF below] that by simp
  have "v \<notin> set (succ u)" using Suc.prems by (auto split: if_splits)
  then have "(u, v) \<notin> ?E\<^sup>+" using IH by (metis edges_iff converse_tranclE)
  moreover have "(w, w) \<notin> ?E\<^sup>+" if uw: "(u, w) \<in> ?E\<^sup>*" for w
  proof
    assume ww: "(w, w) \<in> ?E\<^sup>+"
    then have "(u, w) \<in> ?E\<^sup>+" using uw by (rule rtrancl_trancl_trancl[rotated])
    then obtain x where "(u, x) \<in> ?E" "(x, w) \<in> ?E\<^sup>*" by (meson tranclD)
    then show False using IH ww by blast
  qed
  ultimately show ?case by blast
qed simp

section \<open>Termination\<close>

text \<open>Without a circle the number of vertices that can be reached bounds the depth.\<close>

lemma find_returns:
  assumes "\<And>w. (u, w) \<in> (edges succ)\<^sup>* \<Longrightarrow> (w, w) \<notin> (edges succ)\<^sup>+"
    and "finite {w. (u, w) \<in> (edges succ)\<^sup>+}" and "card {w. (u, w) \<in> (edges succ)\<^sup>+} < n"
  shows "FindVertexInSuccessors n succ v u \<noteq> None"
  using assms
proof (induction n arbitrary: u)
  case (Suc n)
  let ?E = "edges succ" and ?R = "\<lambda>u. {w. (u, w) \<in> (edges succ)\<^sup>+}"
  have "FindVertexInSuccessors n succ v x \<noteq> None" if x: "x \<in> set (succ u)" for x
  proof -
    have ux: "(u, x) \<in> ?E\<^sup>*" using x by (intro r_into_rtrancl) simp
    have "?R x \<subseteq> ?R u" using x by (auto intro: trancl_into_trancl2)
    moreover have "x \<in> ?R u" "x \<notin> ?R x" using x Suc.prems(1)[OF ux] by auto
    ultimately have sub: "?R x \<subset> ?R u" by blast
    then have "card (?R x) < card (?R u)" by (rule psubset_card_mono[OF Suc.prems(2)])
    then show ?thesis
      using Suc.prems(2,3) sub by (intro Suc.IH Suc.prems(1)) (auto intro: finite_subset rtrancl_trans[OF ux])
  qed
  then show ?case using any_found_defined[of "succ u" "FindVertexInSuccessors n succ v"] by auto
qed simp

lemma find_mono: "FindVertexInSuccessors n succ v u = Some b \<Longrightarrow> n \<le> m \<Longrightarrow> FindVertexInSuccessors m succ v u = Some b"
proof (induction n arbitrary: m u b)
  case (Suc n)
  obtain k where m: "m = Suc k" "n \<le> k" using Suc.prems(2) by (cases m) auto
  note mono = any_found_mono[of "FindVertexInSuccessors n succ v" "FindVertexInSuccessors k succ v", OF Suc.IH[OF _ m(2)]]
  show ?case using Suc.prems(1) m(1) mono by (auto split: if_splits)
qed simp

text \<open>The vertices are closed under successors.\<close>

definition closed_graph :: "('p \<Rightarrow> 'p list) \<Rightarrow> 'p list \<Rightarrow> bool" where
  "closed_graph succ nodes \<longleftrightarrow> (\<forall>u \<in> set nodes. set (succ u) \<subseteq> set nodes)"

lemma reach_closed: "closed_graph succ nodes \<Longrightarrow> u \<in> set nodes \<Longrightarrow> (u, w) \<in> (edges succ)\<^sup>+ \<Longrightarrow> w \<in> set nodes"
  by (erule trancl_induct) (auto simp: closed_graph_def)

lemma reach_closed_rtrancl: "closed_graph succ nodes \<Longrightarrow> u \<in> set nodes \<Longrightarrow> (u, w) \<in> (edges succ)\<^sup>* \<Longrightarrow> w \<in> set nodes"
  using reach_closed by (metis rtranclD)

definition on_circle :: "('p \<Rightarrow> 'p list) \<Rightarrow> 'p \<Rightarrow> bool" where
  "on_circle succ v \<longleftrightarrow> (v, v) \<in> (edges succ)\<^sup>+"

lemma TestCircle_returns:
  assumes "closed_graph succ nodes" and "\<forall>v \<in> set nodes. \<not> on_circle succ v" and "length nodes < frames"
  shows "TestCircle frames succ nodes = Some False"
proof -
  have "FindVertexInSuccessors frames succ v v \<noteq> None" if v: "v \<in> set nodes" for v
  proof (rule find_returns)
    have sub: "{w. (v, w) \<in> (edges succ)\<^sup>+} \<subseteq> set nodes" using reach_closed[OF assms(1) v] by blast
    then show "finite {w. (v, w) \<in> (edges succ)\<^sup>+}" by (rule finite_subset) simp
    have "card {w. (v, w) \<in> (edges succ)\<^sup>+} \<le> length nodes"
      using card_mono[OF _ sub] card_length[of nodes] by (meson List.finite_set le_trans)
    then show "card {w. (v, w) \<in> (edges succ)\<^sup>+} < frames" using assms(3) by simp
  qed (use reach_closed_rtrancl[OF assms(1) v] assms(2) in \<open>auto simp: on_circle_def\<close>)
  moreover have "FindVertexInSuccessors frames succ v v \<noteq> Some True" if "v \<in> set nodes" for v
    using find_True[of frames succ v v] assms(2) that by (auto simp: on_circle_def)
  ultimately have "FindVertexInSuccessors frames succ v v = Some False" if "v \<in> set nodes" for v
    using that by (metis (full_types) option.exhaust)
  then show ?thesis by (simp add: TestCircle_def any_found_False)
qed

lemma TestCircle_False: "TestCircle frames succ nodes = Some False \<Longrightarrow> v \<in> set nodes \<Longrightarrow> \<not> on_circle succ v"
  using find_False[of frames succ v v] by (auto simp: TestCircle_def any_found_False on_circle_def)

lemma TestCircle_True: "TestCircle frames succ nodes = Some True \<Longrightarrow> \<exists>v \<in> set nodes. on_circle succ v"
  using find_True by (fastforce simp: TestCircle_def on_circle_def dest: any_found_True)

section \<open>Properties\<close>

text \<open>
  C26. The search for circles is right whenever it returns, and on a graph without a circle it returns:
  one stack frame more than there are vertices suffices.
\<close>

theorem circle_search:
  assumes "closed_graph succ nodes"
  shows "(TestCircle frames succ nodes = Some True \<longrightarrow> (\<exists>v \<in> set nodes. on_circle succ v))
    \<and> (TestCircle frames succ nodes = Some False \<longrightarrow> (\<forall>v \<in> set nodes. \<not> on_circle succ v))
    \<and> ((\<forall>v \<in> set nodes. \<not> on_circle succ v) \<longrightarrow> length nodes < frames \<longrightarrow> TestCircle frames succ nodes = Some False)"
  by (intro conjI impI ballI) (simp_all add: TestCircle_True TestCircle_False TestCircle_returns[OF assms])

theorem circle_search_witness:
  "\<not> on_circle (\<lambda>i. if i < 3 then [Suc i] else []) (2 :: nat)"
proof -
  have "closed_graph (\<lambda>i. if i < 3 then [Suc i] else []) [0, 1, 2, 3 :: nat]" by (auto simp: closed_graph_def)
  from circle_search[OF this, of 5] show ?thesis by (simp add: TestCircle_def numeral_eq_Suc)
qed


text \<open>A vertex in front of a circle of two.\<close>

definition lasso :: "nat \<Rightarrow> nat list" where
  "lasso i = (if i = 0 then [1] else if i = 1 then [2] else if i = 2 then [1] else [])"

lemma lasso_edges: "edges lasso = {(0, 1), (1, 2), (2, 1)}"
  by (auto simp: edges_def lasso_def split: if_splits)


end
