(* ===== verification/DidagleGraphProps.thy ===== *)
theory DidagleGraphProps
  imports DidagleCircle
begin

text \<open>
  What \<^verbatim>\<open>Graph::Build\<close> establishes: every vertex is a node, the edges and the dependencies mirror each
  other, and there is no circle. This is what the executor relies on.
\<close>

section \<open>Pointers\<close>

definition ptrs :: "Graph \<Rightarrow> vptr set" where
  "ptrs g = User ` {..<length (g_vertex g)} \<union> Gen ` {..<length (g_gen_vertex g)}"

lemma set_all_ptrs: "set (all_ptrs g) = ptrs g"
  by (auto simp: all_ptrs_def ptrs_def)

lemma vget_vset: "p \<in> ptrs g \<Longrightarrow> vget (vset p v g) q = (if q = p then v else vget g q)"
  by (cases p; cases q) (auto simp: ptrs_def vget_def vset_def)

lemma vset_frame [simp]:
  "ptrs (vset p v g) = ptrs g" "g_nodes (vset p v g) = g_nodes g" "g_data_mapping_table (vset p v g) = g_data_mapping_table g"
  "g_idx (vset p v g) = g_idx g" "g_name (vset p v g) = g_name g" "length (g_vertex (vset p v g)) = length (g_vertex g)"
  "length (g_gen_vertex (vset p v g)) = length (g_gen_vertex g)"
  by (cases p; simp add: vset_def ptrs_def)+

section \<open>Edges\<close>

definition g_deps :: "Graph \<Rightarrow> vptr \<Rightarrow> vptr list" where
  "g_deps g p = map fst (v_deps_idx (vget g p))"

text \<open>The dependencies are numbered from 0, and each has an expected result.\<close>

definition deps_ok :: "Vertex \<Rightarrow> bool" where
  "deps_ok v \<longleftrightarrow> map snd (v_deps_idx v) = [0..<length (v_deps_idx v)] \<and> distinct (map fst (v_deps_idx v))
     \<and> length (v_deps_expected_results v) = length (v_deps_idx v) \<and> distinct (v_successor_vertex v)"

definition edges_wf :: "Graph \<Rightarrow> bool" where
  "edges_wf g \<longleftrightarrow>
     (\<forall>p \<in> ptrs g. deps_ok (vget g p) \<and> set (g_succ g p) \<subseteq> ptrs g \<and> set (g_deps g p) \<subseteq> ptrs g)
     \<and> (\<forall>p \<in> ptrs g. \<forall>q \<in> ptrs g. q \<in> set (g_succ g p) \<longleftrightarrow> p \<in> set (g_deps g q))"

definition tables_wf :: "Graph \<Rightarrow> bool" where
  "tables_wf g \<longleftrightarrow> snd ` set (g_nodes g) \<subseteq> ptrs g \<and> snd ` set (g_data_mapping_table g) \<subseteq> ptrs g"

text \<open>What a step of the second pass keeps.\<close>

definition same_tables :: "Graph \<Rightarrow> Graph \<Rightarrow> bool" where
  "same_tables g g' \<longleftrightarrow> ptrs g' = ptrs g \<and> g_nodes g' = g_nodes g \<and> g_data_mapping_table g' = g_data_mapping_table g
     \<and> length (g_vertex g') = length (g_vertex g) \<and> length (g_gen_vertex g') = length (g_gen_vertex g)"

lemma same_tables_refl [simp]: "same_tables g g"
  by (simp add: same_tables_def)

lemma same_tables_trans: "same_tables g g1 \<Longrightarrow> same_tables g1 g2 \<Longrightarrow> same_tables g g2"
  by (simp add: same_tables_def)

lemma same_tables_wf: "same_tables g g' \<Longrightarrow> tables_wf g' = tables_wf g"
  by (simp add: same_tables_def tables_wf_def)

lemma Depend_succ:
  assumes "this \<in> ptrs g" and "v \<in> ptrs g"
  shows "g_succ (Depend this v e g) q = (if q = v then List.insert this (g_succ g v) else g_succ g q)"
    and "g_deps (Depend this v e g) q
      = (if q = this \<and> v \<notin> set (g_deps g this) then g_deps g this @ [v] else g_deps g q)"
    and "same_tables g (Depend this v e g)"
  using assms by (auto simp: Depend_def Let_def g_succ_def g_deps_def vget_vset same_tables_def)

lemma Depend_deps_ok:
  assumes "this \<in> ptrs g" and "v \<in> ptrs g" and "deps_ok (vget g q)"
  shows "deps_ok (vget (Depend this v e g) q)"
  using assms by (auto simp: Depend_def Let_def deps_ok_def vget_vset)

lemma Depend_wf:
  assumes "edges_wf g" and "this \<in> ptrs g" and "v \<in> ptrs g"
  shows "edges_wf (Depend this v e g)"
proof -
  let ?g = "Depend this v e g"
  have p: "ptrs ?g = ptrs g" using Depend_succ(3)[OF assms(2,3)] by (simp add: same_tables_def)
  have mirror: "q \<in> set (g_succ ?g r) \<longleftrightarrow> r \<in> set (g_deps ?g q)" if "r \<in> ptrs g" "q \<in> ptrs g" for r q
    using assms that unfolding edges_wf_def by (auto simp: Depend_succ[OF assms(2,3)])
  show ?thesis
    unfolding edges_wf_def p
    using assms(1) mirror Depend_deps_ok[OF assms(2,3)] assms(2,3)
    by (auto simp: edges_wf_def Depend_succ[OF assms(2,3)])
qed

lemma BuildDeps_wf:
  "BuildDeps this ids e g = Some g' \<Longrightarrow> edges_wf g \<Longrightarrow> tables_wf g \<Longrightarrow> this \<in> ptrs g \<Longrightarrow> edges_wf g' \<and> same_tables g g'"
proof (induction this ids e g rule: BuildDeps.induct)
  case (2 this i ids e g)
  then obtain d where d: "FindVertexById i g = Some d" "BuildDeps this ids e (Depend this d e g) = Some g'" by (auto split: option.splits)
  then have "d \<in> ptrs g" using 2(4) by (force simp: FindVertexById_def tables_wf_def dest: map_of_SomeD)
  note k = Depend_wf[OF 2(3) 2(5) this, of e] Depend_succ(3)[OF 2(5) this, of e]
  then show ?case using "2.IH"[OF d(1) d(2)] 2(4,5) same_tables_wf[OF k(2)] same_tables_trans[OF k(2)] by (auto simp: same_tables_def)
qed simp

lemma BuildSuccessors_wf:
  "BuildSuccessors this ids e g = Some g' \<Longrightarrow> edges_wf g \<Longrightarrow> tables_wf g \<Longrightarrow> this \<in> ptrs g \<Longrightarrow> edges_wf g' \<and> same_tables g g'"
proof (induction this ids e g rule: BuildSuccessors.induct)
  case (2 this i ids e g)
  then obtain d where d: "FindVertexById i g = Some d" "BuildSuccessors this ids e (Depend d this e g) = Some g'" by (auto split: option.splits)
  then have "d \<in> ptrs g" using 2(4) by (force simp: FindVertexById_def tables_wf_def dest: map_of_SomeD)
  note k = Depend_wf[OF 2(3) this 2(5), of e] Depend_succ(3)[OF this 2(5), of e]
  then show ?case using "2.IH"[OF d(1) d(2)] 2(4,5) same_tables_wf[OF k(2)] same_tables_trans[OF k(2)] by (auto simp: same_tables_def)
qed simp

lemma by_data_ptr: "FindVertexByData a g = Some d \<Longrightarrow> tables_wf g \<Longrightarrow> d \<in> ptrs g"
  by (force simp: FindVertexByData_def tables_wf_def dest: map_of_SomeD)

lemma build_aggregate_wf:
  "build_aggregate this data as g = Some g' \<Longrightarrow> edges_wf g \<Longrightarrow> tables_wf g \<Longrightarrow> this \<in> ptrs g \<Longrightarrow> edges_wf g' \<and> same_tables g g'"
proof (induction this data as g rule: build_aggregate.induct)
  case (2 this data a as g)
  show ?case
  proof (cases "FindVertexByData a g")
    case None
    then show ?thesis using 2 by (auto split: if_splits)
  next
    case (Some d)
    let ?e = "if gd_required data then V_RESULT_OK else V_RESULT_ALL"
    note k = Depend_wf[OF 2(4,6) by_data_ptr[OF Some 2(5)], of ?e] Depend_succ(3)[OF 2(6) by_data_ptr[OF Some 2(5)], of ?e]
    then show ?thesis
      using 2 Some same_tables_wf[OF k(2)] same_tables_trans[OF k(2)] by (auto simp: same_tables_def)
  qed
qed simp

lemma build_inputs_wf:
  "build_inputs this ds g = Some g' \<Longrightarrow> edges_wf g \<Longrightarrow> tables_wf g \<Longrightarrow> this \<in> ptrs g \<Longrightarrow> edges_wf g' \<and> same_tables g g'"
proof (induction this ds g rule: build_inputs.induct)
  case (2 this data ds g)
  show ?case
  proof (cases "gd_aggregate data = []")
    case False
    then obtain g1 where g1: "build_aggregate this data (gd_aggregate data) g = Some g1" "build_inputs this ds g1 = Some g'"
      using "2.prems"(1) by (auto simp: bind_eq_Some_conv)
    then have k: "edges_wf g1" "same_tables g g1" using build_aggregate_wf 2 by blast+
    then show ?thesis
      using "2.IH"(4)[OF False g1] "2.prems"(3,4) same_tables_wf[OF k(2)] same_tables_trans[OF k(2)] by (auto simp: same_tables_def)
  next
    case True
    show ?thesis
    proof (cases "FindVertexByData (gd_id data) g")
      case None
      then show ?thesis using 2 True by (auto split: if_splits)
    next
      case (Some d)
      let ?e = "if gd_required data then V_RESULT_OK else V_RESULT_ALL"
      note k = Depend_wf[OF "2.prems"(2,4) by_data_ptr[OF Some "2.prems"(3)], of ?e]
        Depend_succ(3)[OF "2.prems"(4) by_data_ptr[OF Some "2.prems"(3)], of ?e]
      show ?thesis
        using 2 True Some k same_tables_wf[OF k(2)] same_tables_trans[OF k(2)]
        by (cases "gd_is_in_out data \<and> d = this") (auto simp: same_tables_def)
    qed
  qed
qed simp

text \<open>Steps that keep the edges in order compose.\<close>

definition good_step :: "vptr \<Rightarrow> (Graph \<Rightarrow> Graph option) \<Rightarrow> bool" where
  "good_step this f \<longleftrightarrow> (\<forall>g g'. f g = Some g' \<longrightarrow> edges_wf g \<longrightarrow> tables_wf g \<longrightarrow> this \<in> ptrs g \<longrightarrow> edges_wf g' \<and> same_tables g g')"

lemma good_step_bind: "good_step this f \<Longrightarrow> good_step this h \<Longrightarrow> good_step this (\<lambda>g. Option.bind (f g) h)"
  unfolding good_step_def by (auto simp: bind_eq_Some_conv) (metis same_tables_def same_tables_trans same_tables_wf)+

lemmas build_steps = BuildDeps_wf BuildSuccessors_wf build_inputs_wf

lemma Vertex_Build_wf: "good_step this (Vertex_Build cl this)"
proof -
  have deps: "good_step this (BuildDeps this ids e)" "good_step this (BuildSuccessors this ids e)"
    "good_step this (build_inputs this ds)" for ids e ds
    using build_steps unfolding good_step_def by blast+
  have "good_step this (\<lambda>g.
        Option.bind (BuildDeps this (v_deps v) V_RESULT_ALL g) (\<lambda>g.
        Option.bind (BuildDeps this (v_deps_on_ok v) V_RESULT_OK g) (\<lambda>g.
        Option.bind (BuildDeps this (v_deps_on_err v) V_RESULT_ERR g) (\<lambda>g.
        Option.bind (BuildSuccessors this (v_successor v) V_RESULT_ALL g) (\<lambda>g.
        Option.bind (BuildSuccessors this (v_successor_on_ok v) V_RESULT_OK g) (\<lambda>g.
        Option.bind (BuildSuccessors this (v_successor_on_err v) V_RESULT_ERR g)
          (build_inputs this (v_input v))))))))" for v
    by (intro good_step_bind deps)
  from this[of "vget g this" for g, unfolded good_step_def, rule_format]
  show ?thesis unfolding good_step_def by (simp add: Vertex_Build_def Let_def)
qed

lemma build_all_wf:
  "build_all cl ps g = Some g' \<Longrightarrow> edges_wf g \<Longrightarrow> tables_wf g \<Longrightarrow> set ps \<subseteq> ptrs g \<Longrightarrow> edges_wf g' \<and> same_tables g g'"
proof (induction cl ps g rule: build_all.induct)
  case (2 cl p ps g)
  then obtain g1 where g1: "Vertex_Build cl p g = Some g1" "build_all cl ps g1 = Some g'" by (auto simp: bind_eq_Some_conv)
  then have k: "edges_wf g1" "same_tables g g1" using Vertex_Build_wf[of p cl] 2 by (auto simp: good_step_def)
  then show ?case
    using "2.IH"[OF g1] "2.prems"(3,4) same_tables_wf[OF k(2)] same_tables_trans[OF k(2)] by (auto simp: same_tables_def)
qed simp

section \<open>The first pass\<close>

text \<open>A generated identifier.\<close>

definition gen_id :: "string \<Rightarrow> nat \<Rightarrow> string" where
  "gen_id name k = name @ ''_'' @ nat_string k"

lemma nat_string_not_Nil: "nat_string n \<noteq> []"
  by (subst nat_string.simps) simp

lemma digit_char_inj: "a < 10 \<Longrightarrow> b < 10 \<Longrightarrow> digit_char a = digit_char b \<longleftrightarrow> a = b"
  by (auto simp: digit_char_def)

lemma nat_string_inj: "nat_string m = nat_string n \<Longrightarrow> m = n"
proof (induction m arbitrary: n rule: nat_string.induct)
  case (1 m)
  show ?case
  proof (cases "m < 10")
    case True
    then have m: "nat_string m = [digit_char m]" by (subst nat_string.simps) simp
    have "n < 10"
    proof (rule ccontr)
      assume "\<not> n < 10"
      then have "nat_string n = nat_string (n div 10) @ [digit_char (n mod 10)]" by (subst nat_string.simps) simp
      then show False using m 1(2) nat_string_not_Nil[of "n div 10"] by simp
    qed
    then have "nat_string n = [digit_char n]" by (subst nat_string.simps) simp
    then show ?thesis using 1(2) m True \<open>n < 10\<close> digit_char_inj by simp
  next
    case False
    then have m: "nat_string m = nat_string (m div 10) @ [digit_char (m mod 10)]" by (subst nat_string.simps) simp
    have "\<not> n < 10"
    proof
      assume "n < 10"
      then have "nat_string n = [digit_char n]" by (subst nat_string.simps) simp
      then show False using m 1(2) nat_string_not_Nil[of "m div 10"] by simp
    qed
    then have "nat_string n = nat_string (n div 10) @ [digit_char (n mod 10)]" by (subst nat_string.simps) simp
    then have "nat_string (m div 10) = nat_string (n div 10)" "m mod 10 = n mod 10"
      using 1(2) m digit_char_inj by simp_all
    then show ?thesis using 1(1)[OF False] by (metis div_mult_mod_eq)
  qed
qed

lemma gen_id_inj: "gen_id name k = gen_id name l \<longleftrightarrow> k = l"
  using nat_string_inj by (auto simp: gen_id_def)

text \<open>No name of the description looks like a generated one.\<close>

definition plain :: "string \<Rightarrow> string \<Rightarrow> bool" where
  "plain name s \<longleftrightarrow> (\<forall>k. s \<noteq> gen_id name k)"

definition plain_names :: "ClusterInfo \<Rightarrow> Graph \<Rightarrow> bool" where
  "plain_names cl g \<longleftrightarrow> plain (g_name g) (cl_default_expr_processor cl)
     \<and> (\<forall>v \<in> set (g_vertex g). plain (g_name g) (v_id v) \<and> plain (g_name g) (v_processor v))"

definition no_edges :: "Vertex \<Rightarrow> bool" where
  "no_edges v \<longleftrightarrow> v_successor_vertex v = [] \<and> v_deps_idx v = [] \<and> v_deps_expected_results v = []"

text \<open>A graph as it comes from its description.\<close>

definition fresh_graph :: "Graph \<Rightarrow> bool" where
  "fresh_graph g \<longleftrightarrow> g_gen_vertex g = [] \<and> g_nodes g = [] \<and> g_data_mapping_table g = [] \<and> g_idx g = 0
     \<and> (\<forall>v \<in> set (g_vertex g). no_edges v)"

text \<open>A name that is not generated or was generated already; the first \<open>m\<close> vertices are entered.\<close>

definition named :: "Graph \<Rightarrow> string \<Rightarrow> bool" where
  "named g s \<longleftrightarrow> plain (g_name g) s \<or> (\<exists>j < g_idx g. s = gen_id (g_name g) j)"

definition prepared :: "ClusterInfo \<Rightarrow> nat \<Rightarrow> Graph \<Rightarrow> bool" where
  "prepared cl m g \<longleftrightarrow>
     (\<forall>p \<in> ptrs g. no_edges (vget g p))
     \<and> distinct (map snd (g_nodes g)) \<and> snd ` set (g_nodes g) = User ` {..<m} \<union> Gen ` {..<length (g_gen_vertex g)}
     \<and> snd ` set (g_data_mapping_table g) \<subseteq> ptrs g
     \<and> (\<forall>k \<in> fst ` set (g_nodes g). named g k) \<and> named g (cl_default_expr_processor cl)
     \<and> (\<forall>i. m \<le> i \<and> i < length (g_vertex g) \<longrightarrow> named g (v_id (g_vertex g ! i)) \<and> named g (v_processor (g_vertex g ! i)))"

lemma named_mono: "g_name g' = g_name g \<Longrightarrow> g_idx g \<le> g_idx g' \<Longrightarrow> named g s \<Longrightarrow> named g' s"
  unfolding named_def by (metis less_le_trans)

lemma not_named: "\<not> named g (gen_id (g_name g) (g_idx g))"
  by (auto simp: named_def plain_def gen_id_inj)

lemma gen_id_fresh: "prepared cl m g \<Longrightarrow> gen_id (g_name g) (g_idx g) \<notin> fst ` set (g_nodes g)"
  using not_named[of g] by (auto simp: prepared_def)

lemma idx_frame [simp]: "ptrs (g\<lparr>g_idx := k\<rparr>) = ptrs g" "vget (g\<lparr>g_idx := k\<rparr>) = vget g"
  by (simp_all add: ptrs_def fun_eq_iff vget_def split: vptr.split)

lemma prepared_idx: "prepared cl m g \<Longrightarrow> prepared cl m (g\<lparr>g_idx := Suc (g_idx g)\<rparr>)"
  using named_mono[of "g\<lparr>g_idx := Suc (g_idx g)\<rparr>" g] by (auto simp: prepared_def)

lemma prepared_vset:
  assumes "prepared cl m g" and "m < length (g_vertex g)" and "no_edges n" and "named g (v_id n)" and "named g (v_processor n)"
  shows "prepared cl m (vset (User m) n g)"
proof -
  have p: "User m \<in> ptrs g" using assms(2) by (simp add: ptrs_def)
  have "named (vset (User m) n g) s = named g s" for s by (simp add: named_def)
  moreover have "g_vertex (vset (User m) n g) ! i = (if i = m then n else g_vertex g ! i)" for i
    using assms(2) by (simp add: vset_def)
  ultimately show ?thesis using assms by (auto simp: prepared_def vget_vset[OF p])
qed

lemma prepared_vset_gen:
  assumes "prepared cl m g" and "Gen j \<in> ptrs g" and "no_edges n"
  shows "prepared cl m (vset (Gen j) n g)"
proof -
  have "named (vset (Gen j) n g) s = named g s" for s by (simp add: named_def)
  moreover have "g_vertex (vset (Gen j) n g) = g_vertex g" by (simp add: vset_def)
  ultimately show ?thesis using assms by (auto simp: prepared_def vget_vset[OF assms(2)])
qed

lemma prepared_gen:
  assumes "prepared cl m g" and "no_edges v" and "i = gen_id (g_name g) (g_idx g)"
  shows "prepared cl m (g\<lparr>g_idx := Suc (g_idx g), g_nodes := al_put i (Gen (length (g_gen_vertex g))) (g_nodes g),
    g_gen_vertex := g_gen_vertex g @ [v]\<rparr>)"
proof -
  let ?p = "Gen (length (g_gen_vertex g))"
  let ?g = "g\<lparr>g_idx := Suc (g_idx g), g_nodes := al_put i ?p (g_nodes g), g_gen_vertex := g_gen_vertex g @ [v]\<rparr>"
  have nodes: "g_nodes ?g = g_nodes g @ [(i, ?p)]" using gen_id_fresh[OF assms(1)] assms(3) by (simp add: al_put_fresh)
  have p: "ptrs ?g = insert ?p (ptrs g)" by (auto simp: ptrs_def lessThan_Suc)
  have get: "vget ?g q = (if q = ?p then v else vget g q)" if "q \<in> ptrs ?g" for q
    using that by (cases q) (auto simp: vget_def ptrs_def nth_append)
  have named: "named g s \<Longrightarrow> named ?g s" for s by (rule named_mono) simp_all
  have "named ?g i" using assms(3) by (auto simp: named_def)
  moreover have "?p \<notin> snd ` set (g_nodes g)" using assms(1) by (auto simp: prepared_def)
  ultimately show ?thesis
    using assms(1,2) named get unfolding prepared_def nodes p by (auto simp: lessThan_Suc)
qed

lemma generateNodeId_eq: "generateNodeId g = (gen_id (g_name g) (g_idx g), g\<lparr>g_idx := Suc (g_idx g)\<rparr>)"
  by (simp add: generateNodeId_def gen_id_def)

lemma no_edges_simps [simp]:
  "no_edges (v\<lparr>v_id := a\<rparr>) = no_edges v" "no_edges (v\<lparr>v_processor := a\<rparr>) = no_edges v" "no_edges (v\<lparr>v_cluster := a\<rparr>) = no_edges v"
  "no_edges (v\<lparr>v_cond := a\<rparr>) = no_edges v" "no_edges (v\<lparr>v_deps := ns\<rparr>) = no_edges v" "no_edges (v\<lparr>v_deps_on_ok := ns\<rparr>) = no_edges v"
  "no_edges (v\<lparr>v_deps_on_err := ns\<rparr>) = no_edges v" "no_edges (v\<lparr>v_is_id_generated := b\<rparr>) = no_edges v"
  "no_edges (v\<lparr>v_input := ds\<rparr>) = no_edges v" "no_edges (v\<lparr>v_output := ds\<rparr>) = no_edges v"
  "no_edges (SetGeneratedId a v) = no_edges v" "no_edges (MergeSuccessor v) = no_edges v" "no_edges new_Vertex"
  by (simp_all add: no_edges_def SetGeneratedId_def MergeSuccessor_def new_Vertex_def)

lemma prepared_vertex:
  assumes "prepared cl m g" and "m < length (g_vertex g)"
  shows "no_edges (g_vertex g ! m)" "named g (v_id (g_vertex g ! m))" "named g (v_processor (g_vertex g ! m))"
    "named g (cl_default_expr_processor cl)"
proof -
  have "User m \<in> ptrs g" using assms(2) by (simp add: ptrs_def)
  then have "no_edges (vget g (User m))" using assms(1) by (simp add: prepared_def)
  then show "no_edges (g_vertex g ! m)" by (simp add: vget_def)
qed (use assms in \<open>auto simp: prepared_def\<close>)

lemma prepare_names_prepared:
  assumes "prepared cl m g" and "m < length (g_vertex g)"
  shows "prepared cl m (prepare_names cl m g)" and "length (g_vertex (prepare_names cl m g)) = length (g_vertex g)"
    and "g_gen_vertex (prepare_names cl m g) = g_gen_vertex g"
proof -
  note v = prepared_vertex[OF assms]
  let ?g = "g\<lparr>g_idx := Suc (g_idx g)\<rparr>"
  have g: "prepared cl m ?g" by (rule prepared_idx[OF assms(1)])
  have up: "named g s \<Longrightarrow> named ?g s" for s by (rule named_mono) simp_all
  have new: "named ?g (gen_id (g_name g) (g_idx g))" by (auto simp: named_def)
  show "prepared cl m (prepare_names cl m g)"
    using v up new assms(2)
    by (auto simp: prepare_names_def Let_def generateNodeId_eq SetGeneratedId_def intro!: prepared_vset assms(1) g)
qed (auto simp: prepare_names_def Let_def generateNodeId_eq vset_def split: if_splits)

lemma geneatedCondVertex_prepared:
  assumes "prepared cl m g" and "geneatedCondVertex cl c g = (p, g')"
  shows "prepared cl m g'" "g_vertex g' = g_vertex g" "p = Gen (length (g_gen_vertex g))" "p \<in> ptrs g'" "no_edges (vget g' p)"
    "g_name g' = g_name g" "g_idx g \<le> g_idx g'"
proof -
  show "prepared cl m g'"
    using assms(2) prepared_gen[OF assms(1) _ refl]
    by (auto simp: geneatedCondVertex_def generateNodeId_eq Let_def)
qed (use assms(2) in \<open>auto simp: geneatedCondVertex_def generateNodeId_eq Let_def ptrs_def vget_def\<close>)

lemma prepare_expect_prepared:
  assumes "prepared cl m g" and "m < length (g_vertex g)" and "prepare_expect cl m (conds, g) = (conds', g')"
  shows "prepared cl m g'" "length (g_vertex g') = length (g_vertex g)"
proof -
  let ?n = "g_vertex g ! m"
  have set: "prepared cl m (vset (User m) (?n\<lparr>v_deps_on_ok := ns\<rparr>) g2) \<and> length (g_vertex (vset (User m) (?n\<lparr>v_deps_on_ok := ns\<rparr>) g2)) = length (g_vertex g)"
    if "prepared cl m g2" "g_vertex g2 = g_vertex g" for g2 ns
    using prepared_vset[OF that(1)] prepared_vertex[OF that(1)] that(2) assms(2) by (simp add: vset_def)
  have gen: "prepared cl m (vset p v g2)" "g_vertex (vset p v g2) = g_vertex g"
    if "geneatedCondVertex cl c g = (p, g2)" "no_edges v" for c p g2 v
    using geneatedCondVertex_prepared[OF assms(1) that(1)] that(2) by (simp_all add: prepared_vset_gen) (simp add: vset_def)
  have "prepared cl m g' \<and> length (g_vertex g') = length (g_vertex g)"
    using assms(1,3) set gen geneatedCondVertex_prepared(5)[OF assms(1)]
    by (auto simp: prepare_expect_def Let_def split: if_splits prod.splits)
  then show "prepared cl m g'" "length (g_vertex g') = length (g_vertex g)" by simp_all
qed

lemma FillInputOutput_frame:
  "FillInputOutput fac v = (rc, v') \<Longrightarrow> v_id v' = v_id v \<and> no_edges v' = no_edges v \<and> v_processor v' = v_processor v"
  by (auto simp: FillInputOutput_def no_edges_def split: if_splits option.splits)

lemma prepare_outputs_ptrs:
  "prepare_outputs p ds tab = Some (ds', tab') \<Longrightarrow> snd ` set tab' \<subseteq> insert p (snd ` set tab)"
proof (induction p ds tab arbitrary: ds' tab' rule: prepare_outputs.induct)
  case (2 p d ds tab)
  let ?d = "if gd_id d = [] then d\<lparr>gd_id := gd_field d\<rparr> else d"
  obtain e where "gd_id ?d \<notin> fst ` set tab" "prepare_outputs p ds (al_put (gd_id ?d) p tab) = Some (e, tab')" "gd_field d \<noteq> []"
    using 2(2) by (auto simp: Let_def split: if_splits)
  then show ?case using 2(1)[OF _ refl, of e tab'] by (auto simp: al_put_fresh)
qed auto

lemma enter_node_prepared:
  assumes "prepared cl m g" and "m < length (g_vertex g)" and "enter_node cl fac m g = Some g'"
  shows "prepared cl (Suc m) g'" "length (g_vertex g') = length (g_vertex g)"
proof -
  note v = prepared_vertex[OF assms(1,2)]
  obtain rc n outs ins tab where n: "FillInputOutput fac (MergeSuccessor (g_vertex g ! m)) = (rc, n)"
    and fresh: "v_id (g_vertex g ! m) \<notin> fst ` set (g_nodes g)"
    and tab: "prepare_outputs (User m) (v_output n) (g_data_mapping_table g) = Some (outs, tab)"
    and g': "g' = vset (User m) (n\<lparr>v_output := outs, v_input := ins\<rparr>)
      (g\<lparr>g_nodes := al_put (v_id n) (User m) (g_nodes g), g_data_mapping_table := tab\<rparr>)"
    using assms(3) by (auto simp: enter_node_def Let_def bind_eq_Some_conv split: if_splits prod.splits)
  let ?n = "n\<lparr>v_output := outs, v_input := ins\<rparr>"
  have id: "v_id n = v_id (g_vertex g ! m)" "no_edges n"
    using FillInputOutput_frame[OF n] v(1) by (simp_all, simp add: MergeSuccessor_def)
  have nodes: "g_nodes g' = g_nodes g @ [(v_id n, User m)]" using fresh id g' by (simp add: vset_def al_put_fresh)
  have p: "ptrs g' = ptrs g" "User m \<in> ptrs g" using g' assms(2) by (auto simp: vset_def ptrs_def)
  have get: "vget g' q = (if q = User m then ?n else vget g q)" if "q \<in> ptrs g" for q
    using that p(2) unfolding g' by (cases q) (auto simp: vget_def vset_def ptrs_def)
  have vs: "g_vertex g' = (g_vertex g)[m := ?n]" "g_gen_vertex g' = g_gen_vertex g" "g_data_mapping_table g' = tab"
    using g' by (simp_all add: vset_def)
  have nm: "named g' s = named g s" for s using g' by (simp add: named_def vset_def)
  have "snd ` set (g_data_mapping_table g) \<subseteq> ptrs g" using assms(1) by (simp add: prepared_def)
  then have tabs: "snd ` set tab \<subseteq> ptrs g"
    by (intro order_trans[OF prepare_outputs_ptrs[OF tab]]) (simp add: p(2))
  have new: "User m \<notin> snd ` set (g_nodes g)" using assms(1) by (auto simp: prepared_def)
  have later: "g_vertex g' ! i = g_vertex g ! i" if "Suc m \<le> i" for i using that by (simp add: vs)
  show "prepared cl (Suc m) g'"
    unfolding prepared_def nodes p(1) vs(2,3) nm
  proof (intro conjI)
    show "\<forall>q \<in> ptrs g. no_edges (vget g' q)" using assms(1) id get by (simp add: prepared_def)
    show "\<forall>i. Suc m \<le> i \<and> i < length (g_vertex g') \<longrightarrow> named g (v_id (g_vertex g' ! i)) \<and> named g (v_processor (g_vertex g' ! i))"
      using assms(1) later by (simp add: prepared_def vs(1))
  qed (use assms(1) v(2) id new tabs in \<open>simp_all add: prepared_def lessThan_Suc\<close>)
  show "length (g_vertex g') = length (g_vertex g)" by (simp add: vs)
qed

lemma prepare_vertex_prepared:
  assumes "prepared cl m g" and "m < length (g_vertex g)" and "prepare_vertex cl fac m (conds, g) = Some (conds', g')"
  shows "prepared cl (Suc m) g'" "length (g_vertex g') = length (g_vertex g)"
proof -
  let ?g = "prepare_names cl m g"
  obtain c1 g1 where e: "prepare_expect cl m (conds, ?g) = (c1, g1)" by (metis surj_pair)
  have g': "enter_node cl fac m g1 = Some g'"
    using assms(3) by (auto simp: prepare_vertex_def Let_def e split: if_splits)
  note n = prepare_names_prepared[OF assms(1,2)]
  note e1 = prepare_expect_prepared[OF n(1) _ e]
  note e2 = enter_node_prepared[OF e1(1) _ g']
  show "prepared cl (Suc m) g'" "length (g_vertex g') = length (g_vertex g)"
    using assms(2) n(2) e1(2) e2 by simp_all
qed

lemma prepare_all_prepared:
  "prepare_all cl fac [m..<length (g_vertex g)] (conds, g) = Some g' \<Longrightarrow> prepared cl m g \<Longrightarrow> m \<le> length (g_vertex g) \<Longrightarrow>
   prepared cl (length (g_vertex g')) g'"
proof (induction "length (g_vertex g) - m" arbitrary: m g conds)
  case (Suc k)
  then have m: "m < length (g_vertex g)" by simp
  then obtain c1 g1 where s: "prepare_vertex cl fac m (conds, g) = Some (c1, g1)"
    "prepare_all cl fac [Suc m..<length (g_vertex g)] (c1, g1) = Some g'"
    using Suc.prems(1) by (auto simp: upt_conv_Cons bind_eq_Some_conv)
  show ?case
    using prepare_vertex_prepared[OF Suc.prems(2) m s(1)] Suc.hyps(1)[of g1 "Suc m" c1] Suc.hyps(2) m s(2) by simp
qed simp

lemma fresh_prepared: "fresh_graph g \<Longrightarrow> plain_names cl g \<Longrightarrow> prepared cl 0 g"
  by (auto simp: fresh_graph_def plain_names_def prepared_def named_def ptrs_def vget_def)

lemma prepared_wf:
  assumes "prepared cl (length (g_vertex g)) g"
  shows "edges_wf g" "tables_wf g" "snd ` set (g_nodes g) = ptrs g"
proof -
  show n: "snd ` set (g_nodes g) = ptrs g" using assms by (auto simp: prepared_def ptrs_def)
  show "edges_wf g" using assms by (simp add: edges_wf_def prepared_def no_edges_def g_succ_def g_deps_def deps_ok_def)
  show "tables_wf g" using assms n by (auto simp: tables_wf_def prepared_def)
qed

lemma Graph_Build_ok:
  assumes "fresh_graph g0" and "plain_names cl g0" and "Graph_Build frames cl fac g0 = Built g"
  shows "edges_wf g \<and> snd ` set (g_nodes g) = ptrs g \<and> distinct (map snd (g_nodes g))
    \<and> (\<forall>p \<in> ptrs g. \<not> on_circle (g_succ g) p \<and> Verify (vget g p)) \<and> ptrs g \<noteq> {}"
proof -
  obtain g1 where g1: "prepare_all cl fac [0..<length (g_vertex g0)] ([], g0) = Some g1"
    and g: "build_all cl (all_ptrs g1) g1 = Some g"
    and verify: "\<not> list_ex (\<lambda>p. \<not> Verify (vget g p)) (all_ptrs g)"
    and circle: "TestCircle frames (g_succ g) (map snd (g_nodes g)) = Some False"
    and ne: "\<not> (g_nodes g = [] \<and> g_gen_vertex g = [])"
    using assms(3) by (auto simp: Graph_Build_def split: bind_splits option.splits if_splits)
  have p1: "prepared cl (length (g_vertex g1)) g1"
    using prepare_all_prepared[OF g1 fresh_prepared[OF assms(1,2)]] by simp
  note w = prepared_wf[OF p1]
  have b: "edges_wf g" "same_tables g1 g" using build_all_wf[OF g w(1,2)] by (simp_all add: set_all_ptrs)
  then have n: "snd ` set (g_nodes g) = ptrs g" "distinct (map snd (g_nodes g))"
    using w(3) p1 by (simp_all add: same_tables_def prepared_def)
  have "ptrs g \<noteq> {}" using ne n(1) by (auto simp: ptrs_def)
  then show ?thesis
    using b(1) n verify TestCircle_False[OF circle] by (auto simp: list_ex_iff set_all_ptrs image_iff)
qed

section \<open>Properties\<close>


text \<open>
  A description with a vertex that produces data, one that reads them and runs under a condition, and
  one that runs when the second failed. The condition becomes a vertex of its own.
\<close>

definition sample_cluster :: ClusterInfo where
  "sample_cluster = \<lparr>cl_name = ''c'', cl_strict_dsl = True, cl_default_expr_processor = ''expr'', cl_config_setting = []\<rparr>"

definition sample_factory :: factory where
  "sample_factory name =
     (let f = \<lparr>fi_name = ''x'', fi_id = 7, fi_is_extern = False, fi_is_aggregate = False, fi_is_in_out = False\<rparr>
      in if name = ''load'' then Some ([], [f]) else if name = ''rank'' then Some ([f], [])
         else if name = ''expr'' \<or> name = ''warn'' then Some ([], []) else None)"

definition sample_graph :: Graph where
  "sample_graph =
     \<lparr>g_name = ''g'',
      g_vertex = [new_Vertex\<lparr>v_processor := ''load'', v_is_start := True\<rparr>,
                  new_Vertex\<lparr>v_processor := ''rank'', v_expect := ''x > 1'', v_deps := [''load'']\<rparr>,
                  new_Vertex\<lparr>v_processor := ''warn'', v_deps_on_err := [''rank'']\<rparr>],
      g_gen_vertex = [], g_nodes = [], g_data_mapping_table = [], g_idx = 0\<rparr>"

definition sample_built :: Graph where
  "sample_built = (case Graph_Build 5 sample_cluster sample_factory sample_graph of Built g \<Rightarrow> g | _ \<Rightarrow> sample_graph)"

lemma sample_Build: "Graph_Build 5 sample_cluster sample_factory sample_graph = Built sample_built"
  unfolding sample_built_def by code_simp

lemma sample_edges:
  "map (g_succ sample_built) [User 0, User 1, User 2, Gen 0] = [[Gen 0, User 1], [User 2], [], [User 1]]"
  by code_simp

lemma sample_fresh: "fresh_graph sample_graph" "plain_names sample_cluster sample_graph"
  by (auto simp: sample_graph_def sample_cluster_def fresh_graph_def plain_names_def plain_def gen_id_def no_edges_def new_Vertex_def)


end
