(* ===== verification/DidagleExec.thy ===== *)
theory DidagleExec
  imports DidagleGraphProps
begin

text \<open>
  Running a graph: \<^verbatim>\<open>VertexContext\<close> and \<^verbatim>\<open>GraphContext\<close> of \<^verbatim>\<open>didagle/graph_executor.cpp\<close>. The calls that
  are under way, on whatever threads, are a list of tasks; a step is one access to shared state of one
  of them, so every interleaving of the threads is a sequence of steps. After its last shared access a
  call does nothing more but return, so a task that has become a call in tail position is that call.
  Processors, nested graphs, the clock and the values of configuration settings are the environment.
\<close>

section \<open>Contexts\<close>

definition INT_MAX :: int where
  "INT_MAX = 2147483647"

text \<open>
  \<^verbatim>\<open>_waiting_num\<close> is a natural number: it is never decremented at 0, so that a 32-bit counter
  does not wrap around.
\<close>

record VertexContext =
  vc_waiting_num :: nat
  vc_deps_results :: "VertexResult list"
  vc_result :: VertexResult
  vc_code :: int
  vc_exec_rc :: int

definition VertexContext_Reset :: "Vertex \<Rightarrow> VertexContext" where
  "VertexContext_Reset v =
     \<lparr>vc_waiting_num = length (v_deps_idx v), vc_deps_results = replicate (length (v_deps_idx v)) V_RESULT_INVALID,
      vc_result = V_RESULT_INVALID, vc_code = errcode_int V_CODE_INVALID, vc_exec_rc = INT_MAX\<rparr>"

definition Ready :: "VertexContext \<Rightarrow> bool" where
  "Ready c \<longleftrightarrow> vc_waiting_num c = 0"

text \<open>The number of dependencies that were missing before the call, as \<^verbatim>\<open>fetch_sub\<close> returns it.\<close>

definition SetDependencyResult :: "nat \<Rightarrow> VertexResult \<Rightarrow> VertexContext \<Rightarrow> nat \<times> VertexContext" where
  "SetDependencyResult idx r c =
     (let c1 = c\<lparr>vc_deps_results := (vc_deps_results c)[idx := r]\<rparr>
      in if vc_deps_results c ! idx = V_RESULT_INVALID
         then (vc_waiting_num c, c1\<lparr>vc_waiting_num := vc_waiting_num c - 1\<rparr>)
         else (vc_waiting_num c, c1))"

definition FinishVertexProcess :: "int \<Rightarrow> VertexContext \<Rightarrow> VertexContext" where
  "FinishVertexProcess code c =
     c\<lparr>vc_code := code, vc_exec_rc := (if vc_exec_rc c = INT_MAX then code else vc_exec_rc c),
       vc_result := (if code \<noteq> 0 then V_RESULT_ERR else V_RESULT_OK)\<rparr>"

section \<open>The environment\<close>

record exec_env =
  ee_processor :: "vptr \<Rightarrow> bool"  \<comment> \<open>the vertex has a processor\<close>
  ee_isIOProcessor :: "vptr \<Rightarrow> bool"
  ee_subgraph :: "vptr \<Rightarrow> bool"  \<comment> \<open>the cluster of a nested graph was found\<close>
  ee_config :: "string \<Rightarrow> bool option"  \<comment> \<open>the configuration settings in the data context\<close>
  ee_deadline :: bool  \<comment> \<open>an end time was set\<close>

definition match_deps :: "VertexResult list \<Rightarrow> VertexResult list \<Rightarrow> bool" where
  "match_deps results expected =
     list_all (\<lambda>i. results ! i \<noteq> V_RESULT_INVALID \<and> and (result_bits (results ! i)) (result_bits (expected ! i)) \<noteq> 0)
       [0..<length results]"

definition match_config :: "exec_env \<Rightarrow> string \<Rightarrow> bool" where
  "match_config env var =
     (if var = [] then True
      else
        let not_cond = hd var = CHR ''!'';
            v = ee_config env (if not_cond then tl var else var);
            r = (case v of None \<Rightarrow> False | Some b \<Rightarrow> b)
        in if not_cond then \<not> r else r)"

text \<open>Whether a vertex is to run, time aside.\<close>

definition match_expected :: "exec_env \<Rightarrow> Graph \<Rightarrow> vptr \<Rightarrow> VertexContext \<Rightarrow> bool" where
  "match_expected env g p c \<longleftrightarrow>
     (ee_processor env p \<or> ee_subgraph env p)
     \<and> match_deps (vc_deps_results c) (v_deps_expected_results (vget g p))
     \<and> match_config env (v_expect_config (vget g p))"

section \<open>Tasks\<close>

datatype task =
    Execute vptr  \<comment> \<open>\<^verbatim>\<open>VertexContext::Execute\<close> was called, or waits in the executor\<close>
  | Running vptr  \<comment> \<open>the processor or the nested graph of the vertex runs\<close>
  | OnVertexDone vptr
  | Notify vptr nat "vptr list"  \<comment> \<open>the loop of \<^verbatim>\<open>OnVertexDone\<close>, with \<^verbatim>\<open>i\<close> and \<^verbatim>\<open>ready_successors\<close>\<close>
  | Post vptr "vptr list"  \<comment> \<open>the loop of \<^verbatim>\<open>ExecuteReadyVertexs\<close>, with \<^verbatim>\<open>local_execute\<close> and the rest\<close>

text \<open>
  \<open>es_executed\<close> is the history of the calls of \<^verbatim>\<open>VertexContext::Execute\<close>, \<open>es_done\<close> that of the calls of the
  closure that was passed for the end of the graph.
\<close>

record exec_state =
  es_tasks :: "task list"
  es_ctx :: "vptr \<Rightarrow> VertexContext"
  es_join :: nat
  es_done :: "int list"
  es_executed :: "vptr list"

definition upd_ctx :: "vptr \<Rightarrow> (VertexContext \<Rightarrow> VertexContext) \<Rightarrow> exec_state \<Rightarrow> exec_state" where
  "upd_ctx p f s = s\<lparr>es_ctx := (es_ctx s)(p := f (es_ctx s p))\<rparr>"

text \<open>The vertex that the scheduling thread runs itself: the first that is not marked as waiting for I/O.\<close>

definition local_execute :: "exec_env \<Rightarrow> vptr list \<Rightarrow> vptr" where
  "local_execute env ready =
     (case find (\<lambda>p. \<not> ee_processor env p \<or> \<not> ee_isIOProcessor env p) ready of None \<Rightarrow> hd ready | Some p \<Rightarrow> p)"

definition ExecuteReadyVertexs :: "exec_env \<Rightarrow> vptr list \<Rightarrow> task list" where
  "ExecuteReadyVertexs env ready =
     (case ready of [] \<Rightarrow> [] | [p] \<Rightarrow> [Execute p] | _ \<Rightarrow> [Post (local_execute env ready) ready])"

section \<open>Steps\<close>

text \<open>
  What the environment decides: at the start of a vertex whether its time is up and whether its inputs
  could be injected, at the end the return code.
\<close>

datatype choice = Begin bool bool | Return int | Advance

definition start_vertex :: "exec_env \<Rightarrow> Graph \<Rightarrow> bool \<Rightarrow> bool \<Rightarrow> vptr \<Rightarrow> exec_state \<Rightarrow> (task list \<times> exec_state) option" where
  "start_vertex env g timed_out injected p s =
     (let s1 = s\<lparr>es_executed := es_executed s @ [p]\<rparr>;
          skip = Some ([OnVertexDone p], upd_ctx p (FinishVertexProcess (errcode_int V_CODE_SKIP)) s1)
      in if timed_out \<and> \<not> ee_deadline env then None
         else if \<not> match_expected env g p (es_ctx s p) \<or> timed_out then skip
         else if ee_processor env p \<and> \<not> injected then skip
         else Some ([Running p], s1))"

definition vertex_returns :: "exec_env \<Rightarrow> Graph \<Rightarrow> int \<Rightarrow> vptr \<Rightarrow> exec_state \<Rightarrow> task list \<times> exec_state" where
  "vertex_returns env g rc p s =
     (let v = vget g p;
          f = (if ee_processor env p
               then (\<lambda>c. FinishVertexProcess (if v_ignore_processor_execute_error v \<and> \<not> IsCondVertex v then 0 else rc)
                          (c\<lparr>vc_exec_rc := rc\<rparr>))
               else FinishVertexProcess rc)
      in ([OnVertexDone p], upd_ctx p f s))"

definition join_vertex :: "vptr \<Rightarrow> exec_state \<Rightarrow> task list \<times> exec_state" where
  "join_vertex p s =
     (let s1 = s\<lparr>es_join := es_join s - 1\<rparr>
      in if es_join s = 1 then ([], s1\<lparr>es_done := es_done s @ [0]\<rparr>) else ([Notify p 0 []], s1))"

text \<open>\<^verbatim>\<open>SetupSuccessors\<close>: the successors of a vertex and the place of the vertex among their dependencies.\<close>

definition successor_dep_idx :: "Graph \<Rightarrow> vptr \<Rightarrow> vptr \<Rightarrow> int" where
  "successor_dep_idx g p q = GetDependencyIndex p (vget g q)"

definition notify_next :: "exec_env \<Rightarrow> Graph \<Rightarrow> vptr \<Rightarrow> nat \<Rightarrow> vptr list \<Rightarrow> exec_state \<Rightarrow> task list \<times> exec_state" where
  "notify_next env g p i ready s =
     (let succs = g_succ g p in
      if length succs \<le> i then (ExecuteReadyVertexs env ready, s)
      else
        let q = succs ! i;
            (wait_num, c) = SetDependencyResult (nat (successor_dep_idx g p q)) (vc_result (es_ctx s p)) (es_ctx s q);
            s1 = upd_ctx q (\<lambda>_. c) s
        in if wait_num = 1
           then if i = length succs - 1 \<and> ready = [] then ([Execute q], s1) else ([Notify p (Suc i) (ready @ [q])], s1)
           else ([Notify p (Suc i) ready], s1))"

fun post_next :: "vptr \<Rightarrow> vptr list \<Rightarrow> task list" where
  "post_next l [] = [Execute l]"
| "post_next l (q # qs) = (if q = l then [Post l qs] else [Execute q, Post l qs])"

fun task_step :: "exec_env \<Rightarrow> Graph \<Rightarrow> choice \<Rightarrow> task \<Rightarrow> exec_state \<Rightarrow> (task list \<times> exec_state) option" where
  "task_step env g (Begin timed_out injected) (Execute p) s = start_vertex env g timed_out injected p s"
| "task_step env g (Return rc) (Running p) s = Some (vertex_returns env g rc p s)"
| "task_step env g Advance (OnVertexDone p) s = Some (join_vertex p s)"
| "task_step env g Advance (Notify p i ready) s = Some (notify_next env g p i ready s)"
| "task_step env g Advance (Post l qs) s = Some (post_next l qs, s)"
| "task_step env g _ _ s = None"

text \<open>One step of the task at place \<open>i\<close>.\<close>

definition exec_step :: "exec_env \<Rightarrow> Graph \<Rightarrow> nat \<times> choice \<Rightarrow> exec_state \<Rightarrow> exec_state option" where
  "exec_step env g e s =
     (let (i, c) = e; ts = es_tasks s in
      if i < length ts
      then map_option (\<lambda>(new, s1). s1\<lparr>es_tasks := take i ts @ new @ drop (Suc i) ts\<rparr>) (task_step env g c (ts ! i) s)
      else None)"

section \<open>Start\<close>

text \<open>\<^verbatim>\<open>GraphContext::Reset\<close>: one context for every node.\<close>

definition GraphContext_Reset :: "Graph \<Rightarrow> exec_state" where
  "GraphContext_Reset g =
     \<lparr>es_tasks = [], es_ctx = (\<lambda>p. VertexContext_Reset (vget g p)), es_join = length (g_nodes g), es_done = [], es_executed = []\<rparr>"

text \<open>The vertices that are ready when the contexts were set up.\<close>

definition start_ctxs :: "Graph \<Rightarrow> vptr list" where
  "start_ctxs g = filter (\<lambda>p. Ready (VertexContext_Reset (vget g p))) (map snd (g_nodes g))"

definition GraphContext_Execute :: "exec_env \<Rightarrow> Graph \<Rightarrow> exec_state" where
  "GraphContext_Execute env g = (GraphContext_Reset g)\<lparr>es_tasks := ExecuteReadyVertexs env (start_ctxs g)\<rparr>"

inductive exec_reach :: "exec_env \<Rightarrow> Graph \<Rightarrow> nat \<Rightarrow> exec_state \<Rightarrow> bool" for env g where
  start: "exec_reach env g 0 (GraphContext_Execute env g)"
| step: "exec_reach env g n s \<Longrightarrow> exec_step env g e s = Some t \<Longrightarrow> exec_reach env g (Suc n) t"

end
