(* ===== verification/DidagleExecInv.thy ===== *)
theory DidagleExecInv
  imports DidagleExec "HOL-Library.Multiset"
begin

text \<open>
  The invariant of the execution of a graph: which vertices the tasks hold, what every vertex has been
  told, how many are missing and in which order they were executed. Every step keeps it.
\<close>

section \<open>Tasks and what they hold\<close>

text \<open>The vertices a task will execute or has not yet counted as done.\<close>

fun held :: "task \<Rightarrow> vptr list" where
  "held (Execute p) = [p]"
| "held (Running p) = [p]"
| "held (OnVertexDone p) = [p]"
| "held (Notify p i ready) = ready"
| "held (Post l qs) = l # filter (\<lambda>q. q \<noteq> l) qs"

fun notifier :: "task \<Rightarrow> vptr list" where
  "notifier (Notify p i ready) = [p]"
| "notifier _ = []"

definition heldl :: "task list \<Rightarrow> vptr list" where
  "heldl ts = concat (map held ts)"

definition notifiers :: "task list \<Rightarrow> vptr list" where
  "notifiers ts = concat (map notifier ts)"

text \<open>The vertices that were counted as done, and the successors of a vertex that it has yet to notify.\<close>

definition joined :: "Graph \<Rightarrow> task list \<Rightarrow> exec_state \<Rightarrow> vptr set" where
  "joined g ts s = {p \<in> ptrs g. vc_result (es_ctx s p) \<noteq> V_RESULT_INVALID \<and> OnVertexDone p \<notin> set ts}"

definition unnotified :: "Graph \<Rightarrow> task list \<Rightarrow> vptr \<Rightarrow> vptr set" where
  "unnotified g ts u = {q. \<exists>i ready. Notify u i ready \<in> set ts \<and> q \<in> set (drop i (g_succ g u))}"

lemma heldl_simps [simp]: "heldl [] = []" "heldl (t # ts) = held t @ heldl ts" "heldl (ts @ us) = heldl ts @ heldl us"
  by (simp_all add: heldl_def)

lemma notifiers_simps [simp]:
  "notifiers [] = []" "notifiers (t # ts) = notifier t @ notifiers ts" "notifiers (ts @ us) = notifiers ts @ notifiers us"
  by (simp_all add: notifiers_def)

lemma mset_heldl: "mset (heldl ts) = (\<Sum>t \<in># mset ts. mset (held t))"
  by (induction ts) auto

lemma mset_notifiers: "mset (notifiers ts) = (\<Sum>t \<in># mset ts. mset (notifier t))"
  by (induction ts) auto

lemma heldl_perm: "mset ts = mset us \<Longrightarrow> mset (heldl ts) = mset (heldl us)"
  by (simp add: mset_heldl)

lemma notifiers_perm: "mset ts = mset us \<Longrightarrow> mset (notifiers ts) = mset (notifiers us)"
  by (simp add: mset_notifiers)

lemma in_notifiers: "u \<in> set (notifiers ts) \<longleftrightarrow> (\<exists>i ready. Notify u i ready \<in> set ts)"
proof -
  have "u \<in> set (notifier t) \<longleftrightarrow> (\<exists>i ready. t = Notify u i ready)" for t by (cases t) auto
  then show ?thesis by (auto simp: notifiers_def)
qed

lemma unnotified_iff: "q \<in> unnotified g ts u \<longleftrightarrow> (\<exists>i ready. Notify u i ready \<in> set ts \<and> q \<in> set (drop i (g_succ g u)))"
  by (simp add: unnotified_def)

lemma held_OnVertexDone: "OnVertexDone p \<in> set ts \<Longrightarrow> p \<in> set (heldl ts)"
  by (force simp: heldl_def)

lemma held_in: "t \<in> set ts \<Longrightarrow> p \<in> set (held t) \<Longrightarrow> p \<in> set (heldl ts)"
  by (auto simp: heldl_def)

section \<open>The invariant\<close>

definition tasks_inv :: "Graph \<Rightarrow> task list \<Rightarrow> exec_state \<Rightarrow> bool" where
  "tasks_inv g ts s \<longleftrightarrow>
     distinct (heldl ts) \<and> set (heldl ts) \<subseteq> ptrs g \<and> set (heldl ts) \<inter> joined g ts s = {}
     \<and> distinct (notifiers ts) \<and> set (notifiers ts) \<subseteq> joined g ts s
     \<and> (\<forall>p. OnVertexDone p \<in> set ts \<longrightarrow> vc_result (es_ctx s p) \<noteq> V_RESULT_INVALID)"

text \<open>The results a vertex has been told, and the number of those that are missing.\<close>

definition told :: "Graph \<Rightarrow> task list \<Rightarrow> exec_state \<Rightarrow> vptr \<Rightarrow> vptr \<Rightarrow> VertexResult" where
  "told g ts s q u =
     (if u \<in> joined g ts s \<and> q \<notin> unnotified g ts u then vc_result (es_ctx s u) else V_RESULT_INVALID)"

definition deps_inv :: "Graph \<Rightarrow> task list \<Rightarrow> exec_state \<Rightarrow> bool" where
  "deps_inv g ts s \<longleftrightarrow>
     (\<forall>q \<in> ptrs g.
        vc_deps_results (es_ctx s q) = map (told g ts s q) (g_deps g q)
        \<and> vc_waiting_num (es_ctx s q) = count_list (vc_deps_results (es_ctx s q)) V_RESULT_INVALID
        \<and> (vc_waiting_num (es_ctx s q) = 0 \<longleftrightarrow> q \<in> set (heldl ts) \<union> joined g ts s))"

definition count_inv :: "Graph \<Rightarrow> task list \<Rightarrow> exec_state \<Rightarrow> bool" where
  "count_inv g ts s \<longleftrightarrow>
     es_join s = card (ptrs g - joined g ts s) \<and> es_done s = (if joined g ts s = ptrs g then [0] else [])"

text \<open>The order of execution respects the dependencies.\<close>

definition in_dep_order :: "Graph \<Rightarrow> vptr list \<Rightarrow> bool" where
  "in_dep_order g ps \<longleftrightarrow> distinct ps \<and> (\<forall>i < length ps. set (g_deps g (ps ! i)) \<subseteq> set (take i ps))"

definition history_inv :: "exec_env \<Rightarrow> Graph \<Rightarrow> task list \<Rightarrow> exec_state \<Rightarrow> bool" where
  "history_inv env g ts s \<longleftrightarrow>
     in_dep_order g (es_executed s)
     \<and> set (es_executed s) = joined g ts s \<union> {p. Running p \<in> set ts \<or> OnVertexDone p \<in> set ts}
     \<and> (\<forall>p. Running p \<in> set ts \<longrightarrow> vc_result (es_ctx s p) = V_RESULT_INVALID \<and> match_expected env g p (es_ctx s p))
     \<and> (\<forall>p \<in> ptrs g. vc_result (es_ctx s p) \<noteq> V_RESULT_INVALID \<longrightarrow> \<not> match_expected env g p (es_ctx s p) \<longrightarrow>
          vc_code (es_ctx s p) = errcode_int V_CODE_SKIP \<and> vc_result (es_ctx s p) = V_RESULT_ERR)"

definition exec_inv :: "exec_env \<Rightarrow> Graph \<Rightarrow> task list \<Rightarrow> exec_state \<Rightarrow> bool" where
  "exec_inv env g ts s \<longleftrightarrow> tasks_inv g ts s \<and> deps_inv g ts s \<and> count_inv g ts s \<and> history_inv env g ts s"

lemma exec_inv_perm:
  assumes "exec_inv env g ts s" and "mset ts = mset us"
  shows "exec_inv env g us s"
proof -
  have set: "set us = set ts" using assms(2) by (metis set_mset_mset)
  then have j: "joined g us = joined g ts" "unnotified g us = unnotified g ts" "told g us = told g ts"
    by (simp_all add: joined_def unnotified_def told_def fun_eq_iff)
  have h: "set (heldl us) = set (heldl ts)" "distinct (heldl us) = distinct (heldl ts)"
    "set (notifiers us) = set (notifiers ts)" "distinct (notifiers us) = distinct (notifiers ts)"
    using heldl_perm[OF assms(2)] notifiers_perm[OF assms(2)] by (metis set_mset_mset, metis mset_eq_imp_distinct_iff)+
  show ?thesis
    using assms(1) unfolding exec_inv_def tasks_inv_def deps_inv_def count_inv_def history_inv_def set j h .
qed

lemma exec_inv_tasks [simp]: "exec_inv env g ts (s\<lparr>es_tasks := us\<rparr>) = exec_inv env g ts s"
proof -
  have "joined g ts (s\<lparr>es_tasks := us\<rparr>) = joined g ts s" by (simp add: joined_def)
  moreover from this have "told g ts (s\<lparr>es_tasks := us\<rparr>) = told g ts s" by (simp add: told_def fun_eq_iff)
  ultimately show ?thesis by (simp add: exec_inv_def tasks_inv_def deps_inv_def count_inv_def history_inv_def)
qed

section \<open>The graph an executor relies on\<close>

locale exec_graph =
  fixes g :: Graph
  assumes edges: "edges_wf g"
    and acyclic: "p \<in> ptrs g \<Longrightarrow> \<not> on_circle (g_succ g) p"
    and nodes: "snd ` set (g_nodes g) = ptrs g" "distinct (map snd (g_nodes g))"
    and nonempty: "ptrs g \<noteq> {}"
begin

lemma finite_ptrs [simp]: "finite (ptrs g)"
  by (simp add: ptrs_def)

lemma succ_in: "p \<in> ptrs g \<Longrightarrow> q \<in> set (g_succ g p) \<Longrightarrow> q \<in> ptrs g \<and> p \<in> set (g_deps g q)"
  using edges unfolding edges_wf_def by blast

lemma dep_in: "q \<in> ptrs g \<Longrightarrow> p \<in> set (g_deps g q) \<Longrightarrow> p \<in> ptrs g \<and> q \<in> set (g_succ g p)"
  using edges unfolding edges_wf_def by blast

lemma vertex_ok: "p \<in> ptrs g \<Longrightarrow> deps_ok (vget g p)"
  using edges unfolding edges_wf_def by blast

lemma distinct_succ: "p \<in> ptrs g \<Longrightarrow> distinct (g_succ g p)"
  using vertex_ok by (simp add: deps_ok_def g_succ_def)

lemma distinct_deps: "p \<in> ptrs g \<Longrightarrow> distinct (g_deps g p)"
  using vertex_ok by (simp add: deps_ok_def g_deps_def)

lemma no_self: "p \<in> ptrs g \<Longrightarrow> p \<notin> set (g_succ g p)"
  using acyclic[of p] by (auto simp: on_circle_def)

text \<open>The place of a dependency.\<close>

lemma dep_idx:
  assumes "q \<in> ptrs g" and "p \<in> set (g_deps g q)"
  shows "nat (successor_dep_idx g p q) < length (g_deps g q)" "g_deps g q ! nat (successor_dep_idx g p q) = p"
proof -
  let ?d = "v_deps_idx (vget g q)"
  have ok: "map snd ?d = [0..<length ?d]" "distinct (map fst ?d)" using vertex_ok[OF assms(1)] by (simp_all add: deps_ok_def)
  obtain i where i: "i < length ?d" "fst (?d ! i) = p" using assms(2) by (auto simp: g_deps_def in_set_conv_nth)
  then have "snd (?d ! i) = i" using ok(1) by (metis nth_map nth_upt add_0)
  then have "(p, i) \<in> set ?d" using i by (metis nth_mem prod.collapse)
  then have "map_of ?d p = Some i" using ok(2) by simp
  then have "successor_dep_idx g p q = int i" by (simp add: successor_dep_idx_def GetDependencyIndex_def)
  then show "nat (successor_dep_idx g p q) < length (g_deps g q)" "g_deps g q ! nat (successor_dep_idx g p q) = p"
    using i by (simp_all add: g_deps_def)
qed

end

section \<open>Steps keep the invariant\<close>

lemma match_expected_cong: "vc_deps_results c = vc_deps_results d \<Longrightarrow> match_expected env g p c = match_expected env g p d"
  by (simp add: match_expected_def)

lemma told_cong:
  assumes "joined g us s' = joined g ts s" and "unnotified g us = unnotified g ts"
    and "\<And>u. u \<in> joined g ts s \<Longrightarrow> vc_result (es_ctx s' u) = vc_result (es_ctx s u)"
  shows "told g us s' = told g ts s"
  using assms by (auto simp: told_def fun_eq_iff)

lemma deps_inv_cong:
  assumes "\<And>q. vc_deps_results (es_ctx s' q) = vc_deps_results (es_ctx s q)"
    and "\<And>q. vc_waiting_num (es_ctx s' q) = vc_waiting_num (es_ctx s q)"
    and "told g us s' = told g ts s" and "set (heldl us) = set (heldl ts)" and "joined g us s' = joined g ts s"
  shows "deps_inv g us s' = deps_inv g ts s"
  unfolding deps_inv_def assms ..

lemma deps_invD:
  "deps_inv g ts s \<Longrightarrow> q \<in> ptrs g \<Longrightarrow>
   count_list (map (told g ts s q) (g_deps g q)) V_RESULT_INVALID = 0 \<longleftrightarrow> q \<in> set (heldl ts) \<union> joined g ts s"
  unfolding deps_inv_def by (metis (no_types, lifting))

text \<open>A vertex that starts or returns: the task stays responsible for it.\<close>

lemma joined_moves:
  assumes "tasks_inv g (t # R) s" and t: "t = Execute p \<or> t = Running p" and "es_ctx s' = (es_ctx s)(p := c)"
    and "u = OnVertexDone p \<or> u = Running p \<and> c = es_ctx s p"
  shows "joined g (u # R) s' = joined g (t # R) s" "p \<notin> joined g (t # R) s" "unnotified g (u # R) = unnotified g (t # R)"
    "p \<notin> set (heldl R)" "OnVertexDone p \<notin> set R" "Running p \<notin> set R" "vc_result (es_ctx s p) = V_RESULT_INVALID"
proof -
  have h: "held t = [p]" using t by auto
  show nj: "p \<notin> joined g (t # R) s" using assms(1) h by (auto simp: tasks_inv_def)
  show nh: "p \<notin> set (heldl R)" using assms(1) h by (auto simp: tasks_inv_def)
  then show o: "OnVertexDone p \<notin> set R" and "Running p \<notin> set R" using held_OnVertexDone held_in[of "Running p"] by auto
  have p: "p \<in> ptrs g" using assms(1) h by (auto simp: tasks_inv_def)
  show i: "vc_result (es_ctx s p) = V_RESULT_INVALID" using nj o p t by (auto simp: joined_def)
  show "joined g (u # R) s' = joined g (t # R) s"
    using assms(3,4) i t by (auto simp: joined_def split: if_splits)
  show "unnotified g (u # R) = unnotified g (t # R)"
    using t assms(4) by (auto simp: unnotified_def fun_eq_iff)
qed

lemma start_inv:
  assumes inv: "exec_inv env g (Execute p # R) s" and ctx: "es_ctx s' = (es_ctx s)(p := c)"
    and same: "es_join s' = es_join s" "es_done s' = es_done s" "es_executed s' = es_executed s @ [p]"
    and c: "vc_deps_results c = vc_deps_results (es_ctx s p)" "vc_waiting_num c = vc_waiting_num (es_ctx s p)"
    and u: "u = OnVertexDone p \<and> vc_code c = errcode_int V_CODE_SKIP \<and> vc_result c = V_RESULT_ERR
      \<or> u = Running p \<and> c = es_ctx s p \<and> match_expected env g p c"
    and deps: "p \<in> ptrs g \<Longrightarrow> set (g_deps g p) \<subseteq> joined g (Execute p # R) s"
  shows "exec_inv env g (u # R) s'"
proof -
  let ?T = "Execute p # R" and ?U = "u # R"
  have tasks: "tasks_inv g ?T s" using inv by (simp add: exec_inv_def)
  note m = joined_moves[OF tasks _ ctx, of u, simplified]
  have u': "u = OnVertexDone p \<or> u = Running p \<and> c = es_ctx s p" using u by blast
  note j = m(1)[OF u'] and nj = m(2)[OF u'] and un = m(3)[OF u'] and fresh = m(4-7)[OF u']
  have told: "told g ?U s' = told g ?T s" using nj by (intro told_cong j un) (auto simp: ctx)
  have h: "heldl ?U = heldl ?T" "notifiers ?U = notifiers ?T" using u by auto
  have p: "p \<in> ptrs g" using tasks by (simp add: tasks_inv_def)
  have "tasks_inv g ?U s'" using tasks u unfolding tasks_inv_def h j by (auto simp: ctx)
  moreover have "deps_inv g ?U s'" using inv c by (subst deps_inv_cong[OF _ _ told _ j]) (simp_all only: h, simp_all add: ctx exec_inv_def)
  moreover have "count_inv g ?U s'" using inv unfolding exec_inv_def count_inv_def j same by simp
  moreover have "history_inv env g ?U s'"
  proof -
    have H: "history_inv env g ?T s" using inv by (simp add: exec_inv_def)
    then have set: "set (es_executed s) = joined g ?T s \<union> {p. Running p \<in> set R \<or> OnVertexDone p \<in> set R}"
      by (simp add: history_inv_def)
    have "in_dep_order g (es_executed s')"
      using H deps[OF p] fresh nj set unfolding same history_inv_def in_dep_order_def
      by (auto simp: nth_append less_Suc_eq)
    moreover have "set (es_executed s') = joined g ?U s' \<union> {p. Running p \<in> set ?U \<or> OnVertexDone p \<in> set ?U}"
      using u' unfolding same j by (auto simp: set)
    moreover have "\<forall>q. Running q \<in> set ?U \<longrightarrow> vc_result (es_ctx s' q) = V_RESULT_INVALID \<and> match_expected env g q (es_ctx s' q)"
      using H u fresh by (auto simp: history_inv_def ctx)
    moreover have "\<forall>q \<in> ptrs g. vc_result (es_ctx s' q) \<noteq> V_RESULT_INVALID \<longrightarrow> \<not> match_expected env g q (es_ctx s' q) \<longrightarrow>
      vc_code (es_ctx s' q) = errcode_int V_CODE_SKIP \<and> vc_result (es_ctx s' q) = V_RESULT_ERR"
      using H u by (auto simp: history_inv_def ctx)
    ultimately show ?thesis by (simp add: history_inv_def)
  qed
  ultimately show ?thesis by (simp add: exec_inv_def)
qed

lemma return_inv:
  assumes inv: "exec_inv env g (Running p # R) s" and ctx: "es_ctx s' = (es_ctx s)(p := c)"
    and same: "es_join s' = es_join s" "es_done s' = es_done s" "es_executed s' = es_executed s"
    and c: "vc_deps_results c = vc_deps_results (es_ctx s p)" "vc_waiting_num c = vc_waiting_num (es_ctx s p)"
      "vc_result c \<noteq> V_RESULT_INVALID"
  shows "exec_inv env g (OnVertexDone p # R) s'"
proof -
  let ?T = "Running p # R" and ?U = "OnVertexDone p # R"
  have tasks: "tasks_inv g ?T s" using inv by (simp add: exec_inv_def)
  note m = joined_moves[OF tasks _ ctx, of "OnVertexDone p", simplified]
  note j = m(1) and nj = m(2) and un = m(3) and fresh = m(4-7)
  have told: "told g ?U s' = told g ?T s" using nj by (intro told_cong j un) (auto simp: ctx)
  have h: "heldl ?U = heldl ?T" "notifiers ?U = notifiers ?T" by auto
  have H: "history_inv env g ?T s" using inv by (simp add: exec_inv_def)
  have "tasks_inv g ?U s'" using tasks c unfolding tasks_inv_def h j by (auto simp: ctx)
  moreover have "deps_inv g ?U s'"
    using inv c by (subst deps_inv_cong[OF _ _ told _ j]) (simp_all only: h, simp_all add: ctx exec_inv_def)
  moreover have "count_inv g ?U s'" using inv unfolding exec_inv_def count_inv_def j same by simp
  moreover have "history_inv env g ?U s'"
    using H fresh match_expected_cong[OF c(1)] unfolding history_inv_def same j by (auto simp: ctx)
  ultimately show ?thesis by (simp add: exec_inv_def)
qed

text \<open>Tasks that only pass vertices on.\<close>

lemma pass_inv:
  assumes inv: "exec_inv env g (t # R) s" and h: "mset (heldl new) = mset (held t)" and n: "notifiers new = []"
    and un: "unnotified g (new @ R) = unnotified g (t # R)"
    and o: "\<And>p. OnVertexDone p \<notin> set (t # new)" "\<And>p. Running p \<notin> set (t # new)"
  shows "exec_inv env g (new @ R) s"
proof -
  have j: "joined g (new @ R) s = joined g (t # R) s" using o by (auto simp: joined_def)
  have told: "told g (new @ R) s = told g (t # R) s" by (intro told_cong j un) simp
  have "mset (heldl (new @ R)) = mset (heldl (t # R))" using h by simp
  then have hs: "set (heldl (new @ R)) = set (heldl (t # R))" "distinct (heldl (new @ R)) = distinct (heldl (t # R))"
    by (metis set_mset_mset, metis mset_eq_imp_distinct_iff)
  have "tasks_inv g (new @ R) s" using inv n o unfolding exec_inv_def tasks_inv_def hs j by auto
  moreover have "deps_inv g (new @ R) s"
    using inv by (subst deps_inv_cong[OF refl refl told hs(1) j]) (simp add: exec_inv_def)
  moreover have "count_inv g (new @ R) s" using inv unfolding exec_inv_def count_inv_def j by simp
  moreover have "history_inv env g (new @ R) s" using inv o unfolding exec_inv_def history_inv_def j by auto
  ultimately show ?thesis by (simp add: exec_inv_def)
qed

lemma local_execute_in: "ready \<noteq> [] \<Longrightarrow> local_execute env ready \<in> set ready"
  by (auto simp: local_execute_def find_Some_iff split: option.split)

lemma mset_filter_out: "distinct xs \<Longrightarrow> x \<in> set xs \<Longrightarrow> add_mset x (mset (filter (\<lambda>y. y \<noteq> x) xs)) = mset xs"
  by (induction xs) (auto simp: filter_mset_eq_conv)

lemma ExecuteReadyVertexs_tasks:
  assumes "distinct ready"
  shows "mset (heldl (ExecuteReadyVertexs env ready)) = mset ready" "notifiers (ExecuteReadyVertexs env ready) = []"
    "t \<in> set (ExecuteReadyVertexs env ready) \<Longrightarrow> (\<exists>p. t = Execute p) \<or> (\<exists>l qs. t = Post l qs)"
  using mset_filter_out[OF assms local_execute_in[of ready env]]
  by (cases ready; cases "tl ready"; auto simp: ExecuteReadyVertexs_def)+

lemma post_next_tasks:
  "heldl (post_next l qs) = (case qs of [] \<Rightarrow> [l] | q # qs \<Rightarrow> if q = l then l # filter (\<lambda>q. q \<noteq> l) qs else q # l # filter (\<lambda>q. q \<noteq> l) qs)"
  "notifiers (post_next l qs) = []" "t \<in> set (post_next l qs) \<Longrightarrow> (\<exists>p. t = Execute p) \<or> (\<exists>l qs. t = Post l qs)"
  by (cases qs; auto split: if_splits)+

lemma post_inv:
  assumes "exec_inv env g (Post l qs # R) s"
  shows "exec_inv env g (post_next l qs @ R) s"
proof (rule pass_inv[OF assms])
  show "mset (heldl (post_next l qs)) = mset (held (Post l qs))" by (cases qs) auto
  show "unnotified g (post_next l qs @ R) = unnotified g (Post l qs # R)"
    by (auto simp: unnotified_def fun_eq_iff dest: post_next_tasks(3))
qed (use post_next_tasks in \<open>fastforce+\<close>)

lemma notified_inv:
  assumes inv: "exec_inv env g (Notify p i ready # R) s" and "length (g_succ g p) \<le> i"
  shows "exec_inv env g (ExecuteReadyVertexs env ready @ R) s"
proof -
  have d: "distinct ready" using inv by (simp add: exec_inv_def tasks_inv_def)
  note e = ExecuteReadyVertexs_tasks[OF d]
  show ?thesis
  proof (rule pass_inv[OF inv])
    show "unnotified g (ExecuteReadyVertexs env ready @ R) = unnotified g (Notify p i ready # R)"
      using assms(2) by (auto simp: unnotified_def fun_eq_iff dest!: e(3))
  qed (use e in \<open>fastforce+\<close>)
qed

context exec_graph
begin

lemma started_deps:
  assumes "deps_inv g ts s" and "q \<in> set (heldl ts) \<union> joined g ts s" and "q \<in> ptrs g" and "u \<in> set (g_deps g q)"
  shows "u \<in> joined g ts s"
proof -
  have "count_list (map (told g ts s q) (g_deps g q)) V_RESULT_INVALID = 0"
    using deps_invD[OF assms(1,3)] assms(2) by simp
  then have "told g ts s q u \<noteq> V_RESULT_INVALID" using assms(4) by (auto simp: count_list_0_iff image_iff)
  then show ?thesis by (auto simp: told_def split: if_splits)
qed

lemma join_joined:
  assumes "tasks_inv g (OnVertexDone p # R) s" and "es_ctx s' = es_ctx s" and "new = [] \<or> new = [Notify p 0 []]"
  shows "joined g (new @ R) s' = insert p (joined g (OnVertexDone p # R) s)" "p \<notin> joined g (OnVertexDone p # R) s"
    "p \<in> ptrs g" "p \<notin> set (notifiers R)" "p \<notin> set (heldl R)" "Running p \<notin> set R" "OnVertexDone p \<notin> set R"
proof -
  have p: "p \<in> ptrs g" "vc_result (es_ctx s p) \<noteq> V_RESULT_INVALID" "p \<notin> set (heldl R)"
    using assms(1) by (auto simp: tasks_inv_def)
  then show "p \<in> ptrs g" "p \<notin> set (heldl R)" by simp_all
  show o: "OnVertexDone p \<notin> set R" and "Running p \<notin> set R" using p(3) held_OnVertexDone held_in[of "Running p"] by auto
  show n: "p \<notin> joined g (OnVertexDone p # R) s" by (simp add: joined_def)
  then show "p \<notin> set (notifiers R)" using assms(1) by (auto simp: tasks_inv_def)
  show "joined g (new @ R) s' = insert p (joined g (OnVertexDone p # R) s)"
    using p o assms(2,3) by (auto simp: joined_def)
qed

lemma join_told:
  assumes inv: "tasks_inv g (OnVertexDone p # R) s" "deps_inv g (OnVertexDone p # R) s" and s': "es_ctx s' = es_ctx s"
    and new: "new = [] \<and> insert p (joined g (OnVertexDone p # R) s) = ptrs g \<or> new = [Notify p 0 []]"
    and q: "q \<in> ptrs g" "u \<in> set (g_deps g q)"
  shows "told g (new @ R) s' q u = told g (OnVertexDone p # R) s q u"
proof -
  let ?T = "OnVertexDone p # R"
  have n: "new = [] \<or> new = [Notify p 0 []]" using new by blast
  note j = join_joined[OF inv(1) s' n]
  show ?thesis
  proof (cases "u = p")
    case True
    have old: "told g ?T s q u = V_RESULT_INVALID" using j(2) True by (simp add: told_def)
    have "q \<in> set (g_succ g p)" using dep_in[OF q] True by simp
    then have "q \<in> unnotified g (Notify p 0 [] # R) p" unfolding unnotified_iff by (intro exI[of _ 0] exI[of _ "[]"]) simp
    moreover have False if "new = []"
    proof -
      have "q \<in> insert p (joined g ?T s)" using new q(1) that by auto
      moreover have "q \<noteq> p" using no_self[OF q(1)] dep_in[OF q] True by auto
      ultimately show False using started_deps[OF inv(2) _ q] j(2) True by blast
    qed
    ultimately have "told g (new @ R) s' q u = V_RESULT_INVALID" using n True by (auto simp: told_def)
    then show ?thesis using old by simp
  next
    case False
    then have "unnotified g (new @ R) u = unnotified g ?T u" using n by (auto simp: unnotified_def)
    then show ?thesis using False unfolding told_def j(1) s' by simp
  qed
qed

lemma join_inv:
  assumes inv: "exec_inv env g (OnVertexDone p # R) s" and step: "join_vertex p s = (new, s')"
  shows "exec_inv env g (new @ R) s'"
proof -
  let ?T = "OnVertexDone p # R"
  have i: "tasks_inv g ?T s" "deps_inv g ?T s" "count_inv g ?T s" "history_inv env g ?T s"
    using inv by (simp_all add: exec_inv_def)
  have n: "new = [] \<or> new = [Notify p 0 []]" and s': "es_ctx s' = es_ctx s" "es_join s' = es_join s - 1" "es_executed s' = es_executed s"
    using step by (auto simp: join_vertex_def Let_def split: if_splits)
  note j = join_joined[OF i(1) s'(1) n]
  let ?J = "joined g ?T s"
  have "?J \<subseteq> ptrs g" by (auto simp: joined_def)
  then have diff: "ptrs g - ?J = insert p (ptrs g - insert p ?J)" using j(2,3) by blast
  have card: "es_join s = Suc (card (ptrs g - insert p ?J))"
    using i(3) unfolding count_inv_def by (subst (asm) diff) (simp add: card_insert_if)
  have last: "es_join s = 1 \<longleftrightarrow> insert p ?J = ptrs g" using card \<open>?J \<subseteq> ptrs g\<close> j(3) by auto
  have new: "new = [] \<and> insert p ?J = ptrs g \<or> new = [Notify p 0 []]" "es_done s' = (if insert p ?J = ptrs g then [0] else [])"
    using step last i(3) j(2,3) by (auto simp: join_vertex_def Let_def count_inv_def split: if_splits)
  have told: "map (told g (new @ R) s' q) (g_deps g q) = map (told g ?T s q) (g_deps g q)" if "q \<in> ptrs g" for q
    using join_told[OF i(1,2) s'(1) new(1) that] by simp
  have "tasks_inv g (new @ R) s'"
    using i(1) j n unfolding tasks_inv_def j(1) s'(1) by auto
  moreover have "deps_inv g (new @ R) s'"
    unfolding deps_inv_def
  proof (intro ballI)
    fix q assume q: "q \<in> ptrs g"
    have "set (heldl (new @ R)) \<union> insert p ?J = set (heldl ?T) \<union> ?J" using n by auto
    then show "vc_deps_results (es_ctx s' q) = map (told g (new @ R) s' q) (g_deps g q)
        \<and> vc_waiting_num (es_ctx s' q) = count_list (vc_deps_results (es_ctx s' q)) V_RESULT_INVALID
        \<and> (vc_waiting_num (es_ctx s' q) = 0 \<longleftrightarrow> q \<in> set (heldl (new @ R)) \<union> joined g (new @ R) s')"
      using i(2) q unfolding deps_inv_def told[OF q] j(1) s'(1) by (metis (no_types, lifting))
  qed
  moreover have "count_inv g (new @ R) s'" unfolding count_inv_def j(1) s'(2) card new(2) by simp
  moreover have "history_inv env g (new @ R) s'" using i(4) j n unfolding history_inv_def j(1) s' by auto
  ultimately show ?thesis by (simp add: exec_inv_def)
qed

end

lemma count_list_replicate [simp]: "count_list (replicate n a) a = n"
  by (induction n) auto

lemma count_list_map: "u \<in> set ds \<Longrightarrow> f u = a \<Longrightarrow> count_list (map f ds) a \<noteq> 0"
  by (induction ds) auto

lemma count_list_update: "k < length xs \<Longrightarrow> xs ! k = a \<Longrightarrow> v \<noteq> a \<Longrightarrow> count_list (xs[k := v]) a = count_list xs a - 1"
proof (induction xs arbitrary: k)
  case (Cons x xs)
  then show ?case
    using count_notin[of a xs] by (cases k) (auto simp: count_list_0_iff Suc_diff_le Suc_le_eq neq0_conv[symmetric])
qed simp

lemma map_told_update:
  assumes "distinct ds" and "k < length ds" and "ds ! k = p" and "\<And>u. u \<noteq> p \<Longrightarrow> f u = h u"
  shows "map f ds = (map h ds)[k := f p]"
  using assms by (intro nth_equalityI) (auto simp: nth_list_update nth_eq_iff_index_eq)

context exec_graph
begin

text \<open>One more successor is notified.\<close>

lemma notify_facts:
  assumes inv: "exec_inv env g (Notify p i ready # R) s" and i: "i < length (g_succ g p)"
  defines "q \<equiv> g_succ g p ! i" and "T \<equiv> Notify p i ready # R" and "k \<equiv> nat (successor_dep_idx g p (g_succ g p ! i))"
  shows "p \<in> joined g T s" "q \<in> ptrs g" "p \<in> set (g_deps g q)" "vc_deps_results (es_ctx s q) ! k = V_RESULT_INVALID"
    "k < length (vc_deps_results (es_ctx s q))" "0 < vc_waiting_num (es_ctx s q)" "q \<notin> set (heldl T)" "q \<notin> joined g T s"
    "p \<notin> set (notifiers R)" "vc_result (es_ctx s q) = V_RESULT_INVALID"
proof -
  have t: "tasks_inv g T s" "deps_inv g T s" using inv by (simp_all add: exec_inv_def T_def)
  show p: "p \<in> joined g T s" "p \<notin> set (notifiers R)" using t(1) by (auto simp: tasks_inv_def T_def)
  then have pp: "p \<in> ptrs g" by (simp add: joined_def)
  have "q \<in> set (g_succ g p)" using i by (simp add: q_def)
  then show q: "q \<in> ptrs g" "p \<in> set (g_deps g q)" using succ_in[OF pp] by auto
  note k = dep_idx[OF q, folded k_def[folded q_def]]
  have "q \<in> unnotified g T p" using i by (auto simp: unnotified_def T_def q_def Cons_nth_drop_Suc[symmetric])
  then have told: "told g T s q p = V_RESULT_INVALID" by (simp add: told_def)
  have d: "vc_deps_results (es_ctx s q) = map (told g T s q) (g_deps g q)"
    and w: "vc_waiting_num (es_ctx s q) = count_list (map (told g T s q) (g_deps g q)) V_RESULT_INVALID"
      "vc_waiting_num (es_ctx s q) = 0 \<longleftrightarrow> q \<in> set (heldl T) \<union> joined g T s"
    using t(2) q(1) unfolding deps_inv_def by (metis (no_types, lifting))+
  show "vc_deps_results (es_ctx s q) ! k = V_RESULT_INVALID" "k < length (vc_deps_results (es_ctx s q))"
    unfolding d using k told by simp_all
  have "V_RESULT_INVALID \<in> set (map (told g T s q) (g_deps g q))" using told q(2) by force
  then have "count_list (map (told g T s q) (g_deps g q)) V_RESULT_INVALID \<noteq> 0" by (simp add: count_list_0_iff)
  then show "0 < vc_waiting_num (es_ctx s q)" using w(1) by simp
  then show "q \<notin> set (heldl T)" "q \<notin> joined g T s" using w(2) by auto
  then show "vc_result (es_ctx s q) = V_RESULT_INVALID"
    using held_OnVertexDone[of q T] q(1) by (auto simp: joined_def)
qed

lemma notify_told:
  assumes "p \<in> ptrs g" and "p \<notin> set (notifiers R)" and "i < length (g_succ g p)" and "j = joined g (Notify p i ready # R) s"
    and "joined g (new @ R) s' = j" and "\<And>u. vc_result (es_ctx s' u) = vc_result (es_ctx s u)" and "p \<in> j"
    and new: "new = [Execute (g_succ g p ! i)] \<and> Suc i = length (g_succ g p) \<or> (\<exists>ready'. new = [Notify p (Suc i) ready'])"
  shows "told g (new @ R) s' q u =
    (if u = p \<and> q = g_succ g p ! i then vc_result (es_ctx s p) else told g (Notify p i ready # R) s q u)"
proof -
  have none: "Notify p l r \<notin> set R" for l r using assms(2) in_notifiers by blast
  have drop: "drop i (g_succ g p) = g_succ g p ! i # drop (Suc i) (g_succ g p)" using assms(3) by (rule Cons_nth_drop_Suc[symmetric])
  have d: "g_succ g p ! i \<notin> set (drop (Suc i) (g_succ g p))"
    using distinct_succ[OF assms(1)] drop by (metis distinct.simps(2) distinct_drop)
  have p: "unnotified g (new @ R) p = set (drop (Suc i) (g_succ g p))"
    using new none by (auto simp: unnotified_def)
  have old: "unnotified g (Notify p i ready # R) p = set (drop i (g_succ g p))" using none by (auto simp: unnotified_def)
  have other: "unnotified g (new @ R) u = unnotified g (Notify p i ready # R) u" if "u \<noteq> p" for u
    using new that by (auto simp: unnotified_def)
  show ?thesis
    using assms(5,6,7) d other old p unfolding told_def assms(4,5) by (cases "u = p") (auto simp: drop)
qed

end

context exec_graph
begin

lemma notify_deps:
  assumes inv: "deps_inv g T s" and q0: "q0 \<in> ptrs g" "p \<in> set (g_deps g q0)" and k: "k = nat (successor_dep_idx g p q0)"
    and ctx: "es_ctx s' = (es_ctx s)(q0 := d)" and d: "vc_deps_results d = (vc_deps_results (es_ctx s q0))[k := r]"
      "vc_waiting_num d = vc_waiting_num (es_ctx s q0) - 1"
    and r: "k < length (vc_deps_results (es_ctx s q0))" "vc_deps_results (es_ctx s q0) ! k = V_RESULT_INVALID" "r \<noteq> V_RESULT_INVALID"
    and told: "\<And>q u. told g U s' q u = (if u = p \<and> q = q0 then r else told g T s q u)"
    and started: "\<And>q. q \<noteq> q0 \<Longrightarrow> q \<in> set (heldl U) \<union> joined g U s' \<longleftrightarrow> q \<in> set (heldl T) \<union> joined g T s"
      "vc_waiting_num (es_ctx s q0) - 1 = 0 \<longleftrightarrow> q0 \<in> set (heldl U) \<union> joined g U s'"
  shows "deps_inv g U s'"
  unfolding deps_inv_def
proof (intro ballI)
  fix q assume q: "q \<in> ptrs g"
  have D: "vc_deps_results (es_ctx s q) = map (told g T s q) (g_deps g q)"
    "vc_waiting_num (es_ctx s q) = count_list (vc_deps_results (es_ctx s q)) V_RESULT_INVALID"
    "vc_waiting_num (es_ctx s q) = 0 \<longleftrightarrow> q \<in> set (heldl T) \<union> joined g T s"
    using inv q unfolding deps_inv_def by blast+
  show "vc_deps_results (es_ctx s' q) = map (told g U s' q) (g_deps g q)
      \<and> vc_waiting_num (es_ctx s' q) = count_list (vc_deps_results (es_ctx s' q)) V_RESULT_INVALID
      \<and> (vc_waiting_num (es_ctx s' q) = 0 \<longleftrightarrow> q \<in> set (heldl U) \<union> joined g U s')"
  proof (cases "q = q0")
    case True
    have "map (told g U s' q0) (g_deps g q0) = (map (told g T s q0) (g_deps g q0))[k := told g U s' q0 p]"
      unfolding k by (rule map_told_update[OF distinct_deps[OF q0(1)] dep_idx[OF q0]]) (simp add: told)
    moreover have "count_list ((vc_deps_results (es_ctx s q0))[k := r]) V_RESULT_INVALID = vc_waiting_num (es_ctx s q0) - 1"
      using count_list_update[OF r] D(2) True by simp
    ultimately show ?thesis using True D(1) d started(2) by (simp add: ctx told)
  next
    case False
    then have "map (told g U s' q) (g_deps g q) = map (told g T s q) (g_deps g q)" by (simp add: told)
    moreover have "es_ctx s' q = es_ctx s q" using False by (simp add: ctx)
    ultimately show ?thesis using D started(1)[OF False] by (metis (no_types, lifting))
  qed
qed

lemma notify_inv:
  assumes inv: "exec_inv env g (Notify p i ready # R) s" and i: "i < length (g_succ g p)"
    and step: "notify_next env g p i ready s = (new, s')"
  shows "exec_inv env g (new @ R) s'"
proof -
  let ?T = "Notify p i ready # R" and ?q = "g_succ g p ! i"
  let ?k = "nat (successor_dep_idx g p ?q)" and ?c = "es_ctx s ?q" and ?J = "joined g (Notify p i ready # R) s"
  note f = notify_facts[OF inv i]
  have I: "tasks_inv g ?T s" "deps_inv g ?T s" "count_inv g ?T s" "history_inv env g ?T s" using inv by (simp_all add: exec_inv_def)
  have pp: "p \<in> ptrs g" and rp: "vc_result (es_ctx s p) \<noteq> V_RESULT_INVALID" using f(1) by (simp_all add: joined_def)
  let ?d = "?c\<lparr>vc_deps_results := (vc_deps_results ?c)[?k := vc_result (es_ctx s p)], vc_waiting_num := vc_waiting_num ?c - 1\<rparr>"
  have s': "s' = s\<lparr>es_ctx := (es_ctx s)(?q := ?d)\<rparr>"
    and new: "new = (if vc_waiting_num ?c = 1
      then if Suc i = length (g_succ g p) \<and> ready = [] then [Execute ?q] else [Notify p (Suc i) (ready @ [?q])]
      else [Notify p (Suc i) ready])"
    using step i f(4) by (auto simp: notify_next_def SetDependencyResult_def Let_def upd_ctx_def split: if_splits)
  have ctx: "es_ctx s' = (es_ctx s)(?q := ?d)" using s' by simp
  have res: "vc_result (es_ctx s' u) = vc_result (es_ctx s u)" for u by (simp add: ctx)
  have j: "joined g (new @ R) s' = ?J" using new by (auto simp: joined_def res split: if_splits)
  have new': "new = [Execute ?q] \<and> Suc i = length (g_succ g p) \<or> (\<exists>r. new = [Notify p (Suc i) r])" using new by (auto split: if_splits)
  note told = notify_told[OF pp f(9) i refl j res f(1) new']
  have held: "mset (heldl (new @ R)) = mset (if vc_waiting_num ?c = 1 then ?q # heldl ?T else heldl ?T)" using new by simp
  have "set (heldl (new @ R)) = set (if vc_waiting_num ?c = 1 then ?q # heldl ?T else heldl ?T)"
    using arg_cong[OF held, of set_mset] unfolding set_mset_mset .
  then have hs: "set (heldl (new @ R)) = (if vc_waiting_num ?c = 1 then insert ?q (set (heldl ?T)) else set (heldl ?T))"
    by (simp del: heldl_simps)
  have hd: "distinct (heldl (new @ R))" using I(1) f(7) mset_eq_imp_distinct_iff[OF held] by (simp add: tasks_inv_def)
  have "tasks_inv g (new @ R) s'"
    using I(1) f(2,8,9) hd new' new unfolding tasks_inv_def j hs res by (auto split: if_splits)
  moreover have "deps_inv g (new @ R) s'"
  proof (rule notify_deps[OF I(2) f(2,3) refl ctx _ _ f(5,4) rp told])
    show "q \<in> set (heldl (new @ R)) \<union> joined g (new @ R) s' \<longleftrightarrow> q \<in> set (heldl ?T) \<union> ?J" if "q \<noteq> ?q" for q
      using that hs j by auto
    show "vc_waiting_num ?c - 1 = 0 \<longleftrightarrow> ?q \<in> set (heldl (new @ R)) \<union> joined g (new @ R) s'" using f(6,7,8) hs j by auto
  qed simp_all
  moreover have "count_inv g (new @ R) s'" using I(3) unfolding count_inv_def j by (simp add: s')
  moreover have "history_inv env g (new @ R) s'"
  proof -
    have "Running ?q \<notin> set R" using f(7) held_in[of "Running ?q" R ?q] by auto
    then show ?thesis using I(4) f(10) new' unfolding history_inv_def j by (auto simp: s')
  qed
  ultimately show ?thesis by (simp add: exec_inv_def)
qed

end

context exec_graph
begin

lemma start_vertex_inv:
  assumes inv: "exec_inv env g (Execute p # R) s" and "start_vertex env g timed_out injected p s = Some (new, s')"
  shows "exec_inv env g (new @ R) s'"
proof -
  have d: "deps_inv g (Execute p # R) s" using inv by (simp add: exec_inv_def)
  have deps: "p \<in> ptrs g \<Longrightarrow> set (g_deps g p) \<subseteq> joined g (Execute p # R) s" using started_deps[OF d, of p] by auto
  let ?c = "FinishVertexProcess (errcode_int V_CODE_SKIP) (es_ctx s p)"
  consider "new = [OnVertexDone p]" "s' = s\<lparr>es_executed := es_executed s @ [p], es_ctx := (es_ctx s)(p := ?c)\<rparr>"
    | "new = [Running p]" "s' = s\<lparr>es_executed := es_executed s @ [p]\<rparr>" "match_expected env g p (es_ctx s p)"
    using assms(2) by (auto simp: start_vertex_def Let_def upd_ctx_def split: if_splits)
  then show ?thesis
  proof cases
    case 1
    then show ?thesis using start_inv[OF inv, of s' ?c "OnVertexDone p"] deps by (simp add: FinishVertexProcess_def errcode_int_def)
  next
    case 2
    then show ?thesis using start_inv[OF inv, of s' "es_ctx s p" "Running p"] deps by simp
  qed
qed

lemma vertex_returns_inv:
  assumes "exec_inv env g (Running p # R) s" and "vertex_returns env g rc p s = (new, s')"
  shows "exec_inv env g (new @ R) s'"
proof -
  obtain c where "new = [OnVertexDone p]" "s' = s\<lparr>es_ctx := (es_ctx s)(p := c)\<rparr>" "vc_result c \<noteq> V_RESULT_INVALID"
    "vc_deps_results c = vc_deps_results (es_ctx s p)" "vc_waiting_num c = vc_waiting_num (es_ctx s p)"
    using assms(2) by (fastforce simp: vertex_returns_def Let_def upd_ctx_def FinishVertexProcess_def)
  then show ?thesis using return_inv[OF assms(1), of s' c] by simp
qed

lemma task_step_inv:
  assumes "task_step env g c t s = Some (new, s')" and "exec_inv env g (t # R) s"
  shows "exec_inv env g (new @ R) s'"
proof (cases t)
  case (Notify p i ready)
  then have "notify_next env g p i ready s = (new, s')" using assms(1) by (cases c) auto
  then show ?thesis
    using notified_inv[of env g p i ready R s] notify_inv[of env p i ready R s new s'] assms(2) Notify
    by (cases "i < length (g_succ g p)") (simp_all add: notify_next_def)
qed (use assms in \<open>cases c; auto simp: start_vertex_inv vertex_returns_inv join_inv post_inv\<close>)+

end

end
