(* ===== verification/DidagleExecProps.thy ===== *)
theory DidagleExecProps
  imports DidagleExecInv
begin

text \<open>
  What every run of a graph that was built does: every vertex is executed once, after all it depends
  on, and the run ends with one call of the closure, made when no thread touches the graph any more.
\<close>

section \<open>Runs\<close>

lemma exec_stepE:
  assumes "exec_step env g e s = Some t"
  obtains i c k R new s1 where "e = (i, c)" "i < length (es_tasks s)" "k = es_tasks s ! i" "task_step env g c k s = Some (new, s1)"
    "mset (es_tasks s) = mset (k # R)" "mset (es_tasks t) = mset (new @ R)" "t = s1\<lparr>es_tasks := es_tasks t\<rparr>"
proof -
  obtain i c where e: "e = (i, c)" by (cases e)
  then obtain new s1 where i: "i < length (es_tasks s)" "task_step env g c (es_tasks s ! i) s = Some (new, s1)"
    "t = s1\<lparr>es_tasks := take i (es_tasks s) @ new @ drop (Suc i) (es_tasks s)\<rparr>"
    using assms by (auto simp: exec_step_def Let_def split: if_splits)
  have "es_tasks s = take i (es_tasks s) @ es_tasks s ! i # drop (Suc i) (es_tasks s)" using i(1) by (rule id_take_nth_drop)
  then have "mset (es_tasks s) = mset (es_tasks s ! i # take i (es_tasks s) @ drop (Suc i) (es_tasks s))"
    by (metis mset_append mset.simps(2) union_mset_add_mset_right)
  with e i show ?thesis by (intro that[of i c "es_tasks s ! i" new s1 "take i (es_tasks s) @ drop (Suc i) (es_tasks s)"]) auto
qed

text \<open>The work that is left.\<close>

definition vertex_cost :: "Graph \<Rightarrow> vptr \<Rightarrow> nat" where
  "vertex_cost g p = 3 * length (g_succ g p) + 5"

fun task_cost :: "Graph \<Rightarrow> task \<Rightarrow> nat" where
  "task_cost g (Execute p) = vertex_cost g p"
| "task_cost g (Running p) = 3 * length (g_succ g p) + 4"
| "task_cost g (OnVertexDone p) = 3 * length (g_succ g p) + 3"
| "task_cost g (Notify p i ready) = 3 * (length (g_succ g p) - i) + 2 * length ready + 2 + (\<Sum>q\<leftarrow>ready. vertex_cost g q)"
| "task_cost g (Post l qs) = length qs + 1 + (\<Sum>q\<leftarrow>held (Post l qs). vertex_cost g q)"

definition waiting_cost :: "Graph \<Rightarrow> exec_state \<Rightarrow> nat" where
  "waiting_cost g s = (\<Sum>p | p \<in> ptrs g \<and> vc_waiting_num (es_ctx s p) \<noteq> 0. vertex_cost g p)"

definition exec_measure :: "Graph \<Rightarrow> exec_state \<Rightarrow> nat" where
  "exec_measure g s = waiting_cost g s + (\<Sum>t\<leftarrow>es_tasks s. task_cost g t)"

lemma sum_list_perm: "mset xs = mset ys \<Longrightarrow> (\<Sum>x\<leftarrow>xs. f x) = (\<Sum>y\<leftarrow>ys. f y :: nat)"
  using sum_mset_sum_list[of "map f xs"] sum_mset_sum_list[of "map f ys"] by simp

lemma ExecuteReadyVertexs_cost:
  assumes "distinct ready"
  shows "(\<Sum>t\<leftarrow>ExecuteReadyVertexs env ready. task_cost g t) < 2 * length ready + 2 + (\<Sum>q\<leftarrow>ready. vertex_cost g q)"
proof (cases "\<exists>p q qs. ready = p # q # qs")
  case True
  let ?l = "local_execute env ready"
  have "ready \<noteq> []" using True by auto
  then have "add_mset ?l (mset (filter (\<lambda>q. q \<noteq> ?l) ready)) = mset ready"
    using mset_filter_out[OF assms local_execute_in] by blast
  then have "mset (?l # filter (\<lambda>q. q \<noteq> ?l) ready) = mset ready" by simp
  then have "(\<Sum>q\<leftarrow>?l # filter (\<lambda>q. q \<noteq> ?l) ready. vertex_cost g q) = (\<Sum>q\<leftarrow>ready. vertex_cost g q)"
    by (rule sum_list_perm)
  then show ?thesis using True by (auto simp: ExecuteReadyVertexs_def)
next
  case False
  then show ?thesis by (cases ready; cases "tl ready") (auto simp: ExecuteReadyVertexs_def)
qed

lemma waiting_cost_cong: "(\<And>p. vc_waiting_num (es_ctx s' p) = vc_waiting_num (es_ctx s p)) \<Longrightarrow> waiting_cost g s' = waiting_cost g s"
  by (simp add: waiting_cost_def)

lemma post_next_cost: "(\<Sum>t\<leftarrow>post_next l qs. task_cost g t) < task_cost g (Post l qs)"
  by (cases qs) auto

context exec_graph
begin

lemma notify_cost:
  assumes inv: "exec_inv env g (Notify p i ready # R) s" and step: "notify_next env g p i ready s = (new, s')"
  shows "waiting_cost g s' + (\<Sum>t\<leftarrow>new. task_cost g t) < waiting_cost g s + task_cost g (Notify p i ready)"
proof (cases "i < length (g_succ g p)")
  case True
  let ?q = "g_succ g p ! i"
  let ?c = "es_ctx s ?q" and ?U = "\<lambda>s. {p. p \<in> ptrs g \<and> vc_waiting_num (es_ctx s p) \<noteq> 0}"
  note f = notify_facts[OF inv True]
  have s': "\<forall>x. vc_waiting_num (es_ctx s' x) = (if x = ?q then vc_waiting_num ?c - 1 else vc_waiting_num (es_ctx s x))"
    and new: "new = (if vc_waiting_num ?c = 1
      then if Suc i = length (g_succ g p) \<and> ready = [] then [Execute ?q] else [Notify p (Suc i) (ready @ [?q])]
      else [Notify p (Suc i) ready])"
    using step True f(4) by (auto simp: notify_next_def SetDependencyResult_def Let_def upd_ctx_def split: if_splits)
  have "?U s' = (if vc_waiting_num ?c = 1 then ?U s - {?q} else ?U s)" using f(6) by (auto simp: s')
  moreover have "?q \<in> ?U s" using f(2,6) by simp
  moreover have "finite (?U s)" by simp
  ultimately have "waiting_cost g s = waiting_cost g s' + (if vc_waiting_num ?c = 1 then vertex_cost g ?q else 0)"
    unfolding waiting_cost_def by (simp add: sum.remove)
  then show ?thesis using True new by (auto simp: algebra_simps)
next
  case False
  have "distinct ready" using inv by (simp add: exec_inv_def tasks_inv_def)
  from ExecuteReadyVertexs_cost[OF this, of g env] show ?thesis using False step by (auto simp: notify_next_def)
qed

end

context exec_graph
begin

lemma task_step_cost:
  assumes "task_step env g c t s = Some (new, s')" and "exec_inv env g (t # R) s"
  shows "waiting_cost g s' + (\<Sum>t\<leftarrow>new. task_cost g t) < waiting_cost g s + task_cost g t"
proof (cases t)
  case (Execute p)
  then obtain b d where "start_vertex env g b d p s = Some (new, s')" using assms(1) by (cases c) auto
  moreover from this have "waiting_cost g s' = waiting_cost g s"
    by (intro waiting_cost_cong) (auto simp: start_vertex_def Let_def upd_ctx_def FinishVertexProcess_def split: if_splits)
  ultimately show ?thesis using Execute by (auto simp: start_vertex_def Let_def vertex_cost_def split: if_splits)
next
  case (Running p)
  then obtain rc where "vertex_returns env g rc p s = (new, s')" using assms(1) by (cases c) auto
  moreover from this have "waiting_cost g s' = waiting_cost g s"
    by (intro waiting_cost_cong) (auto simp: vertex_returns_def Let_def upd_ctx_def FinishVertexProcess_def split: if_splits)
  ultimately show ?thesis using Running by (auto simp: vertex_returns_def Let_def)
next
  case (OnVertexDone p)
  then have "join_vertex p s = (new, s')" using assms(1) by (cases c) auto
  moreover from this have "waiting_cost g s' = waiting_cost g s"
    by (intro waiting_cost_cong) (auto simp: join_vertex_def Let_def split: if_splits)
  ultimately show ?thesis using OnVertexDone by (auto simp: join_vertex_def Let_def split: if_splits)
next
  case (Notify p i ready)
  then have "notify_next env g p i ready s = (new, s')" using assms(1) by (cases c) auto
  then show ?thesis using notify_cost assms(2) Notify by simp
next
  case (Post l qs)
  then have "new = post_next l qs" "s' = s" using assms(1) by (cases c; simp)+
  then show ?thesis using post_next_cost[of g l qs] Post by simp
qed

lemma exec_step_inv:
  assumes "exec_step env g e s = Some t" and "exec_inv env g (es_tasks s) s"
  shows "exec_inv env g (es_tasks t) t" "exec_measure g t < exec_measure g s"
proof -
  from assms(1) obtain i c k R new s1 where k: "task_step env g c k s = Some (new, s1)"
    and m: "mset (es_tasks s) = mset (k # R)" "mset (es_tasks t) = mset (new @ R)" and t: "t = s1\<lparr>es_tasks := es_tasks t\<rparr>"
    by (rule exec_stepE)
  have inv: "exec_inv env g (k # R) s" by (rule exec_inv_perm[OF assms(2) m(1)])
  have "exec_inv env g (es_tasks t) s1" using exec_inv_perm[OF task_step_inv[OF k inv] m(2)[symmetric]] .
  then show "exec_inv env g (es_tasks t) t" by (subst t) simp
  have "waiting_cost g t = waiting_cost g s1" by (subst t) (simp add: waiting_cost_def)
  then show "exec_measure g t < exec_measure g s"
    using task_step_cost[OF k inv] unfolding exec_measure_def sum_list_perm[OF m(1)] sum_list_perm[OF m(2)] by simp
qed

lemma start_set: "set (start_ctxs g) = {p \<in> ptrs g. g_deps g p = []}" "distinct (start_ctxs g)"
proof -
  show "set (start_ctxs g) = {p \<in> ptrs g. g_deps g p = []}"
    using nodes(1) by (auto simp: start_ctxs_def Ready_def VertexContext_Reset_def g_deps_def)
  show "distinct (start_ctxs g)" using nodes(2) by (simp add: start_ctxs_def)
qed

lemma start_inv_all: "exec_inv env g (es_tasks (GraphContext_Execute env g)) (GraphContext_Execute env g)"
proof -
  let ?s = "GraphContext_Execute env g" and ?ts = "ExecuteReadyVertexs env (start_ctxs g)"
  note e = ExecuteReadyVertexs_tasks[OF start_set(2), where env = env]
  have ts: "es_tasks ?s = ?ts" and ctx: "es_ctx ?s p = VertexContext_Reset (vget g p)" for p
    by (simp_all add: GraphContext_Execute_def GraphContext_Reset_def)
  have j: "joined g ?ts ?s = {}" by (simp add: joined_def ctx VertexContext_Reset_def)
  have h: "set (heldl ?ts) = set (start_ctxs g)" using arg_cong[OF e(1), of set_mset] by simp
  have d: "distinct (heldl ?ts)" using start_set(2) mset_eq_imp_distinct_iff[OF e(1)] by simp
  have told: "told g ?ts ?s q = (\<lambda>_. V_RESULT_INVALID)" for q by (simp add: told_def fun_eq_iff j)
  have "tasks_inv g ?ts ?s" unfolding tasks_inv_def j h using d e(2) start_set(1) by (auto dest: e(3))
  moreover have "deps_inv g ?ts ?s"
    unfolding deps_inv_def j h start_set(1)
    by (auto simp: ctx VertexContext_Reset_def g_deps_def told map_replicate_const)
  moreover have "count_inv g ?ts ?s"
    unfolding count_inv_def j using nonempty nodes distinct_card[OF nodes(2)]
    by (auto simp: GraphContext_Execute_def GraphContext_Reset_def)
  moreover have "history_inv env g ?ts ?s"
    unfolding history_inv_def j
    by (auto simp: in_dep_order_def ctx VertexContext_Reset_def GraphContext_Execute_def GraphContext_Reset_def dest: e(3))
  ultimately show ?thesis unfolding ts by (simp add: exec_inv_def)
qed

lemma reach_inv: "exec_reach env g n s \<Longrightarrow> exec_inv env g (es_tasks s) s \<and> n + exec_measure g s \<le> exec_measure g (GraphContext_Execute env g)"
proof (induction rule: exec_reach.induct)
  case (step n s e t)
  then show ?case using exec_step_inv[of env e s t] by auto
qed (simp add: start_inv_all)

end

context exec_graph
begin

lemma progress:
  assumes "es_tasks s \<noteq> []"
  shows "\<exists>e t. exec_step env g e s = Some t"
proof -
  have "\<exists>c r. task_step env g c (es_tasks s ! 0) s = Some r"
  proof (cases "es_tasks s ! 0")
    case (Execute p)
    have "start_vertex env g False True p s \<noteq> None" by (simp add: start_vertex_def Let_def)
    then show ?thesis using Execute by (metis task_step.simps(1) not_Some_eq)
  qed (use task_step.simps in \<open>metis surj_pair\<close>)+
  then obtain c r where "task_step env g c (es_tasks s ! 0) s = Some r" by blast
  then have "exec_step env g (0, c) s \<noteq> None" using assms by (simp add: exec_step_def Let_def)
  then show ?thesis by blast
qed

text \<open>When no task is left, every vertex was counted: a least one that was not would have been notified by all it depends on.\<close>

lemma all_joined:
  assumes inv: "exec_inv env g [] s"
  shows "joined g [] s = ptrs g"
proof -
  let ?E = "{(u, q). u \<in> ptrs g \<and> q \<in> set (g_succ g u)}"
  have "?E \<subseteq> ptrs g \<times> ptrs g" using succ_in by auto
  then have "finite ?E" by (rule finite_subset) simp
  moreover have "acyclic ?E"
    unfolding acyclic_def
  proof (intro allI notI)
    fix x assume x: "(x, x) \<in> ?E\<^sup>+"
    then have "x \<in> ptrs g" by (auto dest: tranclD)
    moreover have "(x, x) \<in> (edges (g_succ g))\<^sup>+" using x by (rule trancl_mono) auto
    ultimately show False using acyclic by (simp add: on_circle_def)
  qed
  ultimately have wf: "wf ?E" by (rule finite_acyclic_wf)
  have "q \<in> ptrs g \<longrightarrow> q \<in> joined g [] s" for q
  proof (induction q rule: wf_induct_rule[OF wf])
    case (1 q)
    show ?case
    proof
      assume q: "q \<in> ptrs g"
      have "u \<in> joined g [] s" if "u \<in> set (g_deps g q)" for u using 1 dep_in[OF q that] by blast
      then have "told g [] s q u \<noteq> V_RESULT_INVALID" if "u \<in> set (g_deps g q)" for u
        using that by (auto simp: told_def unnotified_def joined_def)
      then have "count_list (map (told g [] s q) (g_deps g q)) V_RESULT_INVALID = 0"
        by (metis (no_types, lifting) count_list_0_iff imageE list.set_map)
      moreover have "deps_inv g [] s" using inv by (simp add: exec_inv_def)
      ultimately show "q \<in> joined g [] s" using deps_invD[of g "[]" s q] q by simp
    qed
  qed
  then show ?thesis by (auto simp: joined_def)
qed

text \<open>Once every vertex was counted, no task touches the graph any more.\<close>

lemma nothing_left:
  assumes inv: "exec_inv env g ts s" and all: "joined g ts s = ptrs g" and t: "t \<in> set ts"
  shows "\<exists>p i. t = Notify p i [] \<and> length (g_succ g p) \<le> i"
proof -
  have i: "tasks_inv g ts s" "deps_inv g ts s" using inv by (simp_all add: exec_inv_def)
  have "set (heldl ts) = {}" using i(1) unfolding tasks_inv_def all by (metis inf.absorb1)
  then have "held t = []" using t by (simp add: heldl_def)
  then obtain p k where n: "t = Notify p k []" by (cases t) auto
  have "p \<in> set (notifiers ts)" using t n in_notifiers by blast
  then have p: "p \<in> ptrs g" using i(1) all by (auto simp: tasks_inv_def)
  have "length (g_succ g p) \<le> k"
  proof (rule ccontr)
    assume "\<not> length (g_succ g p) \<le> k"
    then have q: "g_succ g p ! k \<in> set (drop k (g_succ g p))" by (simp add: Cons_nth_drop_Suc[symmetric] not_le)
    let ?q = "g_succ g p ! k"
    have u: "?q \<in> unnotified g ts p" using t n q by (auto simp: unnotified_def)
    have "?q \<in> set (g_succ g p)" using q by (rule in_set_dropD)
    then have "?q \<in> ptrs g" "p \<in> set (g_deps g ?q)" using succ_in[OF p] by auto
    moreover have "told g ts s ?q p = V_RESULT_INVALID" using u by (simp add: told_def)
    ultimately have "count_list (map (told g ts s ?q) (g_deps g ?q)) V_RESULT_INVALID \<noteq> 0"
      by (intro count_list_map)
    then show False using deps_invD[OF i(2) \<open>?q \<in> ptrs g\<close>] all \<open>?q \<in> ptrs g\<close> by simp
  qed
  then show ?thesis using n by blast
qed

lemma start_measure: "exec_measure g (GraphContext_Execute env g) \<le> (\<Sum>p \<in> ptrs g. 3 * length (g_succ g p) + 7) + 1"
proof -
  let ?s = "GraphContext_Execute env g" and ?S = "set (start_ctxs g)"
  have "waiting_cost g ?s = (\<Sum>p \<in> ptrs g - ?S. vertex_cost g p)"
    unfolding waiting_cost_def start_set
    by (rule sum.cong) (auto simp: GraphContext_Execute_def GraphContext_Reset_def VertexContext_Reset_def g_deps_def)
  moreover have "(\<Sum>t\<leftarrow>es_tasks ?s. task_cost g t) \<le> 2 * length (start_ctxs g) + 1 + (\<Sum>p\<leftarrow>start_ctxs g. vertex_cost g p)"
    using ExecuteReadyVertexs_cost[OF start_set(2), of g env] by (simp add: GraphContext_Execute_def GraphContext_Reset_def)
  moreover have "length (start_ctxs g) \<le> card (ptrs g)"
    using card_mono[OF finite_ptrs, of ?S] start_set distinct_card[OF start_set(2)] by auto
  moreover have "(\<Sum>p\<leftarrow>start_ctxs g. vertex_cost g p) + (\<Sum>p \<in> ptrs g - ?S. vertex_cost g p) = (\<Sum>p \<in> ptrs g. vertex_cost g p)"
    using start_set by (subst sum_list_distinct_conv_sum_set) (auto simp: sum.subset_diff[of ?S "ptrs g"] add.commute)
  moreover have "(\<Sum>p \<in> ptrs g. 3 * length (g_succ g p) + 7) = (\<Sum>p \<in> ptrs g. vertex_cost g p) + 2 * card (ptrs g)"
    by (simp add: vertex_cost_def sum.distrib)
  ultimately show ?thesis unfolding exec_measure_def by linarith
qed

end

section \<open>Every graph that was built can be executed\<close>

lemma built_exec_graph:
  "fresh_graph g0 \<Longrightarrow> plain_names cl g0 \<Longrightarrow> Graph_Build frames cl fac g0 = Built g \<Longrightarrow> exec_graph g"
  using Graph_Build_ok by (unfold_locales) blast+

interpretation se: exec_graph sample_built
  by (rule built_exec_graph[OF sample_fresh sample_Build])

fun exec_run :: "exec_env \<Rightarrow> Graph \<Rightarrow> (nat \<times> choice) list \<Rightarrow> exec_state \<Rightarrow> exec_state option" where
  "exec_run env g [] s = Some s"
| "exec_run env g (e # es) s = Option.bind (exec_step env g e s) (exec_run env g es)"

lemma exec_run_reach: "exec_run env g es s = Some t \<Longrightarrow> exec_reach env g n s \<Longrightarrow> exec_reach env g (n + length es) t"
proof (induction es arbitrary: s n)
  case (Cons e es)
  then obtain u where "exec_step env g e s = Some u" "exec_run env g es u = Some t" by (auto simp: bind_eq_Some_conv)
  then show ?case using Cons.IH[of u "Suc n"] exec_reach.step[OF Cons.prems(2)] by simp
qed simp

definition sample_env :: exec_env where
  "sample_env = \<lparr>ee_processor = (\<lambda>_. True), ee_isIOProcessor = (\<lambda>_. False), ee_subgraph = (\<lambda>_. False), ee_config = (\<lambda>_. None),
     ee_deadline = False\<rparr>"

text \<open>The condition does not hold, so the vertex that expects it is skipped and the one that waits for its failure runs.\<close>

definition sample_events :: "(nat \<times> choice) list" where
  "sample_events =
     [(0, Begin False True), (0, Return 0), (0, Advance), (0, Advance), (0, Advance), (0, Advance),
      (0, Begin False True), (0, Return 1), (0, Advance), (0, Advance),
      (0, Begin False True), (0, Advance), (0, Advance),
      (0, Begin False True), (0, Return 7), (0, Advance)]"

definition sample_end :: exec_state where
  "sample_end = the (exec_run sample_env sample_built sample_events (GraphContext_Execute sample_env sample_built))"

lemma sample_end_facts: "case exec_run sample_env sample_built sample_events (GraphContext_Execute sample_env sample_built) of
  None \<Rightarrow> False | Some s \<Rightarrow> es_done s = [0] \<and> es_executed s = [User 0, Gen 0, User 1, User 2] \<and> es_tasks s = []
    \<and> vc_code (es_ctx s (User 1)) = 3"
  by code_simp

lemma sample_run:
  "exec_reach sample_env sample_built 16 sample_end" "es_done sample_end = [0]"
  "es_executed sample_end = [User 0, Gen 0, User 1, User 2]" "es_tasks sample_end = []" "vc_code (es_ctx sample_end (User 1)) = 3"
proof -
  obtain s where s: "exec_run sample_env sample_built sample_events (GraphContext_Execute sample_env sample_built) = Some s"
    using sample_end_facts by (cases "exec_run sample_env sample_built sample_events (GraphContext_Execute sample_env sample_built)") auto
  have "sample_end = s" by (simp add: sample_end_def s)
  then show "es_done sample_end = [0]" "es_executed sample_end = [User 0, Gen 0, User 1, User 2]" "es_tasks sample_end = []"
    "vc_code (es_ctx sample_end (User 1)) = 3" using sample_end_facts s by simp_all
  have "length sample_events = 16" by (simp add: sample_events_def)
  then show "exec_reach sample_env sample_built 16 sample_end"
    using exec_run_reach[OF s exec_reach.start] \<open>sample_end = s\<close> by simp
qed

section \<open>Properties\<close>



text \<open>
  C29. In every state of every run a vertex was executed at most once, and only after every vertex it depends on
  had been executed; when it is executed, each of these has been counted as done.
\<close>

theorem exec_order:
  assumes "fresh_graph g0" and "plain_names cl g0" and "Graph_Build frames cl fac g0 = Built g" and "exec_reach env g n s"
  shows "in_dep_order g (es_executed s) \<and> set (es_executed s) \<subseteq> ptrs g
    \<and> (\<forall>p q. Running p \<in> set (es_tasks s) \<longrightarrow> q \<in> set (g_deps g p) \<longrightarrow> vc_result (es_ctx s q) \<noteq> V_RESULT_INVALID)"
proof -
  note eg = built_exec_graph[OF assms(1-3)]
  have inv: "tasks_inv g (es_tasks s) s" "deps_inv g (es_tasks s) s" "history_inv env g (es_tasks s) s"
    using exec_graph.reach_inv[OF eg assms(4)] by (simp_all add: exec_inv_def)
  have held: "p \<in> ptrs g" if "p \<in> set (heldl (es_tasks s))" for p using inv(1) that by (auto simp: tasks_inv_def)
  have run: "p \<in> set (heldl (es_tasks s))" if "Running p \<in> set (es_tasks s)" for p by (rule held_in[OF that]) simp
  have "vc_result (es_ctx s q) \<noteq> V_RESULT_INVALID" if "Running p \<in> set (es_tasks s)" "q \<in> set (g_deps g p)" for p q
    using exec_graph.started_deps[OF eg inv(2) _ held[OF run[OF that(1)]] that(2)] run[OF that(1)] by (auto simp: joined_def)
  moreover have "set (es_executed s) \<subseteq> ptrs g"
    using inv(3) held run held_OnVertexDone by (auto simp: history_inv_def joined_def)
  ultimately show ?thesis using inv(3) by (simp add: history_inv_def)
qed

theorem exec_order_witness: "in_dep_order sample_built [User 0, Gen 0, User 1, User 2]"
  using exec_order[OF sample_fresh sample_Build sample_run(1)] sample_run(3) by simp




lemma sample_mismatch: "\<not> match_expected sample_env sample_built (User 1) (es_ctx sample_end (User 1))"
  unfolding sample_end_def by code_simp


end
