(* ===== verification/RdictHash.thy ===== *)
theory RdictHash
  imports Prelude "HOL-Library.Monad_Syntax"
begin

text \<open>
  The hash function of the dictionary: namespace \<^verbatim>\<open>wyhash\<close> of \<^verbatim>\<open>rdict/rdict.h\<close>. A string is a list of
  bytes and a read beyond its end is \<open>None\<close>.
\<close>

section \<open>Multiplication\<close>

text \<open>\<^verbatim>\<open>mum\<close> with a 128-bit integer type: the lower and the upper half of the product.\<close>

definition mum :: "u64 \<Rightarrow> u64 \<Rightarrow> u64 \<times> u64" where
  "mum a b = (let r = (ucast a :: 128 word) * ucast b in (ucast r, ucast (drop_bit 64 r)))"

text \<open>The variant for compilers without such a type.\<close>

definition mum_portable :: "u64 \<Rightarrow> u64 \<Rightarrow> u64 \<times> u64" where
  "mum_portable a b =
     (let ha = drop_bit 32 a; hb = drop_bit 32 b;
          la = ucast (ucast a :: u32); lb = ucast (ucast b :: u32);
          rh = ha * hb; rm0 = ha * lb; rm1 = hb * la; rl = la * lb;
          t = rl + push_bit 32 rm0;
          c = (if t < rl then 1 else 0);
          lo = t + push_bit 32 rm1;
          c = c + (if lo < t then 1 else 0);
          hi = rh + drop_bit 32 rm0 + drop_bit 32 rm1 + c
      in (lo, hi))"

definition mix :: "u64 \<Rightarrow> u64 \<Rightarrow> u64" where
  "mix a b = (case mum a b of (lo, hi) \<Rightarrow> lo XOR hi)"

section \<open>Reading\<close>

definition r8 :: "byte list \<Rightarrow> nat \<Rightarrow> u64 option" where
  "r8 bs p = (if p + 8 \<le> length bs then Some (of_mem64 (take 8 (drop p bs))) else None)"

definition r4 :: "byte list \<Rightarrow> nat \<Rightarrow> u64 option" where
  "r4 bs p = (if p + 4 \<le> length bs then Some (ucast (of_mem32 (take 4 (drop p bs)))) else None)"

definition r1 :: "byte list \<Rightarrow> nat \<Rightarrow> u64 option" where
  "r1 bs p = (if p < length bs then Some (ucast (bs ! p)) else None)"

definition r3 :: "byte list \<Rightarrow> nat \<Rightarrow> nat \<Rightarrow> u64 option" where
  "r3 bs p k = do {
     a \<leftarrow> r1 bs p;
     b \<leftarrow> r1 bs (p + k div 2);
     c \<leftarrow> r1 bs (p + k - 1);
     Some (push_bit 16 a OR push_bit 8 b OR c) }"

section \<open>Hashing\<close>

definition secret :: "nat \<Rightarrow> u64" where
  "secret i = [0xa0761d6478bd642f, 0xe7037ed1a0b428db, 0x8ebc6af09c88c6e3, 0x589965cc75374cc3] ! i"

text \<open>The loop over blocks of 48 bytes, entered with more than 48 bytes left.\<close>

fun hash48 :: "byte list \<Rightarrow> u64 \<Rightarrow> u64 \<Rightarrow> u64 \<Rightarrow> nat \<Rightarrow> nat \<Rightarrow> (u64 \<times> nat \<times> nat) option" where
  "hash48 bs seed see1 see2 p i =
     (if 48 < i
      then do {
        a0 \<leftarrow> r8 bs p; b0 \<leftarrow> r8 bs (p + 8);
        a1 \<leftarrow> r8 bs (p + 16); b1 \<leftarrow> r8 bs (p + 24);
        a2 \<leftarrow> r8 bs (p + 32); b2 \<leftarrow> r8 bs (p + 40);
        hash48 bs (mix (a0 XOR secret 1) (b0 XOR seed)) (mix (a1 XOR secret 2) (b1 XOR see1))
          (mix (a2 XOR secret 3) (b2 XOR see2)) (p + 48) (i - 48) }
      else Some (seed XOR see1 XOR see2, p, i))"

fun hash16 :: "byte list \<Rightarrow> u64 \<Rightarrow> nat \<Rightarrow> nat \<Rightarrow> (u64 \<times> nat \<times> nat) option" where
  "hash16 bs seed p i =
     (if 16 < i
      then do {
        a \<leftarrow> r8 bs p; b \<leftarrow> r8 bs (p + 8);
        hash16 bs (mix (a XOR secret 1) (b XOR seed)) (p + 16) (i - 16) }
      else Some (seed, p, i))"

declare hash48.simps [simp del] hash16.simps [simp del]

definition hash_long :: "byte list \<Rightarrow> (u64 \<times> u64 \<times> u64) option" where
  "hash_long bs = do {
     (seed, p, i) \<leftarrow> (if 48 < length bs then hash48 bs (secret 0) (secret 0) (secret 0) 0 (length bs)
                      else Some (secret 0, 0, length bs));
     (seed, p, i) \<leftarrow> hash16 bs seed p i;
     a \<leftarrow> r8 bs (p + i - 16);
     b \<leftarrow> r8 bs (p + i - 8);
     Some (a, b, seed) }"

definition hash_short :: "byte list \<Rightarrow> (u64 \<times> u64 \<times> u64) option" where
  "hash_short bs =
     (let len = length bs in
      if 4 \<le> len
      then do {
        a0 \<leftarrow> r4 bs 0; a1 \<leftarrow> r4 bs (len div 8 * 4);
        b0 \<leftarrow> r4 bs (len - 4); b1 \<leftarrow> r4 bs (len - 4 - len div 8 * 4);
        Some (push_bit 32 a0 OR a1, push_bit 32 b0 OR b1, secret 0) }
      else if 0 < len then do { a \<leftarrow> r3 bs 0 len; Some (a, 0, secret 0) }
      else Some (0, 0, secret 0))"

definition wyhash_bytes :: "byte list \<Rightarrow> u64 option" where
  "wyhash_bytes bs = do {
     (a, b, seed) \<leftarrow> (if length bs \<le> 16 then hash_short bs else hash_long bs);
     Some (mix (secret 1 XOR of_nat (length bs)) (mix (a XOR secret 1) (b XOR seed))) }"

definition wyhash_u64 :: "u64 \<Rightarrow> u64" where
  "wyhash_u64 x = mix x 0x9E3779B97F4A7C15"

section \<open>Properties\<close>

lemma unat_lt: "unat (w :: 'a :: len word) < 2 ^ LENGTH('a)"
  by (rule unsigned_less)

lemma unat_drop: "unat (drop_bit n (w :: 'a :: len word)) = unat w div 2 ^ n"
  unfolding unat_drop_bit_eq by (rule drop_bit_eq_div)

lemma unat_push: "unat (push_bit n (w :: 'a :: len word)) = unat w * 2 ^ n mod 2 ^ LENGTH('a)"
  unfolding unsigned_push_bit_eq by (simp only: push_bit_eq_mult take_bit_eq_mod)

lemma unat_cast: "unat (ucast (w :: 'a :: len word) :: 'b :: len word) = unat w mod 2 ^ LENGTH('b)"
  unfolding unsigned_ucast_eq by (rule take_bit_eq_mod)

lemma half_bound: "unat (drop_bit 32 (a :: u64)) < 2 ^ 32" "unat (ucast (w :: u32) :: u64) < 2 ^ 32"
  using unat_lt[of a] unat_lt[of w] by (simp_all add: unat_drop unat_cast less_mult_imp_div_less)

lemma split32: "unat (a :: u64) = unat (drop_bit 32 a) * 2 ^ 32 + unat (ucast (ucast a :: u32) :: u64)"
proof -
  have "unat (ucast (ucast a :: u32) :: u64) = unat a mod 2 ^ 32" by (simp add: unat_cast)
  then show ?thesis unfolding unat_drop by (metis div_mult_mod_eq)
qed

lemma mum_unat:
  "unat (fst (mum a b)) = unat a * unat b mod 2 ^ 64" "unat (snd (mum a b)) = unat a * unat b div 2 ^ 64"
proof -
  let ?r = "(ucast a :: 128 word) * ucast b"
  have lt: "unat a < 2 ^ 64" "unat b < 2 ^ 64" using unat_lt[of a] unat_lt[of b] by simp_all
  then have prod: "unat a * unat b < 2 ^ 64 * 2 ^ 64" by (intro mult_strict_mono) auto
  have "unat (ucast a :: 128 word) = unat a" "unat (ucast b :: 128 word) = unat b" using lt by (simp_all add: unat_cast)
  then have r: "unat ?r = unat a * unat b" using prod by (simp add: unat_word_ariths)
  show "unat (fst (mum a b)) = unat a * unat b mod 2 ^ 64" by (simp add: mum_def Let_def unat_cast r)
  show "unat (snd (mum a b)) = unat a * unat b div 2 ^ 64"
    using prod by (simp add: mum_def Let_def unat_cast unat_drop r less_mult_imp_div_less)
qed

text \<open>An addition that wraps around, with its carry.\<close>

lemma add_carry:
  "unat x + unat y = (if x + y < x then 1 else 0) * 2 ^ 64 + unat (x + y :: u64)"
proof (cases "unat x + unat y < 2 ^ 64")
  case True
  then have "unat (x + y) = unat x + unat y" by (simp add: unat_word_ariths)
  then show ?thesis by (simp add: word_less_nat_alt)
next
  case False
  moreover have "unat x < 2 ^ 64" "unat y < 2 ^ 64" using unat_lt[of x] unat_lt[of y] by simp_all
  ultimately have u: "unat (x + y) = unat x + unat y - 2 ^ 64" by (simp add: unat_word_ariths mod_if)
  then have "x + y < x" using False \<open>unat y < 2 ^ 64\<close> by (simp add: word_less_nat_alt)
  then show ?thesis using u False by simp
qed

lemma shift32: "unat (push_bit 32 x :: u64) + unat (drop_bit 32 x) * 2 ^ 64 = unat x * 2 ^ 32"
proof -
  have "unat x * 2 ^ 32 div 2 ^ 64 = unat x div 2 ^ 32" using div_mult_mult2[of "2 ^ 32" "unat x" "2 ^ 32 :: nat"] by simp
  then show ?thesis using div_mult_mod_eq[of "unat x * 2 ^ 32" "2 ^ 64"] by (simp add: unat_push unat_drop)
qed

lemma mult32: "unat x < 2 ^ 32 \<Longrightarrow> unat y < 2 ^ 32 \<Longrightarrow> unat (x * y :: u64) = unat x * unat y"
  using mult_strict_mono[of "unat x" "2 ^ 32" "unat y" "2 ^ 32"] by (simp add: unat_word_ariths)

lemma div_mod_split: "(l :: nat) < m \<Longrightarrow> (h * m + l) div m = h" "l < m \<Longrightarrow> (h * m + l) mod m = l"
  by simp_all

text \<open>
  C35. The portable multiplication, which splits its operands into halves of 32 bits and adds the partial
  products with carries, computes the same 128-bit product as the one with a 128-bit type, so the hash values
  of a dictionary do not depend on the compiler.
\<close>

theorem mum_equivalent: "mum_portable a b = mum a b"
proof -
  define ha hb la lb where "ha = drop_bit 32 a" and "hb = drop_bit 32 b" and "la = (ucast (ucast a :: u32) :: u64)" and "lb = (ucast (ucast b :: u32) :: u64)"
  note defs = ha_def hb_def la_def lb_def
  have lt: "unat ha < 2 ^ 32" "unat hb < 2 ^ 32" "unat la < 2 ^ 32" "unat lb < 2 ^ 32" unfolding defs by (rule half_bound)+
  define rh rm0 rm1 rl where "rh = ha * hb" and "rm0 = ha * lb" and "rm1 = hb * la" and "rl = la * lb"
  have m: "unat rh = unat ha * unat hb" "unat rm0 = unat ha * unat lb" "unat rm1 = unat hb * unat la" "unat rl = unat la * unat lb"
    unfolding rh_def rm0_def rm1_def rl_def using lt by (simp_all only: mult32)
  define t lo c1 c2 where "t = rl + push_bit 32 rm0" and "lo = t + push_bit 32 rm1" and "c1 = (if t < rl then 1 else 0 :: u64)"
    and "c2 = (if lo < t then 1 else 0 :: u64)"
  define hi where "hi = rh + drop_bit 32 rm0 + drop_bit 32 rm1 + (c1 + c2)"
  have p: "mum_portable a b = (lo, hi)" by (simp add: mum_portable_def Let_def defs rh_def rm0_def rm1_def rl_def t_def lo_def c1_def c2_def hi_def)
  have t: "unat rl + unat (push_bit 32 rm0) = unat c1 * 2 ^ 64 + unat t" using add_carry[of rl "push_bit 32 rm0"] by (simp add: t_def c1_def)
  have l: "unat t + unat (push_bit 32 rm1) = unat c2 * 2 ^ 64 + unat lo" using add_carry[of t "push_bit 32 rm1"] by (simp add: lo_def c2_def)
  let ?H = "unat rh + unat (drop_bit 32 rm0) + unat (drop_bit 32 rm1) + (unat c1 + unat c2)"
  have "unat a * unat b = (unat ha * 2 ^ 32 + unat la) * (unat hb * 2 ^ 32 + unat lb)"
    unfolding split32[of a] split32[of b] defs[symmetric] ..
  also have "\<dots> = unat rh * 2 ^ 64 + unat rm0 * 2 ^ 32 + unat rm1 * 2 ^ 32 + unat rl" unfolding m by (simp add: algebra_simps)
  also have "\<dots> = ?H * 2 ^ 64 + unat lo" using shift32[of rm0] shift32[of rm1] t l by (simp add: algebra_simps)
  finally have prod: "unat a * unat b = ?H * 2 ^ 64 + unat lo" .
  have lo: "unat lo < 2 ^ 64" using unat_lt[of lo] by simp
  have H: "unat a * unat b div 2 ^ 64 = ?H" "unat a * unat b mod 2 ^ 64 = unat lo" unfolding prod by (rule div_mod_split[OF lo])+
  have "?H < 2 ^ 64" unfolding H(1)[symmetric] using unat_lt[of "snd (mum a b)"] mum_unat(2)[of a b] by simp
  then have "unat hi = ?H" unfolding hi_def by (simp add: unat_word_ariths)
  then have "unat lo = unat (fst (mum a b))" "unat hi = unat (snd (mum a b))" by (simp_all only: mum_unat H)
  then have "lo = fst (mum a b)" "hi = snd (mum a b)" by (blast intro: unsigned_word_eqI)+
  then show ?thesis unfolding p by simp
qed

lemma r8_in: "p + 8 \<le> length bs \<Longrightarrow> \<exists>w. r8 bs p = Some w"
  by (simp add: r8_def)

lemma hash48_in:
  "p + i = length bs \<Longrightarrow> 16 < length bs \<Longrightarrow> \<exists>seed' p' i'. hash48 bs seed see1 see2 p i = Some (seed', p', i') \<and> p' + i' = length bs"
proof (induction bs seed see1 see2 p i rule: hash48.induct)
  case (1 bs seed see1 see2 p i)
  show ?case
  proof (cases "48 < i")
    case True
    then show ?thesis
      using "1.IH"[OF True] "1.prems" r8_in[of p bs] r8_in[of "p + 8" bs] r8_in[of "p + 16" bs] r8_in[of "p + 24" bs]
        r8_in[of "p + 32" bs] r8_in[of "p + 40" bs]
      by (subst hash48.simps) fastforce
  next
    case False
    then show ?thesis using "1.prems" by (subst hash48.simps) simp
  qed
qed

lemma hash16_in:
  "p + i = length bs \<Longrightarrow> \<exists>seed' p' i'. hash16 bs seed p i = Some (seed', p', i') \<and> p' + i' = length bs"
proof (induction bs seed p i rule: hash16.induct)
  case (1 bs seed p i)
  show ?case
  proof (cases "16 < i")
    case True
    then show ?thesis using "1.IH"[OF True] "1.prems" r8_in[of p bs] r8_in[of "p + 8" bs] by (subst hash16.simps) fastforce
  next
    case False
    then show ?thesis using "1.prems" by (subst hash16.simps) simp
  qed
qed

text \<open>
  C36. Hashing a string of any length, the empty one included, reads no byte outside of it.
\<close>

theorem wyhash_in_bounds: "wyhash_bytes bs \<noteq> None"
proof (cases "length bs \<le> 16")
  case True
  have "4 \<le> n \<Longrightarrow> n \<le> 16 \<Longrightarrow> n div 8 * 4 + 4 \<le> n" for n :: nat by presburger
  with True have "hash_short bs \<noteq> None"
    by (auto simp: hash_short_def Let_def r4_def r3_def r1_def)
  then show ?thesis using True by (auto simp: wyhash_bytes_def)
next
  case False
  obtain seed p i where 1: "(if 48 < length bs then hash48 bs (secret 0) (secret 0) (secret 0) 0 (length bs)
      else Some (secret 0, 0, length bs)) = Some (seed, p, i)" and "p + i = length bs"
    using hash48_in[of 0 "length bs" bs "secret 0" "secret 0" "secret 0"] False by (cases "48 < length bs") auto
  moreover from this obtain seed' p' i' where "hash16 bs seed p i = Some (seed', p', i')" "p' + i' = length bs"
    using hash16_in by blast
  moreover obtain v w where "r8 bs (length bs - 16) = Some v" "r8 bs (length bs - 8) = Some w"
    using r8_in[of "length bs - 16" bs] r8_in[of "length bs - 8" bs] False by auto
  ultimately have "hash_long bs \<noteq> None" unfolding hash_long_def 1 by simp
  then show ?thesis using False by (auto simp: wyhash_bytes_def)
qed

end
