(* ===== verification/RdictTable.thy ===== *)
theory RdictTable
  imports RdictHash "HOL-Library.Multiset"
begin

text \<open>
  The table of the dictionary: a Robin Hood hash table with linear probing, \<^verbatim>\<open>Bucket\<close> and the search and
  placement loops of \<^verbatim>\<open>ReadonlyDict\<close> in \<^verbatim>\<open>rdict/rdict.h\<close>. A bucket holds an entry, either the key and
  the value themselves or the place of both in a data file, and \<open>key\<close> reads the key of an entry. A loop
  gets the number of iterations it may take; \<open>None\<close> as its result means that these do not suffice.
\<close>

section \<open>Definitions\<close>

record 'e Bucket =
  b_entry :: 'e
  b_df :: u32  \<comment> \<open>\<^verbatim>\<open>dist_and_fingerprint\<close>; 0 in an empty bucket\<close>

definition k_dist_inc :: u32 where
  "k_dist_inc = 256"

definition k_fingerprint_mask :: u32 where
  "k_fingerprint_mask = k_dist_inc - 1"

definition dist_and_fingerprint_from_hash :: "u64 \<Rightarrow> u32" where
  "dist_and_fingerprint_from_hash h = k_dist_inc OR (ucast h AND k_fingerprint_mask)"

definition bucket_idx_from_hash :: "nat \<Rightarrow> u64 \<Rightarrow> nat" where
  "bucket_idx_from_hash shifts h = unat (drop_bit shifts h)"

definition dist_inc :: "u32 \<Rightarrow> u32" where
  "dist_inc x = x + k_dist_inc"

definition next_idx :: "nat \<Rightarrow> nat \<Rightarrow> nat" where
  "next_idx num_buckets i = (if i + 1 = num_buckets then 0 else i + 1)"

text \<open>The search of \<^verbatim>\<open>Get\<close>, \<^verbatim>\<open>Exists\<close> and \<^verbatim>\<open>Put\<close>.\<close>

datatype search = Found nat | Missing nat u32

primrec search_loop :: "nat \<Rightarrow> ('e \<Rightarrow> 'k) \<Rightarrow> 'e Bucket list \<Rightarrow> 'k \<Rightarrow> u32 \<Rightarrow> nat \<Rightarrow> search option" where
  "search_loop 0 key bs k df i = None"
| "search_loop (Suc fuel) key bs k df i =
     (if df \<le> b_df (bs ! i)
      then if df = b_df (bs ! i) \<and> k = key (b_entry (bs ! i)) then Some (Found i)
           else search_loop fuel key bs k (dist_inc df) (next_idx (length bs) i)
      else Some (Missing i df))"

primrec less_loop :: "nat \<Rightarrow> 'e Bucket list \<Rightarrow> u32 \<Rightarrow> nat \<Rightarrow> (nat \<times> u32) option" where
  "less_loop 0 bs df i = None"
| "less_loop (Suc fuel) bs df i =
     (if df < b_df (bs ! i) then less_loop fuel bs (dist_inc df) (next_idx (length bs) i) else Some (i, df))"

text \<open>The result is a pair of a 32-bit and a 64-bit integer, so the place loses its upper half.\<close>

definition next_while_less :: "nat \<Rightarrow> nat \<Rightarrow> 'e Bucket list \<Rightarrow> u64 \<Rightarrow> (nat \<times> u32) option" where
  "next_while_less fuel shifts bs h =
     map_option (\<lambda>(i, df). (i mod 2 ^ 32, df))
       (less_loop fuel bs (dist_and_fingerprint_from_hash h) (bucket_idx_from_hash shifts h))"

primrec place_and_shift_up :: "nat \<Rightarrow> 'e Bucket \<Rightarrow> nat \<Rightarrow> 'e Bucket list \<Rightarrow> 'e Bucket list option" where
  "place_and_shift_up 0 b place bs = None"
| "place_and_shift_up (Suc fuel) b place bs =
     (if b_df (bs ! place) \<noteq> 0
      then let old = bs ! place
           in place_and_shift_up fuel (old\<lparr>b_df := dist_inc (b_df old)\<rparr>) (next_idx (length bs) place) (bs[place := b])
      else Some (bs[place := b]))"

section \<open>Distances\<close>

definition fingerprint :: "u64 \<Rightarrow> nat" where
  "fingerprint h = unat h mod 256"

lemma df_from_hash: "unat (dist_and_fingerprint_from_hash h) = 256 + fingerprint h"
proof -
  have f: "ucast h AND k_fingerprint_mask = (take_bit 8 (ucast h) :: u32)"
    by (simp add: k_fingerprint_mask_def k_dist_inc_def take_bit_eq_mask mask_eq_exp_minus_1)
  have m: "unat (take_bit 8 (ucast h) :: u32) = fingerprint h"
    unfolding fingerprint_def unsigned_take_bit_eq unat_cast by (simp add: take_bit_eq_mod mod_mod_cancel)
  have "(256 :: u32) OR take_bit 8 (ucast h) = 256 + take_bit 8 (ucast h)"
  proof (rule disjunctive_add[symmetric])
    fix n
    have "bit (256 :: u32) n \<longleftrightarrow> n = 8" using bit_exp_iff[of 8 n, where ?'a = u32] by (auto simp: bit_iff_odd)
    then show "\<not> bit (256 :: u32) n \<or> \<not> bit (take_bit 8 (ucast h :: u32)) n" by (auto simp: bit_take_bit_iff)
  qed
  moreover have "unat (256 + take_bit 8 (ucast h) :: u32) = 256 + fingerprint h"
    unfolding unat_word_ariths m by (simp add: fingerprint_def)
  ultimately show ?thesis by (simp add: dist_and_fingerprint_from_hash_def f k_dist_inc_def)
qed

text \<open>How far a place is from where a search starts, and the place at a distance.\<close>

definition dist :: "nat \<Rightarrow> nat \<Rightarrow> nat \<Rightarrow> nat" where
  "dist n h i = (i + n - h) mod n"

definition pos :: "nat \<Rightarrow> nat \<Rightarrow> nat \<Rightarrow> nat" where
  "pos n h t = (h + t) mod n"

lemma pos_lt [simp]: "0 < n \<Longrightarrow> pos n h t < n"
  by (simp add: pos_def)

lemma pos_lt' [simp]: "h < n \<Longrightarrow> pos n h t < n"
  by (simp add: pos_def)

lemma pos_0 [simp]: "h < n \<Longrightarrow> pos n h 0 = h"
  by (simp add: pos_def)

lemma dist_lt [simp]: "0 < n \<Longrightarrow> dist n h i < n"
  by (simp add: dist_def)

lemma dist_lt' [simp]: "i < n \<Longrightarrow> dist n h i < n"
  by (simp add: dist_def)

lemma pos_dist [simp]: "h < n \<Longrightarrow> i < n \<Longrightarrow> pos n h (dist n h i) = i"
  by (simp add: pos_def dist_def mod_add_right_eq)

lemma dist_pos [simp]: "h < n \<Longrightarrow> t < n \<Longrightarrow> dist n h (pos n h t) = t"
  by (auto simp: pos_def dist_def mod_if split: if_splits)

lemma next_pos: "h < n \<Longrightarrow> next_idx n (pos n h t) = pos n h (Suc t)"
  by (auto simp: next_idx_def pos_def mod_Suc)

lemma pos_next: "q < n \<Longrightarrow> pos n (next_idx n q) m = pos n q (Suc m)"
proof (cases "q + 1 = n")
  case True
  then have "q + Suc m = n + m" by simp
  then have "(q + Suc m) mod n = m mod n" by (simp only: mod_add_self1)
  then show ?thesis using True by (simp add: pos_def next_idx_def del: add_Suc_right)
qed (simp add: pos_def next_idx_def)

lemma next_lt [simp]: "i < n \<Longrightarrow> next_idx n i < n"
  by (auto simp: next_idx_def)

lemma dist_next:
  assumes "h < n" and "i < n" and "dist n h i + 1 < n"
  shows "dist n h (next_idx n i) = dist n h i + 1"
proof -
  have "next_idx n i = pos n h (Suc (dist n h i))" using next_pos[OF assms(1), of "dist n h i"] assms by simp
  then show ?thesis using assms by simp
qed

lemma next_inj: "i < n \<Longrightarrow> j < n \<Longrightarrow> next_idx n i = next_idx n j \<longleftrightarrow> i = j"
  by (auto simp: next_idx_def split: if_splits)

lemma next_neq: "i < n \<Longrightarrow> 1 < n \<Longrightarrow> next_idx n i \<noteq> i"
  by (auto simp: next_idx_def)

section \<open>The invariant\<close>

text \<open>Every entry knows its distance, and no entry is more than one step farther from its start than the entry before it.\<close>

definition bucket_ok :: "nat \<Rightarrow> ('e \<Rightarrow> u64) \<Rightarrow> nat \<Rightarrow> nat \<Rightarrow> 'e Bucket \<Rightarrow> bool" where
  "bucket_ok sh H n i b \<longleftrightarrow>
     unat (b_df b) = 256 * (dist n (bucket_idx_from_hash sh (H (b_entry b))) i + 1) + fingerprint (H (b_entry b))"

definition in_order :: "'e Bucket list \<Rightarrow> bool" where
  "in_order bs \<longleftrightarrow> (\<forall>i < length bs. 512 \<le> unat (b_df (bs ! next_idx (length bs) i)) \<longrightarrow>
     unat (b_df (bs ! next_idx (length bs) i)) \<le> unat (b_df (bs ! i)) + 256)"

definition shifts_ok :: "nat \<Rightarrow> nat \<Rightarrow> bool" where
  "shifts_ok sh n \<longleftrightarrow> 41 \<le> sh \<and> sh \<le> 62 \<and> n = 2 ^ (64 - sh)"

definition table_wf :: "nat \<Rightarrow> ('e \<Rightarrow> u64) \<Rightarrow> 'e Bucket list \<Rightarrow> bool" where
  "table_wf sh H bs \<longleftrightarrow> shifts_ok sh (length bs) \<and> in_order bs
     \<and> (\<forall>i < length bs. b_df (bs ! i) \<noteq> 0 \<longrightarrow> bucket_ok sh H (length bs) i (bs ! i))"

definition entries :: "'e Bucket list \<Rightarrow> 'e list" where
  "entries bs = map b_entry (filter (\<lambda>b. b_df b \<noteq> 0) bs)"

lemma shifts_bound:
  assumes "shifts_ok sh n"
  shows "4 \<le> n" "n \<le> 2 ^ 23" "bucket_idx_from_hash sh h < n"
proof -
  have sh: "41 \<le> sh" "sh \<le> 62" "n = 2 ^ (64 - sh)" using assms by (simp_all add: shifts_ok_def)
  show "4 \<le> n" using power_increasing[of 2 "64 - sh" "2 :: nat"] sh by simp
  show "n \<le> 2 ^ 23" using power_increasing[of "64 - sh" 23 "2 :: nat"] sh by simp
  have "unat h < 2 ^ (64 - sh) * 2 ^ sh" using unat_lt[of h] sh by (simp flip: power_add)
  then show "bucket_idx_from_hash sh h < n" unfolding bucket_idx_from_hash_def unat_drop sh(3) by (rule less_mult_imp_div_less)
qed

lemma dist_inc_unat: "unat x + 256 < 2 ^ 32 \<Longrightarrow> unat (dist_inc x) = unat x + 256"
  by (simp add: dist_inc_def k_dist_inc_def unat_word_ariths)

lemma fingerprint_lt: "fingerprint h < 256"
  by (simp add: fingerprint_def)

lemma unat_inj: "unat x = unat y \<longleftrightarrow> x = y"
  by (blast intro: unsigned_word_eqI)

lemma df_0_iff: "b_df b = 0 \<longleftrightarrow> unat (b_df b) = 0"
  by (simp add: unat_eq_0)

lemma in_orderD:
  "in_order bs \<Longrightarrow> i < length bs \<Longrightarrow> 512 \<le> unat (b_df (bs ! next_idx (length bs) i)) \<Longrightarrow>
   unat (b_df (bs ! next_idx (length bs) i)) \<le> unat (b_df (bs ! i)) + 256"
  by (simp add: in_order_def)

text \<open>Everything between the start of an entry and the entry is taken, by entries at least as far from their start.\<close>

lemma before_entry:
  assumes wf: "table_wf sh H bs" and i: "i < length bs" "b_df (bs ! i) \<noteq> 0"
    and h: "h = bucket_idx_from_hash sh (H (b_entry (bs ! i)))" and t: "t \<le> dist (length bs) h i"
  shows "256 * (t + 1) + fingerprint (H (b_entry (bs ! i))) \<le> unat (b_df (bs ! pos (length bs) h t))"
  using t
proof (induction "dist (length bs) h i - t" arbitrary: t)
  case 0
  have "h < length bs" using shifts_bound(3) wf h by (auto simp: table_wf_def)
  moreover have "t = dist (length bs) h i" using 0 by simp
  ultimately show ?case using wf i h by (simp add: table_wf_def bucket_ok_def)
next
  case (Suc d)
  let ?n = "length bs" and ?f = "fingerprint (H (b_entry (bs ! i)))"
  have hn: "h < ?n" using shifts_bound(3) wf h by (auto simp: table_wf_def)
  have IH: "256 * (Suc t + 1) + ?f \<le> unat (b_df (bs ! pos ?n h (Suc t)))" using Suc by (intro Suc.hyps(1)) auto
  have "unat (b_df (bs ! next_idx ?n (pos ?n h t))) \<le> unat (b_df (bs ! pos ?n h t)) + 256"
    using wf IH hn by (intro in_orderD) (auto simp: table_wf_def next_pos)
  then show ?case using IH by (simp add: next_pos[OF hn])
qed

lemma df_arith: "x = 256 * (d + 1) + f \<Longrightarrow> d < n \<Longrightarrow> f < 256 \<Longrightarrow> x \<le> 256 * n + (255 :: nat)"
  using mult_le_mono2[of "d + 1" n 256] by simp

lemma df_bound:
  assumes "table_wf sh H bs" and "i < length bs"
  shows "unat (b_df (bs ! i)) \<le> 256 * length bs + 255"
proof (cases "b_df (bs ! i) = 0")
  case False
  let ?d = "dist (length bs) (bucket_idx_from_hash sh (H (b_entry (bs ! i)))) i"
  have "unat (b_df (bs ! i)) = 256 * (?d + 1) + fingerprint (H (b_entry (bs ! i)))"
    using assms False by (simp add: table_wf_def bucket_ok_def)
  moreover have "?d < length bs" using assms by simp
  ultimately show ?thesis using df_arith[OF _ _ fingerprint_lt] by blast
qed simp

section \<open>Searching\<close>

text \<open>The state of a search after \<open>t\<close> steps.\<close>

definition search_at :: "nat \<Rightarrow> 'e Bucket list \<Rightarrow> u64 \<Rightarrow> nat \<Rightarrow> u32 \<Rightarrow> nat \<Rightarrow> bool" where
  "search_at sh bs h t df i \<longleftrightarrow>
     unat df = 256 * (t + 1) + fingerprint h \<and> i = pos (length bs) (bucket_idx_from_hash sh h) t"

lemma search_at_0: "shifts_ok sh (length bs) \<Longrightarrow> search_at sh bs h 0 (dist_and_fingerprint_from_hash h) (bucket_idx_from_hash sh h)"
  using shifts_bound(3)[of sh "length bs" h] by (simp add: search_at_def df_from_hash)

lemma search_at_Suc:
  assumes "search_at sh bs h t df i" and "shifts_ok sh (length bs)" and "t \<le> length bs"
  shows "search_at sh bs h (Suc t) (dist_inc df) (next_idx (length bs) i)"
proof -
  have "unat df + 256 < 2 ^ 32" using assms shifts_bound(2)[OF assms(2)] fingerprint_lt[of h] by (simp add: search_at_def)
  then show ?thesis using assms next_pos[OF shifts_bound(3)[OF assms(2)]] by (simp add: search_at_def dist_inc_unat)
qed

text \<open>No search gets past the length of the table.\<close>

lemma search_ends:
  assumes "table_wf sh H bs" and "search_at sh bs h (length bs) df i"
  shows "unat (b_df (bs ! i)) < unat df"
proof -
  have "4 \<le> length bs" using assms(1) shifts_bound(1) by (auto simp: table_wf_def)
  then have "i < length bs" using assms(2) by (auto simp: search_at_def intro!: pos_lt)
  then show ?thesis using df_bound[OF assms(1), of i] assms(2) by (simp add: search_at_def)
qed

text \<open>What a search finds: an entry with the key, or the first place whose entry is nearer to its start.\<close>

definition open_place :: "nat \<Rightarrow> 'e Bucket list \<Rightarrow> u64 \<Rightarrow> nat \<Rightarrow> u32 \<Rightarrow> nat \<Rightarrow> bool" where
  "open_place sh bs h t df i \<longleftrightarrow> search_at sh bs h t df i \<and> t \<le> length bs \<and> unat (b_df (bs ! i)) \<le> unat df
     \<and> (\<forall>s < t. 256 * (s + 1) + fingerprint h \<le> unat (b_df (bs ! pos (length bs) (bucket_idx_from_hash sh h) s)))"

definition matches :: "nat \<Rightarrow> 'e Bucket list \<Rightarrow> u64 \<Rightarrow> ('e \<Rightarrow> 'k) \<Rightarrow> 'k \<Rightarrow> nat \<Rightarrow> bool" where
  "matches sh bs h key k s \<longleftrightarrow> (let b = bs ! pos (length bs) (bucket_idx_from_hash sh h) s in
     unat (b_df b) = 256 * (s + 1) + fingerprint h \<and> key (b_entry b) = k)"

definition search_ok :: "nat \<Rightarrow> 'e Bucket list \<Rightarrow> u64 \<Rightarrow> ('e \<Rightarrow> 'k) \<Rightarrow> 'k \<Rightarrow> nat \<Rightarrow> search \<Rightarrow> bool" where
  "search_ok sh bs h key k t r \<longleftrightarrow>
     (case r of
        Found j \<Rightarrow> j < length bs \<and> b_df (bs ! j) \<noteq> 0 \<and> key (b_entry (bs ! j)) = k
      | Missing j df \<Rightarrow> \<exists>t'. open_place sh bs h t' df j \<and> unat (b_df (bs ! j)) < unat df
          \<and> (\<forall>s. t \<le> s \<and> s < t' \<longrightarrow> \<not> matches sh bs h key k s))"

lemma search_ok_Suc: "search_ok sh bs h key k (Suc t) r \<Longrightarrow> \<not> matches sh bs h key k t \<Longrightarrow> search_ok sh bs h key k t r"
  by (cases r) (auto simp: search_ok_def Suc_le_eq nat_less_le)

lemma search_loop_result:
  assumes wf: "table_wf sh H bs"
  shows "search_at sh bs h t df i \<Longrightarrow> t \<le> length bs \<Longrightarrow> length bs - t < fuel \<Longrightarrow>
    (\<forall>s < t. 256 * (s + 1) + fingerprint h \<le> unat (b_df (bs ! pos (length bs) (bucket_idx_from_hash sh h) s))) \<Longrightarrow>
    \<exists>r. search_loop fuel key bs k df i = Some r \<and> search_ok sh bs h key k t r"
proof (induction fuel arbitrary: t df i)
  case (Suc fuel)
  let ?n = "length bs" and ?h = "bucket_idx_from_hash sh h"
  have ok: "shifts_ok sh ?n" using wf by (simp add: table_wf_def)
  have i: "i = pos ?n ?h t" "unat df = 256 * (t + 1) + fingerprint h" using Suc.prems(1) by (simp_all add: search_at_def)
  have lt: "i < ?n" using i shifts_bound(3)[OF ok] by simp
  consider "\<not> df \<le> b_df (bs ! i)" | "df \<le> b_df (bs ! i)" "df = b_df (bs ! i) \<and> k = key (b_entry (bs ! i))"
    | "df \<le> b_df (bs ! i)" "\<not> (df = b_df (bs ! i) \<and> k = key (b_entry (bs ! i)))" by blast
  then show ?case
  proof cases
    case 1
    then have "open_place sh bs h t df i" "unat (b_df (bs ! i)) < unat df"
      using Suc.prems by (auto simp: open_place_def word_le_nat_alt)
    then show ?thesis using 1 by (auto simp: search_ok_def)
  next
    case 2
    then show ?thesis using lt i(2) by (auto simp: search_ok_def df_0_iff)
  next
    case 3
    have le: "unat df \<le> unat (b_df (bs ! i))" using 3(1) by (simp add: word_le_nat_alt)
    then have t: "t < ?n" using Suc.prems(1,2) search_ends[OF wf, of h df i] by (cases "t = ?n") auto
    have no: "\<not> matches sh bs h key k t"
      using 3(2) unat_inj[of "b_df (bs ! i)" df] i by (auto simp: matches_def Let_def)
    have "\<forall>s < Suc t. 256 * (s + 1) + fingerprint h \<le> unat (b_df (bs ! pos ?n ?h s))"
      using Suc.prems(4) le i by (auto simp: less_Suc_eq)
    moreover have "?n - Suc t < fuel" using t Suc.prems(3) by arith
    ultimately obtain r where "search_loop fuel key bs k (dist_inc df) (next_idx ?n i) = Some r" "search_ok sh bs h key k (Suc t) r"
      using Suc.IH[OF search_at_Suc[OF Suc.prems(1) ok Suc.prems(2)]] t by auto
    then show ?thesis using 3 search_ok_Suc[OF _ no] by auto
  qed
qed simp

lemma less_loop_result:
  assumes wf: "table_wf sh H bs"
  shows "search_at sh bs h t df i \<Longrightarrow> t \<le> length bs \<Longrightarrow> length bs - t < fuel \<Longrightarrow>
    (\<forall>s < t. 256 * (s + 1) + fingerprint h \<le> unat (b_df (bs ! pos (length bs) (bucket_idx_from_hash sh h) s))) \<Longrightarrow>
    \<exists>t' df' j. less_loop fuel bs df i = Some (j, df') \<and> open_place sh bs h t' df' j"
proof (induction fuel arbitrary: t df i)
  case (Suc fuel)
  let ?n = "length bs" and ?h = "bucket_idx_from_hash sh h"
  have ok: "shifts_ok sh ?n" using wf by (simp add: table_wf_def)
  have i: "i = pos ?n ?h t" "unat df = 256 * (t + 1) + fingerprint h" using Suc.prems(1) by (simp_all add: search_at_def)
  show ?case
  proof (cases "df < b_df (bs ! i)")
    case False
    then have "open_place sh bs h t df i" using Suc.prems by (auto simp: open_place_def word_less_nat_alt)
    then show ?thesis using False by auto
  next
    case True
    then have le: "unat df < unat (b_df (bs ! i))" by (simp add: word_less_nat_alt)
    then have t: "t < ?n" using Suc.prems(1,2) search_ends[OF wf, of h df i] by (cases "t = ?n") auto
    have "\<forall>s < Suc t. 256 * (s + 1) + fingerprint h \<le> unat (b_df (bs ! pos ?n ?h s))"
      using Suc.prems(4) le i by (auto simp: less_Suc_eq)
    moreover have "?n - Suc t < fuel" using t Suc.prems(3) by arith
    ultimately show ?thesis using Suc.IH[OF search_at_Suc[OF Suc.prems(1) ok Suc.prems(2)]] t True by auto
  qed
qed simp

text \<open>The search for a key finds its entry, when there is one.\<close>

lemma search_finds:
  assumes wf: "table_wf sh (\<lambda>e. hash (key e)) bs" and fuel: "length bs < fuel"
    and r: "r = search_loop fuel key bs k (dist_and_fingerprint_from_hash (hash k)) (bucket_idx_from_hash sh (hash k))"
  shows "(\<exists>j. r = Some (Found j) \<and> j < length bs \<and> b_df (bs ! j) \<noteq> 0 \<and> key (b_entry (bs ! j)) = k)
    \<or> k \<notin> key ` set (entries bs) \<and> (\<exists>j df t. r = Some (Missing j df) \<and> open_place sh bs (hash k) t df j \<and> unat (b_df (bs ! j)) < unat df)"
proof -
  let ?n = "length bs" and ?h = "bucket_idx_from_hash sh (hash k)"
  have ok: "shifts_ok sh ?n" using wf by (simp add: table_wf_def)
  obtain q where q: "r = Some q" "search_ok sh bs (hash k) key k 0 q"
    using search_loop_result[OF wf search_at_0[OF ok], of fuel "hash k" key k] fuel unfolding r by auto
  show ?thesis
  proof (cases q)
    case (Found j)
    then show ?thesis using q by (auto simp: search_ok_def)
  next
    case (Missing j df)
    then obtain t where t: "open_place sh bs (hash k) t df j" "unat (b_df (bs ! j)) < unat df"
      "\<forall>s < t. \<not> matches sh bs (hash k) key k s" using q(2) by (auto simp: search_ok_def)
    have "False" if i: "i < ?n" "b_df (bs ! i) \<noteq> 0" "key (b_entry (bs ! i)) = k" for i
    proof -
      let ?d = "dist ?n ?h i"
      have b: "256 * (s + 1) + fingerprint (hash k) \<le> unat (b_df (bs ! pos ?n ?h s))" if "s \<le> ?d" for s
        using before_entry[OF wf i(1,2) refl, of s] that i(3) by simp
      have "matches sh bs (hash k) key k ?d"
        using wf i shifts_bound(3)[OF ok] by (simp add: matches_def Let_def table_wf_def bucket_ok_def)
      then have "t \<le> ?d" using t(3) by (meson not_le)
      from b[OF this] show False using t(1,2) by (simp add: open_place_def search_at_def)
    qed
    then have "k \<notin> key ` set (entries bs)" by (auto simp: entries_def in_set_conv_nth)
    then show ?thesis using q(1) Missing t by auto
  qed
qed

section \<open>Placing\<close>

lemma entries_split:
  "q < length bs \<Longrightarrow> entries bs = entries (take q bs) @ (if b_df (bs ! q) \<noteq> 0 then [b_entry (bs ! q)] else []) @ entries (drop (Suc q) bs)"
  using arg_cong[OF id_take_nth_drop, of q bs entries] by (simp add: entries_def)

lemma entries_update:
  assumes "q < length bs" and "b_df c \<noteq> 0"
  shows "mset (entries (bs[q := c])) + (if b_df (bs ! q) \<noteq> 0 then {#b_entry (bs ! q)#} else {#}) = add_mset (b_entry c) (mset (entries bs))"
proof -
  have "entries (bs[q := c]) = entries (take q bs) @ [b_entry c] @ entries (drop (Suc q) bs)"
    using assms entries_split[of q "bs[q := c]"] by simp
  then show ?thesis using entries_split[OF assms(1)] by simp
qed

definition has_empty :: "'e Bucket list \<Rightarrow> bool" where
  "has_empty bs \<longleftrightarrow> (\<exists>i < length bs. b_df (bs ! i) = 0)"

lemma has_empty_iff: "has_empty bs \<longleftrightarrow> length (entries bs) < length bs"
proof -
  have "length (entries bs) < length bs \<longleftrightarrow> \<not> (\<forall>b \<in> set bs. b_df b \<noteq> 0)"
    using length_filter_less[of _ bs "\<lambda>b. b_df b \<noteq> 0"] filter_id_conv[of "\<lambda>b. b_df b \<noteq> 0" bs]
    by (fastforce simp: entries_def)
  then show ?thesis unfolding has_empty_def by (metis in_set_conv_nth)
qed

text \<open>With an empty bucket in the table no entry is as far from its start as it could be.\<close>

lemma dist_small:
  assumes wf: "table_wf sh H bs" and e: "has_empty bs" and i: "i < length bs" "b_df (bs ! i) \<noteq> 0"
    and h: "h = bucket_idx_from_hash sh (H (b_entry (bs ! i)))"
  shows "dist (length bs) h i + 1 < length bs"
proof (rule ccontr)
  assume a: "\<not> dist (length bs) h i + 1 < length bs"
  obtain j where j: "j < length bs" "b_df (bs ! j) = 0" using e by (auto simp: has_empty_def)
  have hn: "h < length bs" using shifts_bound(3) wf h by (auto simp: table_wf_def)
  have "dist (length bs) h j < length bs" using j by simp
  then have "dist (length bs) h j \<le> dist (length bs) h i" using a by linarith
  from before_entry[OF wf i h this] show False using j hn by simp
qed

text \<open>A bucket that may take a place: it is where its distance says, not nearer than what is there, and follows on from what is before.\<close>

definition insertable :: "nat \<Rightarrow> ('e \<Rightarrow> u64) \<Rightarrow> 'e Bucket list \<Rightarrow> 'e Bucket \<Rightarrow> nat \<Rightarrow> bool" where
  "insertable sh H bs c q \<longleftrightarrow> q < length bs \<and> bucket_ok sh H (length bs) q c \<and> unat (b_df (bs ! q)) \<le> unat (b_df c)
     \<and> (\<forall>p < length bs. next_idx (length bs) p = q \<longrightarrow> 512 \<le> unat (b_df c) \<longrightarrow> unat (b_df c) \<le> unat (b_df (bs ! p)) + 256)"

lemma bucket_ok_not_0: "bucket_ok sh H n q c \<Longrightarrow> 256 \<le> unat (b_df c)"
  by (simp add: bucket_ok_def)

lemma place_wf:
  assumes wf: "table_wf sh H bs" and c: "insertable sh H bs c q"
  shows "table_wf sh H (bs[q := c])"
proof -
  have q: "q < length bs" and n: "4 \<le> length bs" using c wf shifts_bound(1) by (auto simp: insertable_def table_wf_def)
  have "in_order (bs[q := c])"
    unfolding in_order_def
  proof (intro allI impI)
    fix i assume i: "i < length (bs[q := c])" and b: "512 \<le> unat (b_df (bs[q := c] ! next_idx (length (bs[q := c])) i))"
    have o: "512 \<le> unat (b_df (bs ! next_idx (length bs) i)) \<Longrightarrow> unat (b_df (bs ! next_idx (length bs) i)) \<le> unat (b_df (bs ! i)) + 256"
      using wf i by (intro in_orderD) (auto simp: table_wf_def)
    have "next_idx (length bs) i \<noteq> i" using next_neq[of i "length bs"] n i by simp
    then show "unat (b_df (bs[q := c] ! next_idx (length (bs[q := c])) i)) \<le> unat (b_df (bs[q := c] ! i)) + 256"
      using b o c q i by (cases "next_idx (length bs) i = q"; cases "i = q") (auto simp: insertable_def nth_list_update)
  qed
  moreover have "\<forall>i < length bs. b_df (bs[q := c] ! i) \<noteq> 0 \<longrightarrow> bucket_ok sh H (length bs) i (bs[q := c] ! i)"
    using wf c by (auto simp: table_wf_def insertable_def nth_list_update)
  ultimately show ?thesis using wf by (simp add: table_wf_def)
qed

lemma place_next:
  assumes wf: "table_wf sh H bs" and c: "insertable sh H bs c q" and e: "has_empty bs" and ne: "b_df (bs ! q) \<noteq> 0"
  shows "insertable sh H (bs[q := c]) ((bs ! q)\<lparr>b_df := dist_inc (b_df (bs ! q))\<rparr>) (next_idx (length bs) q)"
proof -
  let ?n = "length bs" and ?o = "bs ! q"
  let ?h = "bucket_idx_from_hash sh (H (b_entry ?o))"
  have q: "q < ?n" and ok: "shifts_ok sh ?n" using c wf by (auto simp: insertable_def table_wf_def)
  have o: "unat (b_df ?o) = 256 * (dist ?n ?h q + 1) + fingerprint (H (b_entry ?o))" "256 \<le> unat (b_df ?o)"
    using wf q ne bucket_ok_not_0 by (auto simp: table_wf_def bucket_ok_def)
  have d: "dist ?n ?h q + 1 < ?n" by (rule dist_small[OF wf e q ne refl])
  then have inc: "unat (dist_inc (b_df ?o)) = unat (b_df ?o) + 256"
    using df_bound[OF wf q] shifts_bound(2)[OF ok] by (intro dist_inc_unat) simp
  have nq: "next_idx ?n q < ?n" "next_idx ?n q \<noteq> q" using q next_neq[OF q] shifts_bound(1)[OF ok] by auto
  have "bucket_ok sh H ?n (next_idx ?n q) (?o\<lparr>b_df := dist_inc (b_df ?o)\<rparr>)"
    using o d dist_next[OF shifts_bound(3)[OF ok] q d] by (simp add: bucket_ok_def inc)
  moreover have "unat (b_df (bs ! next_idx ?n q)) \<le> unat (b_df ?o) + 256"
    using in_orderD[of bs q] wf q o(2) by (cases "512 \<le> unat (b_df (bs ! next_idx ?n q))") (auto simp: table_wf_def)
  ultimately show ?thesis using c nq q by (auto simp: insertable_def inc next_inj)
qed

lemma place_result:
  assumes "table_wf sh H bs" and "insertable sh H bs c q" and "m < length bs" and "b_df (bs ! pos (length bs) q m) = 0" and "m < fuel"
  shows "\<exists>bs'. place_and_shift_up fuel c q bs = Some bs' \<and> table_wf sh H bs' \<and> length bs' = length bs
    \<and> mset (entries bs') = add_mset (b_entry c) (mset (entries bs))"
  using assms
proof (induction fuel arbitrary: bs c q m)
  case (Suc fuel)
  let ?n = "length bs" and ?bs = "bs[q := c]" and ?o = "bs ! q"
  have q: "q < ?n" "b_df c \<noteq> 0" using Suc.prems(2) bucket_ok_not_0 df_0_iff by (fastforce simp: insertable_def)+
  note wf = place_wf[OF Suc.prems(1,2)] and ent = entries_update[OF q]
  show ?case
  proof (cases "b_df ?o = 0")
    case True
    then show ?thesis using wf ent by auto
  next
    case False
    have e: "has_empty bs" using Suc.prems(3,4) q(1) by (auto simp: has_empty_def intro!: exI[of _ "pos ?n q m"])
    obtain m' where m: "m = Suc m'" using False Suc.prems(4) q(1) by (cases m) auto
    have "pos ?n (next_idx ?n q) m' = pos ?n q m"
      using m pos_next[OF q(1)] by simp
    moreover have "pos ?n q m \<noteq> q" using False Suc.prems(4) by auto
    ultimately have "b_df (?bs ! pos (length ?bs) (next_idx ?n q) m') = 0" using Suc.prems(4) q(1) by simp
    then obtain bs' where "place_and_shift_up fuel (?o\<lparr>b_df := dist_inc (b_df ?o)\<rparr>) (next_idx ?n q) ?bs = Some bs'" "table_wf sh H bs'"
      "length bs' = ?n" "mset (entries bs') = add_mset (b_entry ?o) (mset (entries ?bs))"
      using Suc.IH[OF wf place_next[OF Suc.prems(1,2) e False], of m'] Suc.prems(3,5) m by auto
    then show ?thesis using False ent by (auto simp: Let_def)
  qed
qed simp

lemma open_place_insertable:
  assumes wf: "table_wf sh H bs" and e: "has_empty bs" and o: "open_place sh bs (H x) t df j"
  shows "insertable sh H bs \<lparr>b_entry = x, b_df = df\<rparr> j"
proof -
  let ?n = "length bs" and ?h = "bucket_idx_from_hash sh (H x)"
  have ok: "shifts_ok sh ?n" using wf by (simp add: table_wf_def)
  have hn: "?h < ?n" by (rule shifts_bound(3)[OF ok])
  have j: "j = pos ?n ?h t" and df: "unat df = 256 * (t + 1) + fingerprint (H x)" and tn: "t \<le> ?n"
    and before: "\<And>s. s < t \<Longrightarrow> 256 * (s + 1) + fingerprint (H x) \<le> unat (b_df (bs ! pos ?n ?h s))"
    using o by (simp_all add: open_place_def search_at_def)
  obtain i where i: "i < ?n" "b_df (bs ! i) = 0" using e by (auto simp: has_empty_def)
  have t: "t < ?n"
  proof (rule ccontr)
    assume "\<not> t < ?n"
    then have "dist ?n ?h i < t" using dist_lt'[OF i(1), of ?h] by simp
    from before[OF this] show False using i hn by simp
  qed
  have "unat df \<le> unat (b_df (bs ! p)) + 256" if p: "p < ?n" "next_idx ?n p = j" "512 \<le> unat df" for p
  proof -
    obtain s where s: "t = Suc s" using p(3) df fingerprint_lt[of "H x"] by (cases t) auto
    have "next_idx ?n p = next_idx ?n (pos ?n ?h s)" unfolding next_pos[OF hn] p(2) j s ..
    then have "p = pos ?n ?h s" using next_inj[OF p(1) pos_lt'[OF hn]] by blast
    then show ?thesis using before[of s] s df by simp
  qed
  then show ?thesis using o j df t hn by (simp add: insertable_def bucket_ok_def open_place_def)
qed

lemma open_place_result:
  assumes wf: "table_wf sh H bs" and e: "has_empty bs" and o: "open_place sh bs (H x) t df j" and fuel: "length bs \<le> fuel"
  shows "\<exists>bs'. place_and_shift_up fuel \<lparr>b_entry = x, b_df = df\<rparr> j bs = Some bs' \<and> table_wf sh H bs' \<and> length bs' = length bs
    \<and> mset (entries bs') = add_mset x (mset (entries bs))"
proof -
  note ins = open_place_insertable[OF wf e o]
  obtain i where i: "i < length bs" "b_df (bs ! i) = 0" using e by (auto simp: has_empty_def)
  have "j < length bs" using ins by (simp add: insertable_def)
  then show ?thesis
    using place_result[OF wf ins, of "dist (length bs) j i" fuel] i fuel dist_lt'[OF i(1), of j] by simp
qed

text \<open>An entry enters a table: the step of every rehash.\<close>

definition fill_bucket :: "nat \<Rightarrow> nat \<Rightarrow> ('e \<Rightarrow> u64) \<Rightarrow> 'e \<Rightarrow> 'e Bucket list \<Rightarrow> 'e Bucket list option" where
  "fill_bucket fuel shifts H e bs =
     Option.bind (next_while_less fuel shifts bs (H e)) (\<lambda>(i, df). place_and_shift_up fuel \<lparr>b_entry = e, b_df = df\<rparr> i bs)"

lemma next_while_less_result:
  assumes wf: "table_wf sh H bs" and fuel: "length bs < fuel"
  shows "\<exists>t df j. next_while_less fuel sh bs h = Some (j, df) \<and> open_place sh bs h t df j"
proof -
  have ok: "shifts_ok sh (length bs)" using wf by (simp add: table_wf_def)
  obtain t df j where r: "less_loop fuel bs (dist_and_fingerprint_from_hash h) (bucket_idx_from_hash sh h) = Some (j, df)"
    "open_place sh bs h t df j"
    using less_loop_result[OF wf search_at_0[OF ok], of fuel h] fuel by auto
  have "j < length bs" using r(2) shifts_bound(3)[OF ok] by (simp add: open_place_def search_at_def)
  also have "\<dots> < 2 ^ 32" using shifts_bound(2)[OF ok] by simp
  finally show ?thesis using r by (auto simp: next_while_less_def)
qed

lemma fill_bucket_result:
  assumes wf: "table_wf sh H bs" and e: "has_empty bs" and fuel: "length bs < fuel"
  shows "\<exists>bs'. fill_bucket fuel sh H x bs = Some bs' \<and> table_wf sh H bs' \<and> length bs' = length bs
    \<and> mset (entries bs') = add_mset x (mset (entries bs))"
proof -
  obtain t df j where r: "next_while_less fuel sh bs (H x) = Some (j, df)" "open_place sh bs (H x) t df j"
    using next_while_less_result[OF wf fuel] by blast
  then show ?thesis using open_place_result[OF wf e r(2), of fuel] fuel by (auto simp: fill_bucket_def)
qed

definition zero_bucket :: "'e \<Rightarrow> 'e Bucket" where
  "zero_bucket z = \<lparr>b_entry = z, b_df = 0\<rparr>"

lemma empty_table_wf: "shifts_ok sh n \<Longrightarrow> table_wf sh H (replicate n (zero_bucket z))" "entries (replicate n (zero_bucket z)) = []"
  by (auto simp: table_wf_def in_order_def entries_def zero_bucket_def)

text \<open>In a table without an empty bucket, an entry with a fingerprint other than 0 is shifted round forever.\<close>

lemma full_table_diverges:
  assumes "\<forall>b \<in> set bs. unat (b_df b) mod 256 \<noteq> 0" and "unat (b_df c) mod 256 \<noteq> 0" and "q < length bs"
  shows "place_and_shift_up fuel c q bs = None"
  using assms
proof (induction fuel arbitrary: bs c q)
  case (Suc fuel)
  let ?o = "bs ! q"
  have o: "unat (b_df ?o) mod 256 \<noteq> 0" using Suc.prems by simp
  have "unat (dist_inc (b_df ?o)) mod 256 = unat (b_df ?o) mod 256"
    by (simp add: dist_inc_def k_dist_inc_def unat_word_ariths mod_mod_cancel)
  moreover have "\<forall>b \<in> set (bs[q := c]). unat (b_df b) mod 256 \<noteq> 0" using Suc.prems set_update_subset_insert by fastforce
  moreover have "b_df ?o \<noteq> 0" using o by (auto simp: df_0_iff)
  ultimately show ?case using Suc.IH[of "bs[q := c]" "?o\<lparr>b_df := dist_inc (b_df ?o)\<rparr>" "next_idx (length bs) q"] o Suc.prems(3)
    by (simp add: Let_def)
qed simp

end
