(* ===== verification/Rdict.thy ===== *)
theory Rdict
  imports RdictTable
begin

text \<open>
  The dictionary \<^verbatim>\<open>ReadonlyDict\<close> of \<^verbatim>\<open>rdict/rdict.h\<close> in its flat form, whose buckets hold keys and values
  themselves. The type of the keys, their hash function \<open>H\<close> (\<^verbatim>\<open>mixed_hash\<close>) and \<open>cap\<close>, the product of
  a number of buckets and the maximal load factor rounded to an integer, are parameters.
  \<open>None\<close> means that an operation does not return or reads outside of the buckets.
\<close>

section \<open>State\<close>

datatype Status = Ok | InvalidArgument string | PermissionDenied string | NotFound string | Errno string

record IndexMeta =
  m_size :: nat
  m_num_buckets :: nat
  m_max_bucket_capacity :: nat
  m_shifts :: nat

text \<open>\<^verbatim>\<open>index_buffer_\<close>: the meta data, once there are some, and the buckets.\<close>

record 'e rindex =
  ix_meta :: "IndexMeta option"
  ix_buckets :: "'e Bucket list"

definition initial_shifts :: nat where
  "initial_shifts = 64 - 2"

definition max_size :: nat where
  "max_size = 2 ^ 63"

definition max_bucket_count :: nat where
  "max_bucket_count = max_size"

definition calc_num_buckets :: "nat \<Rightarrow> nat" where
  "calc_num_buckets shifts = min max_bucket_count (2 ^ (64 - shifts))"

text \<open>The default load factor is the binary fraction 13421773 / 16777216 next to 0.8; multiplied with a power of two it is exact.\<close>

definition default_cap :: "nat \<Rightarrow> nat" where
  "default_cap n = n * 13421773 div 16777216"

fun calc_shifts_loop :: "(nat \<Rightarrow> nat) \<Rightarrow> nat \<Rightarrow> nat \<Rightarrow> nat" where
  "calc_shifts_loop cap s shifts =
     (if 0 < shifts \<and> cap (calc_num_buckets shifts) < s then calc_shifts_loop cap s (shifts - 1) else shifts)"

declare calc_shifts_loop.simps [simp del]

definition calc_shifts_for_size :: "(nat \<Rightarrow> nat) \<Rightarrow> nat \<Rightarrow> nat" where
  "calc_shifts_for_size cap s = calc_shifts_loop cap s initial_shifts"

section \<open>Buckets\<close>

text \<open>A resized buffer keeps its contents as far as they fit.\<close>

definition allocate_buckets_from_shift :: "(nat \<Rightarrow> nat) \<Rightarrow> 'e \<Rightarrow> nat \<Rightarrow> 'e rindex \<Rightarrow> 'e rindex" where
  "allocate_buckets_from_shift cap z shifts ix =
     (let shifts = (if shifts = 0 then case ix_meta ix of None \<Rightarrow> initial_shifts | Some m \<Rightarrow> m_shifts m else shifts);
          orig_size = (case ix_meta ix of None \<Rightarrow> 0 | Some m \<Rightarrow> m_size m);
          num_buckets = calc_num_buckets shifts;
          capacity = (if num_buckets = max_bucket_count then max_bucket_count else cap num_buckets)
      in ix\<lparr>ix_meta := Some \<lparr>m_size = orig_size, m_num_buckets = num_buckets, m_max_bucket_capacity = capacity, m_shifts = shifts\<rparr>,
            ix_buckets := take num_buckets (ix_buckets ix @ replicate num_buckets (zero_bucket z))\<rparr>)"

definition clear_buckets :: "'e \<Rightarrow> 'e rindex \<Rightarrow> 'e rindex" where
  "clear_buckets z ix = ix\<lparr>ix_buckets := replicate (m_num_buckets (the (ix_meta ix))) (zero_bucket z)\<rparr>"

definition deallocate_buckets :: "'e rindex \<Rightarrow> 'e rindex" where
  "deallocate_buckets ix = ix\<lparr>ix_meta := map_option (\<lambda>m. m\<lparr>m_num_buckets := 0, m_max_bucket_capacity := 0\<rparr>) (ix_meta ix)\<rparr>"

definition is_full :: "'e rindex \<Rightarrow> bool" where
  "is_full ix \<longleftrightarrow> m_max_bucket_capacity (the (ix_meta ix)) < m_size (the (ix_meta ix))"

text \<open>The entries of \<open>n\<close> used buckets of an old table enter the new one.\<close>

fun fill_from_buckets :: "nat \<Rightarrow> nat \<Rightarrow> ('e \<Rightarrow> u64) \<Rightarrow> nat \<Rightarrow> 'e Bucket list \<Rightarrow> 'e Bucket list \<Rightarrow> 'e Bucket list option" where
  "fill_from_buckets fuel shifts H n old bs =
     (if n = 0 then Some bs
      else case old of
             [] \<Rightarrow> None
           | b # old' \<Rightarrow>
               if b_df b = 0 then fill_from_buckets fuel shifts H n old' bs
               else Option.bind (fill_bucket fuel shifts H (b_entry b) bs) (fill_from_buckets fuel shifts H (n - 1) old'))"

declare fill_from_buckets.simps [simp del]

definition clear_and_fill_buckets_from_values ::
  "nat \<Rightarrow> ('e \<Rightarrow> u64) \<Rightarrow> 'e \<Rightarrow> 'e Bucket list \<Rightarrow> 'e rindex \<Rightarrow> (Status \<times> 'e rindex) option" where
  "clear_and_fill_buckets_from_values fuel H z old ix =
     (let ix = clear_buckets z ix; m = the (ix_meta ix)
      in map_option (\<lambda>bs. (Ok, ix\<lparr>ix_buckets := bs\<rparr>)) (fill_from_buckets fuel (m_shifts m) H (m_size m) old (ix_buckets ix)))"

text \<open>
  The two operations that change the number of buckets, for both forms of the dictionary: \<open>refill\<close> is the form's
  \<^verbatim>\<open>clear_and_fill_buckets_from_values\<close> on the new buckets.
\<close>

definition increase_size ::
  "('e rindex \<Rightarrow> (Status \<times> 'e rindex) option) \<Rightarrow> (nat \<Rightarrow> nat) \<Rightarrow> 'e \<Rightarrow> 'e rindex \<Rightarrow> (Status \<times> 'e rindex) option" where
  "increase_size refill cap z ix =
     (let m = the (ix_meta ix) in
      if m_max_bucket_capacity m = max_bucket_count then Some (InvalidArgument ''capacity overflow'', ix)
      else refill (allocate_buckets_from_shift cap z 0 (deallocate_buckets (ix\<lparr>ix_meta := Some (m\<lparr>m_shifts := m_shifts m - 1\<rparr>)\<rparr>))))"

definition reserve ::
  "('e rindex \<Rightarrow> (Status \<times> 'e rindex) option) \<Rightarrow> (nat \<Rightarrow> nat) \<Rightarrow> 'e \<Rightarrow> nat \<Rightarrow> 'e rindex \<Rightarrow> (Status \<times> 'e rindex) option" where
  "reserve refill cap z capa ix =
     (let capa = min capa max_size;
          current_size = (case ix_meta ix of None \<Rightarrow> 0 | Some m \<Rightarrow> m_size m);
          num_buckets = (case ix_meta ix of None \<Rightarrow> 0 | Some m \<Rightarrow> m_num_buckets m);
          current_shifts = (case ix_meta ix of None \<Rightarrow> initial_shifts | Some m \<Rightarrow> m_shifts m);
          shifts = calc_shifts_for_size cap (max capa current_size)
      in if num_buckets = 0 \<or> shifts < current_shifts
         then refill (allocate_buckets_from_shift cap z shifts (deallocate_buckets ix))
         else Some (Ok, ix))"

section \<open>Operations\<close>

record ('k, 'v) dict_params =
  dp_hash :: "'k \<Rightarrow> u64"
  dp_cap :: "nat \<Rightarrow> nat"
  dp_estimate :: "nat \<Rightarrow> nat"  \<comment> \<open>a number of entries divided by the load factor\<close>
  dp_zero :: "'k \<times> 'v"

abbreviation entry_hash :: "('k, 'v) dict_params \<Rightarrow> 'k \<times> 'v \<Rightarrow> u64" where
  "entry_hash D \<equiv> \<lambda>e. dp_hash D (fst e)"

abbreviation meta_of :: "'e rindex \<Rightarrow> IndexMeta" where
  "meta_of ix \<equiv> the (ix_meta ix)"

definition refill_flat :: "nat \<Rightarrow> ('k, 'v) dict_params \<Rightarrow> ('k \<times> 'v) rindex \<Rightarrow> ('k \<times> 'v) rindex \<Rightarrow> (Status \<times> ('k \<times> 'v) rindex) option" where
  "refill_flat fuel D old = clear_and_fill_buckets_from_values fuel (entry_hash D) (dp_zero D) (ix_buckets old)"

definition find_key :: "nat \<Rightarrow> ('k, 'v) dict_params \<Rightarrow> 'k \<Rightarrow> ('k \<times> 'v) rindex \<Rightarrow> search option" where
  "find_key fuel D k ix =
     (let h = dp_hash D k
      in search_loop fuel fst (ix_buckets ix) k (dist_and_fingerprint_from_hash h) (bucket_idx_from_hash (m_shifts (meta_of ix)) h))"

definition Get :: "nat \<Rightarrow> ('k, 'v) dict_params \<Rightarrow> 'k \<Rightarrow> ('k \<times> 'v) rindex \<Rightarrow> (Status + 'v) option" where
  "Get fuel D k ix =
     map_option (\<lambda>r. case r of Found i \<Rightarrow> Inr (snd (b_entry (ix_buckets ix ! i))) | Missing i df \<Rightarrow> Inl (NotFound ''not found entry''))
       (find_key fuel D k ix)"

definition Exists :: "nat \<Rightarrow> ('k, 'v) dict_params \<Rightarrow> 'k \<Rightarrow> ('k \<times> 'v) rindex \<Rightarrow> bool option" where
  "Exists fuel D k ix = map_option (\<lambda>r. case r of Found i \<Rightarrow> True | Missing i df \<Rightarrow> False) (find_key fuel D k ix)"

definition Size :: "'e rindex \<Rightarrow> nat" where
  "Size ix = m_size (meta_of ix)"

definition Update :: "nat \<Rightarrow> 'v \<Rightarrow> ('k \<times> 'v) rindex \<Rightarrow> ('k \<times> 'v) rindex" where
  "Update i v ix =
     (let b = ix_buckets ix ! i in ix\<lparr>ix_buckets := (ix_buckets ix)[i := b\<lparr>b_entry := (fst (b_entry b), v)\<rparr>]\<rparr>)"

definition inc_size :: "'e rindex \<Rightarrow> 'e rindex" where
  "inc_size ix = ix\<lparr>ix_meta := Some ((meta_of ix)\<lparr>m_size := m_size (meta_of ix) + 1\<rparr>)\<rparr>"

text \<open>A bucket enters the table at a place that was found for it.\<close>

definition put_at :: "nat \<Rightarrow> 'e \<Rightarrow> nat \<Rightarrow> u32 \<Rightarrow> 'e rindex \<Rightarrow> 'e rindex option" where
  "put_at fuel e i df ix =
     map_option (\<lambda>bs. inc_size (ix\<lparr>ix_buckets := bs\<rparr>)) (place_and_shift_up fuel \<lparr>b_entry = e, b_df = df\<rparr> i (ix_buckets ix))"

text \<open>A new entry \<open>e\<close>, whose key has the hash \<open>h\<close> and for which the search ended at a place; full buckets are doubled first.\<close>

definition put_new ::
  "nat \<Rightarrow> ('e rindex \<Rightarrow> (Status \<times> 'e rindex) option) \<Rightarrow> (nat \<Rightarrow> nat) \<Rightarrow> 'e \<Rightarrow> u64 \<Rightarrow> 'e \<Rightarrow> nat \<Rightarrow> u32 \<Rightarrow> 'e rindex
    \<Rightarrow> (Status \<times> 'e rindex) option" where
  "put_new fuel refill cap z h e i df ix =
     (if is_full ix
      then
        (case increase_size refill cap z ix of
           None \<Rightarrow> None
         | Some (status, ix) \<Rightarrow>
             if status \<noteq> Ok then Some (status, ix)
             else Option.bind (next_while_less fuel (m_shifts (meta_of ix)) (ix_buckets ix) h)
                    (\<lambda>(i, df). map_option (Pair Ok) (put_at fuel e i df ix)))
      else map_option (Pair Ok) (put_at fuel e i df ix))"

definition Put :: "nat \<Rightarrow> ('k, 'v) dict_params \<Rightarrow> 'k \<Rightarrow> 'v \<Rightarrow> ('k \<times> 'v) rindex \<Rightarrow> (Status \<times> ('k \<times> 'v) rindex) option" where
  "Put fuel D k v ix =
     (case find_key fuel D k ix of
        None \<Rightarrow> None
      | Some (Found i) \<Rightarrow> Some (Ok, Update i v ix)
      | Some (Missing i df) \<Rightarrow> put_new fuel (refill_flat fuel D ix) (dp_cap D) (dp_zero D) (dp_hash D k) (k, v) i df ix)"

text \<open>The buckets of the other dictionary enter one by one, without a search for their keys.\<close>

fun merge_buckets :: "nat \<Rightarrow> ('e \<Rightarrow> u64) \<Rightarrow> nat \<Rightarrow> 'e Bucket list \<Rightarrow> 'e rindex \<Rightarrow> 'e rindex option" where
  "merge_buckets fuel H n other ix =
     (if n = 0 then Some ix
      else case other of
             [] \<Rightarrow> None
           | b # other' \<Rightarrow>
               if b_df b = 0 then merge_buckets fuel H n other' ix
               else Option.bind (fill_bucket fuel (m_shifts (meta_of ix)) H (b_entry b) (ix_buckets ix))
                      (\<lambda>bs. merge_buckets fuel H (n - 1) other' (inc_size (ix\<lparr>ix_buckets := bs\<rparr>))))"

declare merge_buckets.simps [simp del]

definition Merge :: "nat \<Rightarrow> ('k, 'v) dict_params \<Rightarrow> bool \<Rightarrow> ('k \<times> 'v) rindex \<Rightarrow> ('k \<times> 'v) rindex
    \<Rightarrow> (Status \<times> ('k \<times> 'v) rindex) option" where
  "Merge fuel D readonly other ix =
     (if readonly then Some (PermissionDenied ''Unable to merge into readonly rdict'', ix)
      else
        let total_size = Size ix + Size other
        in Option.bind (reserve (refill_flat fuel D ix) (dp_cap D) (dp_zero D) (dp_estimate D total_size) ix) (\<lambda>(status, ix).
             if status \<noteq> Ok then Some (status, ix)
             else map_option (Pair Ok) (merge_buckets fuel (entry_hash D) (Size other) (ix_buckets other) ix)))"

section \<open>Opening\<close>

text \<open>The index file as \<^verbatim>\<open>LoadIndex\<close> finds it. \<^verbatim>\<open>Commit\<close> writes the buffer itself to the file.\<close>

datatype 'e index_file = NoFile | Unreadable | IndexFile "'e rindex"

definition no_index :: "'e rindex" where
  "no_index = \<lparr>ix_meta = None, ix_buckets = []\<rparr>"

definition LoadIndex :: "bool \<Rightarrow> 'e index_file \<Rightarrow> Status \<times> 'e rindex" where
  "LoadIndex ignore_nonexist file =
     (case file of
        IndexFile ix \<Rightarrow> (Ok, ix)
      | NoFile \<Rightarrow> if ignore_nonexist then (Ok, no_index) else (InvalidArgument ''read index failed'', no_index)
      | Unreadable \<Rightarrow> (InvalidArgument ''read index failed'', no_index))"

text \<open>The buckets of a new dictionary.\<close>

definition new_buckets :: "('e rindex \<Rightarrow> (Status \<times> 'e rindex) option) \<Rightarrow> (nat \<Rightarrow> nat) \<Rightarrow> 'e \<Rightarrow> nat \<Rightarrow> 'e rindex \<Rightarrow> (Status \<times> 'e rindex) option" where
  "new_buckets refill cap z bucket_count ix =
     (if bucket_count \<noteq> 0 then reserve refill cap z bucket_count ix
      else Some (Ok, clear_buckets z (allocate_buckets_from_shift cap z 0 ix)))"

definition Init :: "nat \<Rightarrow> ('k, 'v) dict_params \<Rightarrow> nat \<Rightarrow> ('k \<times> 'v) index_file \<Rightarrow> (Status \<times> ('k \<times> 'v) rindex) option" where
  "Init fuel D bucket_count file =
     (case LoadIndex True file of (status, ix) \<Rightarrow>
        if status \<noteq> Ok then Some (status, ix)
        else if ix_meta ix \<noteq> None \<and> 0 < m_size (meta_of ix) then Some (Ok, ix)
        else new_buckets (refill_flat fuel D ix) (dp_cap D) (dp_zero D) bucket_count ix)"

end
