(* ===== verification/RdictSerial.thy ===== *)
theory RdictSerial
  imports RdictTable "HOL-Library.Monad_Syntax"
begin

text \<open>
  The layout of keys and values in the data file of a dictionary: \<^verbatim>\<open>Serializer\<close> and \<^verbatim>\<open>KeyValPair\<close> of \<^verbatim>\<open>rdict/rdict.h\<close>.
  Memory is a list of bytes that starts at the pointer; \<open>None\<close> means a read or write outside of it.
\<close>

section \<open>Serializers\<close>

record 'a Serializer =
  sz_Pack :: "'a \<Rightarrow> byte list \<Rightarrow> byte list"
  sz_Unpack :: "byte list \<Rightarrow> ('a \<times> nat) option"
  sz_GetSize :: "byte list \<Rightarrow> nat option"

text \<open>The general case copies the representation in memory, here of \<open>n\<close> bytes.\<close>

definition fixed_serializer :: "nat \<Rightarrow> ('a \<Rightarrow> byte list) \<Rightarrow> (byte list \<Rightarrow> 'a) \<Rightarrow> 'a Serializer" where
  "fixed_serializer n repr abst =
     \<lparr>sz_Pack = \<lambda>v buffer. buffer @ repr v,
      sz_Unpack = \<lambda>data. if n \<le> length data then Some (abst (take n data), n) else None,
      sz_GetSize = \<lambda>data. Some n\<rparr>"

definition read_len :: "byte list \<Rightarrow> nat option" where
  "read_len data = (if 4 \<le> length data then Some (unat (of_mem32 (take 4 data))) else None)"

text \<open>Strings have their length in front, as a 32-bit integer.\<close>

definition string_serializer :: "byte list Serializer" where
  "string_serializer =
     \<lparr>sz_Pack = \<lambda>v buffer. buffer @ mem32 (of_nat (length v)) @ v,
      sz_Unpack = \<lambda>data. do { len \<leftarrow> read_len data;
                             if 4 + len \<le> length data then Some (take len (drop 4 data), 4 + len) else None },
      sz_GetSize = \<lambda>data. do { len \<leftarrow> read_len data; Some (4 + len) }\<rparr>"

text \<open>What the dictionary relies on.\<close>

locale serializer =
  fixes S :: "'a Serializer" and valid :: "'a \<Rightarrow> bool"
  assumes pack_appends: "sz_Pack S v buffer = buffer @ sz_Pack S v []"
    and unpack_pack: "valid v \<Longrightarrow> sz_Unpack S (sz_Pack S v [] @ rest) = Some (v, length (sz_Pack S v []))"
    and size_pack: "valid v \<Longrightarrow> sz_GetSize S (sz_Pack S v [] @ rest) = Some (length (sz_Pack S v []))"

abbreviation u64_serializer :: "u64 Serializer" where
  "u64_serializer \<equiv> fixed_serializer 8 mem64 of_mem64"

abbreviation u32_serializer :: "u32 Serializer" where
  "u32_serializer \<equiv> fixed_serializer 4 mem32 of_mem32"

abbreviation valid_string :: "byte list \<Rightarrow> bool" where
  "valid_string v \<equiv> length v < 2 ^ 32"

interpretation u64_ser: serializer u64_serializer "\<lambda>_. True"
  by unfold_locales (simp_all add: fixed_serializer_def)

interpretation u32_ser: serializer u32_serializer "\<lambda>_. True"
  by unfold_locales (simp_all add: fixed_serializer_def)

lemma read_len_mem32 [simp]: "n < 2 ^ 32 \<Longrightarrow> read_len (mem32 (of_nat n) @ rest) = Some n"
  by (simp add: read_len_def unat_of_nat)

interpretation string_ser: serializer string_serializer valid_string
  by unfold_locales (simp_all add: string_serializer_def)

section \<open>Pairs\<close>

definition allign :: "nat \<Rightarrow> nat" where
  "allign len = (len + 7) div 8 * 8"

definition KeyValPair_Pack :: "'k Serializer \<Rightarrow> 'v Serializer \<Rightarrow> 'k \<Rightarrow> 'v \<Rightarrow> byte list" where
  "KeyValPair_Pack K V k v =
     (let buffer = sz_Pack V v (sz_Pack K k []);
          allign_len = allign (length buffer + 1)
      in if length buffer < allign_len then buffer @ replicate (allign_len - length buffer) 0 else buffer)"

definition UnpackKey :: "'k Serializer \<Rightarrow> byte list \<Rightarrow> 'k option" where
  "UnpackKey K data = map_option fst (sz_Unpack K data)"

definition KeyValPair_Unpack :: "'k Serializer \<Rightarrow> 'v Serializer \<Rightarrow> byte list \<Rightarrow> ('k \<times> 'v \<times> nat) option" where
  "KeyValPair_Unpack K V data =
     do { (k, n1) \<leftarrow> sz_Unpack K data; (v, n2) \<leftarrow> sz_Unpack V (drop n1 data); Some (k, v, n1 + n2) }"

definition key_val_len :: "'k Serializer \<Rightarrow> 'v Serializer \<Rightarrow> byte list \<Rightarrow> nat option" where
  "key_val_len K V data = do { n1 \<leftarrow> sz_GetSize K data; n2 \<leftarrow> sz_GetSize V (drop n1 data); Some (n1 + n2) }"

definition GetKeyValuePackSize :: "'k Serializer \<Rightarrow> 'v Serializer \<Rightarrow> byte list \<Rightarrow> nat option" where
  "GetKeyValuePackSize K V data = do { n \<leftarrow> key_val_len K V data; Some (allign (n + 1)) }"

text \<open>The flags are the byte behind key and value; its lowest bit is \<^verbatim>\<open>invalid\<close>.\<close>

definition GetFlags :: "'k Serializer \<Rightarrow> 'v Serializer \<Rightarrow> byte list \<Rightarrow> byte option" where
  "GetFlags K V data = do { n \<leftarrow> key_val_len K V data; if n < length data then Some (data ! n) else None }"

definition SetFlags :: "'k Serializer \<Rightarrow> 'v Serializer \<Rightarrow> byte \<Rightarrow> byte list \<Rightarrow> byte list option" where
  "SetFlags K V flags data = do { n \<leftarrow> key_val_len K V data; if n < length data then Some (data[n := flags]) else None }"

definition flag_invalid :: "byte \<Rightarrow> bool" where
  "flag_invalid flags \<longleftrightarrow> odd flags"

lemma allign_gt: "n < allign (n + 1)"
  unfolding allign_def by linarith

lemma pack_size_pos: "GetKeyValuePackSize K V data = Some n \<Longrightarrow> 0 < n"
  by (auto simp: GetKeyValuePackSize_def allign_def split: bind_splits)

section \<open>Records\<close>

text \<open>A record of the data file: a packed pair with its flags.\<close>

definition kv_record :: "'k Serializer \<Rightarrow> 'v Serializer \<Rightarrow> byte \<Rightarrow> 'k \<Rightarrow> 'v \<Rightarrow> byte list" where
  "kv_record K V flags k v = (KeyValPair_Pack K V k v)[length (sz_Pack K k []) + length (sz_Pack V v []) := flags]"

locale pair_serializer = key: serializer K kvalid + val: serializer V vvalid
  for K :: "'k Serializer" and kvalid and V :: "'v Serializer" and vvalid
begin

lemma pack_eq:
  "KeyValPair_Pack K V k v =
     sz_Pack K k [] @ sz_Pack V v [] @ replicate (allign (length (sz_Pack K k []) + length (sz_Pack V v []) + 1)
       - (length (sz_Pack K k []) + length (sz_Pack V v []))) 0"
proof -
  let ?b = "sz_Pack K k [] @ sz_Pack V v []"
  have "sz_Pack V v (sz_Pack K k []) = ?b" by (rule val.pack_appends)
  moreover have "length ?b < allign (length ?b + 1)" by (rule allign_gt)
  ultimately show ?thesis by (simp add: KeyValPair_Pack_def)
qed

lemma record_eq:
  "\<exists>pad. kv_record K V flags k v = sz_Pack K k [] @ sz_Pack V v [] @ flags # pad
     \<and> length (kv_record K V flags k v) = allign (length (sz_Pack K k []) + length (sz_Pack V v []) + 1)"
proof -
  let ?n = "length (sz_Pack K k []) + length (sz_Pack V v [])"
  obtain m where "allign (?n + 1) - ?n = Suc m" using allign_gt[of ?n] by (cases "allign (?n + 1) - ?n") auto
  then show ?thesis
    using allign_gt[of ?n] by (auto simp: kv_record_def pack_eq list_update_append)
qed

lemma pack_record: "KeyValPair_Pack K V k v = kv_record K V 0 k v"
proof -
  let ?n = "length (sz_Pack K k []) + length (sz_Pack V v [])"
  obtain m where "allign (?n + 1) - ?n = Suc m" using allign_gt[of ?n] by (cases "allign (?n + 1) - ?n") auto
  then show ?thesis by (simp add: kv_record_def pack_eq list_update_append)
qed

lemma record_not_Nil: "kv_record K V flags k v \<noteq> []"
  using record_eq[of flags k v] by auto

lemma record_len:
  assumes "kvalid k" and "vvalid v"
  shows "key_val_len K V (kv_record K V flags k v @ rest) = Some (length (sz_Pack K k []) + length (sz_Pack V v []))"
  using record_eq[of flags k v] by (auto simp: key_val_len_def key.size_pack[OF assms(1)] val.size_pack[OF assms(2)])

lemma record_reads:
  assumes v: "kvalid k" "vvalid v"
  shows "UnpackKey K (kv_record K V flags k v @ rest) = Some k"
    and "KeyValPair_Unpack K V (kv_record K V flags k v @ rest) = Some (k, v, length (sz_Pack K k []) + length (sz_Pack V v []))"
    and "GetKeyValuePackSize K V (kv_record K V flags k v @ rest) = Some (length (kv_record K V flags k v))"
    and "GetFlags K V (kv_record K V flags k v @ rest) = Some flags"
    and "SetFlags K V flags' (kv_record K V flags k v @ rest) = Some (kv_record K V flags' k v @ rest)"
proof -
  let ?n = "length (sz_Pack K k []) + length (sz_Pack V v [])"
  obtain pad where p: "kv_record K V flags k v = sz_Pack K k [] @ sz_Pack V v [] @ flags # pad"
    "length (kv_record K V flags k v) = allign (?n + 1)" using record_eq by blast
  show "UnpackKey K (kv_record K V flags k v @ rest) = Some k" by (simp add: UnpackKey_def p(1) key.unpack_pack[OF v(1)])
  show "KeyValPair_Unpack K V (kv_record K V flags k v @ rest) = Some (k, v, ?n)"
    by (simp add: KeyValPair_Unpack_def p(1) key.unpack_pack[OF v(1)] val.unpack_pack[OF v(2)])
  show "GetKeyValuePackSize K V (kv_record K V flags k v @ rest) = Some (length (kv_record K V flags k v))"
    by (simp add: GetKeyValuePackSize_def record_len[OF v] p(2))
  show "GetFlags K V (kv_record K V flags k v @ rest) = Some flags"
    unfolding GetFlags_def record_len[OF v] by (simp add: p(1) nth_append)
  have "(kv_record K V flags k v)[?n := flags'] = kv_record K V flags' k v" by (simp add: kv_record_def)
  moreover have "?n < length (kv_record K V flags k v)" using p(2) allign_gt[of ?n] by simp
  ultimately show "SetFlags K V flags' (kv_record K V flags k v @ rest) = Some (kv_record K V flags' k v @ rest)"
    unfolding SetFlags_def record_len[OF v] by (simp add: list_update_append)
qed

end

interpretation string_pair: pair_serializer string_serializer valid_string string_serializer valid_string
  by unfold_locales

interpretation u64_string_pair: pair_serializer u64_serializer "\<lambda>_. True" string_serializer valid_string
  by unfold_locales

end
