(* ===== verification/RdictFile.thy ===== *)
theory RdictFile
  imports Rdict RdictSerial
begin

text \<open>
  The mapped file of \<^verbatim>\<open>rdict/mmap_file.cc\<close> and the dictionary of \<^verbatim>\<open>rdict/rdict.h\<close> in its general form, whose buckets hold
  the places of their keys and values in that file. What the operating system answers is an argument of
  the operations that ask it. \<open>None\<close> means that an operation does not return or accesses memory outside of the
  buckets or of the data written so far.
\<close>

section \<open>The mapped file\<close>

definition kSegmentSize :: nat where
  "kSegmentSize = 64 * 1024 * 1024"

text \<open>The bytes up to the write offset, and the space that is mapped and reserved.\<close>

record MmapFile =
  mf_path :: string
  mf_bytes :: "byte list"
  mf_capacity :: nat
  mf_reserved :: nat
  mf_readonly :: bool

abbreviation GetWriteOffset :: "MmapFile \<Rightarrow> nat" where
  "GetWriteOffset f \<equiv> length (mf_bytes f)"

text \<open>The answers of the operating system to one operation on the file.\<close>

record sys =
  sys_open :: bool
  sys_fstat :: "nat option"
  sys_truncate :: bool
  sys_reserve :: bool
  sys_mmap :: bool

text \<open>\<^verbatim>\<open>Init\<close> gets the contents of the file at its path, which is empty when opening creates it.\<close>

definition MmapFile_Init :: "sys \<Rightarrow> string \<Rightarrow> nat \<Rightarrow> bool \<Rightarrow> byte list \<Rightarrow> Status + MmapFile" where
  "MmapFile_Init s path reserved readonly data =
     (if \<not> sys_open s then Inl (InvalidArgument (''invalid segment file path:'' @ path))
      else case sys_fstat s of
             None \<Rightarrow> Inl (Errno (''fstat failed for  file path:'' @ path))
           | Some _ \<Rightarrow>
               let st_size = length data;
                   file_size = (if readonly then st_size
                                else if st_size < kSegmentSize then kSegmentSize
                                else let rest = st_size mod kSegmentSize in if 0 < rest then st_size + (kSegmentSize - rest) else st_size)
               in if \<not> readonly \<and> \<not> sys_truncate s then Inl (Errno (''truncate failed for  file path:'' @ path))
                  else if \<not> sys_reserve s then Inl (Errno ''create space'')
                  else if \<not> sys_mmap s then Inl (Errno ''mmap file failed'')
                  else Inr \<lparr>mf_path = path, mf_bytes = data, mf_capacity = file_size,
                            mf_reserved = (if readonly then file_size else max reserved file_size), mf_readonly = False\<rparr>)"

definition ExtendBuffer :: "sys \<Rightarrow> nat \<Rightarrow> MmapFile \<Rightarrow> Status \<times> MmapFile" where
  "ExtendBuffer s len f =
     (let extend_len = (len + kSegmentSize) div kSegmentSize * kSegmentSize;
          new_file_len = mf_capacity f + extend_len
      in if mf_reserved f < new_file_len then (InvalidArgument ''Too large data to fit in reserved space.'', f)
         else if \<not> sys_open s then (InvalidArgument (''invalid mmap file path:'' @ mf_path f), f)
         else case sys_fstat s of
                None \<Rightarrow> (Errno (''fstat failed for file path:'' @ mf_path f), f)
              | Some file_size \<Rightarrow>
                  if file_size \<noteq> mf_capacity f
                  then (InvalidArgument (''invalid local mmap file path:'' @ mf_path f @ '' with invalid length''), f)
                  else if \<not> sys_truncate s then (Errno (''truncate failed for file path:'' @ mf_path f), f)
                  else if \<not> sys_mmap s then (Errno ''mmap file failed'', f)
                  else (Ok, f\<lparr>mf_capacity := new_file_len\<rparr>))"

definition Add :: "sys \<Rightarrow> byte list \<Rightarrow> MmapFile \<Rightarrow> (Status + nat) \<times> MmapFile" where
  "Add s data f =
     (if mf_readonly f then (Inl (PermissionDenied ''unable to write readonly data''), f)
      else
        case (if mf_capacity f < GetWriteOffset f + length data
              then ExtendBuffer s (GetWriteOffset f + length data - mf_capacity f) f else (Ok, f)) of
          (status, f) \<Rightarrow>
            if status \<noteq> Ok then (Inl status, f)
            else (Inr (GetWriteOffset f), f\<lparr>mf_bytes := mf_bytes f @ data\<rparr>))"

definition ShrinkToFit :: "sys \<Rightarrow> MmapFile \<Rightarrow> (Status + nat) \<times> MmapFile" where
  "ShrinkToFit s f =
     (if sys_truncate s then Inr (GetWriteOffset f) else Inl (Errno ''shrink to fit file truncate failed''), f\<lparr>mf_readonly := True\<rparr>)"

section \<open>The dictionary\<close>

record ('k, 'v) file_params =
  fp_hash :: "'k \<Rightarrow> u64"
  fp_K :: "'k Serializer"
  fp_V :: "'v Serializer"
  fp_cap :: "nat \<Rightarrow> nat"
  fp_estimate :: "nat \<Rightarrow> nat"

record fdict =
  fd_index :: "nat rindex"
  fd_file :: MmapFile

definition GetKeyValData :: "nat \<Rightarrow> byte list \<Rightarrow> byte list" where
  "GetKeyValData offset data = drop offset data"

definition GetKey :: "('k, 'v) file_params \<Rightarrow> byte list \<Rightarrow> nat \<Rightarrow> 'k option" where
  "GetKey F data offset = UnpackKey (fp_K F) (GetKeyValData offset data)"

definition GetValue :: "('k, 'v) file_params \<Rightarrow> byte list \<Rightarrow> nat \<Rightarrow> 'v option" where
  "GetValue F data offset = map_option (\<lambda>(k, v, n). v) (KeyValPair_Unpack (fp_K F) (fp_V F) (GetKeyValData offset data))"

definition GetKeyValFlags :: "('k, 'v) file_params \<Rightarrow> byte list \<Rightarrow> nat \<Rightarrow> byte option" where
  "GetKeyValFlags F data offset = GetFlags (fp_K F) (fp_V F) (GetKeyValData offset data)"

text \<open>The search, which reads a key from the file when the fingerprints agree.\<close>

primrec search_file :: "nat \<Rightarrow> (nat \<Rightarrow> 'k option) \<Rightarrow> nat Bucket list \<Rightarrow> 'k \<Rightarrow> u32 \<Rightarrow> nat \<Rightarrow> search option" where
  "search_file 0 key bs k df i = None"
| "search_file (Suc fuel) key bs k df i =
     (if df \<le> b_df (bs ! i)
      then if df = b_df (bs ! i)
           then
             case key (b_entry (bs ! i)) of
               None \<Rightarrow> None
             | Some k' \<Rightarrow> if k = k' then Some (Found i) else search_file fuel key bs k (dist_inc df) (next_idx (length bs) i)
           else search_file fuel key bs k (dist_inc df) (next_idx (length bs) i)
      else Some (Missing i df))"

definition file_find_key :: "nat \<Rightarrow> ('k, 'v) file_params \<Rightarrow> 'k \<Rightarrow> fdict \<Rightarrow> search option" where
  "file_find_key fuel F k d =
     (let h = fp_hash F k; ix = fd_index d
      in search_file fuel (GetKey F (mf_bytes (fd_file d))) (ix_buckets ix) k (dist_and_fingerprint_from_hash h)
           (bucket_idx_from_hash (m_shifts (meta_of ix)) h))"

definition file_Get :: "nat \<Rightarrow> ('k, 'v) file_params \<Rightarrow> 'k \<Rightarrow> fdict \<Rightarrow> (Status + 'v) option" where
  "file_Get fuel F k d =
     Option.bind (file_find_key fuel F k d) (\<lambda>r. case r of
       Found i \<Rightarrow> map_option Inr (GetValue F (mf_bytes (fd_file d)) (b_entry (ix_buckets (fd_index d) ! i)))
     | Missing i df \<Rightarrow> Some (Inl (NotFound ''not found entry'')))"

definition file_Exists :: "nat \<Rightarrow> ('k, 'v) file_params \<Rightarrow> 'k \<Rightarrow> fdict \<Rightarrow> bool option" where
  "file_Exists fuel F k d = map_option (\<lambda>r. case r of Found i \<Rightarrow> True | Missing i df \<Rightarrow> False) (file_find_key fuel F k d)"

text \<open>The pairs of the file that are still valid enter the buckets, \<open>n\<close> of them.\<close>

function fill_from_data ::
  "nat \<Rightarrow> ('k, 'v) file_params \<Rightarrow> nat \<Rightarrow> byte list \<Rightarrow> nat \<Rightarrow> nat \<Rightarrow> nat Bucket list \<Rightarrow> (Status \<times> nat Bucket list) option" where
  "fill_from_data fuel F shifts data n offset bs =
     (if n = 0 then Some (Ok, bs)
      else if length data \<le> offset then Some (InvalidArgument ''offset overflow'', bs)
      else case GetKeyValFlags F data offset of
             None \<Rightarrow> None
           | Some flags \<Rightarrow>
               (case GetKeyValuePackSize (fp_K F) (fp_V F) (GetKeyValData offset data) of
                  None \<Rightarrow> None
                | Some len \<Rightarrow>
                    if flag_invalid flags then fill_from_data fuel F shifts data n (offset + len) bs
                    else
                      (case GetKey F data offset of
                         None \<Rightarrow> None
                       | Some key \<Rightarrow>
                           (case fill_bucket fuel shifts (\<lambda>_. fp_hash F key) offset bs of
                              None \<Rightarrow> None
                            | Some bs \<Rightarrow> fill_from_data fuel F shifts data (n - 1) (offset + len) bs))))"
  by pat_completeness auto

termination
  by (relation "measure (\<lambda>(fuel, F, shifts, data, n, offset, bs). length data - offset)") (auto dest: pack_size_pos)

declare fill_from_data.simps [simp del]

definition file_clear_and_fill :: "nat \<Rightarrow> ('k, 'v) file_params \<Rightarrow> byte list \<Rightarrow> nat rindex \<Rightarrow> (Status \<times> nat rindex) option" where
  "file_clear_and_fill fuel F data ix =
     (let ix = clear_buckets 0 ix; m = meta_of ix
      in map_option (\<lambda>(status, bs). (status, ix\<lparr>ix_buckets := bs\<rparr>))
           (fill_from_data fuel F (m_shifts m) data (m_size m) 0 (ix_buckets ix)))"

abbreviation set_file :: "MmapFile \<Rightarrow> fdict \<Rightarrow> fdict" where
  "set_file f d \<equiv> d\<lparr>fd_file := f\<rparr>"

text \<open>\<^verbatim>\<open>Update\<close> writes a new pair, marks the old one as invalid and moves the bucket to the new one.\<close>

definition file_Update :: "sys \<Rightarrow> ('k, 'v) file_params \<Rightarrow> nat \<Rightarrow> 'k \<Rightarrow> 'v \<Rightarrow> fdict \<Rightarrow> (Status \<times> fdict) option" where
  "file_Update s F i k v d =
     (case Add s (KeyValPair_Pack (fp_K F) (fp_V F) k v) (fd_file d) of
        (Inl status, f) \<Rightarrow> Some (status, set_file f d)
      | (Inr offset, f) \<Rightarrow>
          let bs = ix_buckets (fd_index d); old = b_entry (bs ! i)
          in map_option (\<lambda>mem. (Ok,
               \<lparr>fd_index = (fd_index d)\<lparr>ix_buckets := bs[i := (bs ! i)\<lparr>b_entry := offset\<rparr>]\<rparr>,
                fd_file = f\<lparr>mf_bytes := take old (mf_bytes f) @ mem\<rparr>\<rparr>))
               (SetFlags (fp_K F) (fp_V F) 1 (GetKeyValData old (mf_bytes f))))"

definition file_Put :: "nat \<Rightarrow> sys \<Rightarrow> ('k, 'v) file_params \<Rightarrow> 'k \<Rightarrow> 'v \<Rightarrow> fdict \<Rightarrow> (Status \<times> fdict) option" where
  "file_Put fuel s F k v d =
     (case file_find_key fuel F k d of
        None \<Rightarrow> None
      | Some (Found i) \<Rightarrow> file_Update s F i k v d
      | Some (Missing i df) \<Rightarrow>
          (case Add s (KeyValPair_Pack (fp_K F) (fp_V F) k v) (fd_file d) of
             (Inl status, f) \<Rightarrow> Some (status, set_file f d)
           | (Inr offset, f) \<Rightarrow>
               map_option (\<lambda>(status, ix). (status, \<lparr>fd_index = ix, fd_file = f\<rparr>))
                 (put_new fuel (file_clear_and_fill fuel F (mf_bytes f)) (fp_cap F) 0 (fp_hash F k) offset i df (fd_index d))))"

text \<open>\<^verbatim>\<open>Merge\<close> enters the pairs of the other file at the places they will have, and then appends that file.\<close>

function merge_from_data ::
  "nat \<Rightarrow> ('k, 'v) file_params \<Rightarrow> byte list \<Rightarrow> nat \<Rightarrow> nat \<Rightarrow> nat \<Rightarrow> nat rindex \<Rightarrow> (Status \<times> nat rindex) option" where
  "merge_from_data fuel F data current n offset ix =
     (if n = 0 then Some (Ok, ix)
      else if length data \<le> offset then Some (InvalidArgument ''offset overflow'', ix)
      else case GetKeyValFlags F data offset of
             None \<Rightarrow> None
           | Some flags \<Rightarrow>
               (case GetKeyValuePackSize (fp_K F) (fp_V F) (GetKeyValData offset data) of
                  None \<Rightarrow> None
                | Some len \<Rightarrow>
                    if flag_invalid flags then merge_from_data fuel F data current n (offset + len) ix
                    else
                      (case GetKey F data offset of
                         None \<Rightarrow> None
                       | Some key \<Rightarrow>
                           (case fill_bucket fuel (m_shifts (meta_of ix)) (\<lambda>_. fp_hash F key) (current + offset) (ix_buckets ix) of
                              None \<Rightarrow> None
                            | Some bs \<Rightarrow> merge_from_data fuel F data current (n - 1) (offset + len) (inc_size (ix\<lparr>ix_buckets := bs\<rparr>))))))"
  by pat_completeness auto

termination
  by (relation "measure (\<lambda>(fuel, F, data, current, n, offset, ix). length data - offset)") (auto dest: pack_size_pos)

declare merge_from_data.simps [simp del]

definition file_Merge :: "nat \<Rightarrow> sys \<Rightarrow> ('k, 'v) file_params \<Rightarrow> bool \<Rightarrow> fdict \<Rightarrow> fdict \<Rightarrow> (Status \<times> fdict) option" where
  "file_Merge fuel s F readonly other d =
     (if readonly then Some (PermissionDenied ''Unable to merge into readonly rdict'', d)
      else
        let total_size = Size (fd_index d) + Size (fd_index other); f = fd_file d; data = mf_bytes (fd_file other)
        in case reserve (file_clear_and_fill fuel F (mf_bytes f)) (fp_cap F) 0 (fp_estimate F total_size) (fd_index d) of
             None \<Rightarrow> None
           | Some (status, ix) \<Rightarrow>
               if status \<noteq> Ok then Some (status, \<lparr>fd_index = ix, fd_file = f\<rparr>)
               else
                 (case merge_from_data fuel F data (GetWriteOffset f) (Size (fd_index other)) 0 ix of
                    None \<Rightarrow> None
                  | Some (status, ix) \<Rightarrow>
                      if status \<noteq> Ok then Some (status, \<lparr>fd_index = ix, fd_file = f\<rparr>)
                      else (case Add s data f of
                              (Inl status, f) \<Rightarrow> Some (status, \<lparr>fd_index = ix, fd_file = f\<rparr>)
                            | (Inr _, f) \<Rightarrow> Some (Ok, \<lparr>fd_index = ix, fd_file = f\<rparr>))))"

text \<open>\<^verbatim>\<open>Init\<close> gets the contents of the data file and the index file.\<close>

definition file_Init ::
  "nat \<Rightarrow> sys \<Rightarrow> ('k, 'v) file_params \<Rightarrow> string \<Rightarrow> nat \<Rightarrow> nat \<Rightarrow> bool \<Rightarrow> byte list \<Rightarrow> nat index_file \<Rightarrow> (Status \<times> fdict option) option" where
  "file_Init fuel s F path_prefix reserved bucket_count readonly data file =
     (case MmapFile_Init s (path_prefix @ ''.data'') reserved readonly data of
        Inl status \<Rightarrow> Some (status, None)
      | Inr f \<Rightarrow>
          map_option (\<lambda>(status, ix). (status, if status = Ok then Some \<lparr>fd_index = ix, fd_file = f\<rparr> else None))
            (if GetWriteOffset f = 0
             then new_buckets (file_clear_and_fill fuel F (mf_bytes f)) (fp_cap F) 0 bucket_count no_index
             else Some (LoadIndex False file)))"

text \<open>\<^verbatim>\<open>Commit\<close>, with the outcome of writing the index file.\<close>

definition file_Commit :: "sys \<Rightarrow> bool \<Rightarrow> fdict \<Rightarrow> Status \<times> fdict" where
  "file_Commit s written d =
     (if \<not> written then (Errno ''write rdict index file failed.'', d)
      else case ShrinkToFit s (fd_file d) of
             (Inl status, f) \<Rightarrow> (status, set_file f d)
           | (Inr _, f) \<Rightarrow> (Ok, set_file f d))"

end
