(* ===== verification/RdictProps.thy ===== *)
theory RdictProps
  imports Rdict
begin

text \<open>
  The dictionary implements a finite map: what every operation does to it, and that every loop of it ends.
\<close>

section \<open>The load factor\<close>

text \<open>
  What the dictionary relies on: the capacity of a table is less than the number of its buckets, at
  least half of it, and grows with it; the load factor, by which \<^verbatim>\<open>Merge\<close> divides, is at least a half.
\<close>

locale load_factor =
  fixes cap :: "nat \<Rightarrow> nat" and estimate :: "nat \<Rightarrow> nat"
  assumes cap_lt: "4 \<le> n \<Longrightarrow> cap n < n"
    and cap_half: "4 \<le> n \<Longrightarrow> n \<le> 2 * cap n"
    and cap_mono: "m \<le> n \<Longrightarrow> cap m \<le> cap n"
    and estimate_ge: "t \<le> estimate t"
    and estimate_le: "estimate t \<le> 2 * t"

definition default_estimate :: "nat \<Rightarrow> nat" where
  "default_estimate t = t * 16777216 div 13421773"

text \<open>The parameters of the flat form, which never changes the default load factor.\<close>

definition flat_params :: "('k \<Rightarrow> u64) \<Rightarrow> 'k \<times> 'v \<Rightarrow> ('k, 'v) dict_params" where
  "flat_params H z = \<lparr>dp_hash = H, dp_cap = default_cap, dp_estimate = default_estimate, dp_zero = z\<rparr>"

lemma default_cap_lt: "4 \<le> n \<Longrightarrow> default_cap n < n"
  by (simp add: default_cap_def less_mult_imp_div_less)

lemma default_cap_half: "4 \<le> n \<Longrightarrow> n \<le> 2 * default_cap n"
  using dividend_less_div_times[of 16777216 "n * 13421773"] by (simp add: default_cap_def)

interpretation default_load: load_factor default_cap default_estimate
proof
  show "default_cap n < n" "n \<le> 2 * default_cap n" if "4 \<le> n" for n
    using that by (simp_all add: default_cap_lt default_cap_half)
  show "default_cap m \<le> default_cap n" if "m \<le> n" for m n
    using that by (simp add: default_cap_def div_le_mono)
  show "t \<le> default_estimate t" for t
    using div_le_mono[of "t * 13421773" "t * 16777216" 13421773] by (simp add: default_estimate_def)
  show "default_estimate t \<le> 2 * t" for t
    using div_le_mono[of "t * 16777216" "2 * t * 13421773" 13421773] by (simp add: default_estimate_def)
qed

section \<open>The invariant\<close>

definition index_inv :: "(nat \<Rightarrow> nat) \<Rightarrow> ('e \<Rightarrow> u64) \<Rightarrow> 'e rindex \<Rightarrow> bool" where
  "index_inv cap H ix \<longleftrightarrow>
     ix_meta ix \<noteq> None
     \<and> (let m = meta_of ix; bs = ix_buckets ix in
        table_wf (m_shifts m) H bs
        \<and> m_num_buckets m = length bs \<and> m_max_bucket_capacity m = cap (length bs)
        \<and> m_size m = length (entries bs) \<and> m_size m \<le> cap (length bs) + 1)"

abbreviation rdict_inv :: "('k, 'v) dict_params \<Rightarrow> ('k \<times> 'v) rindex \<Rightarrow> bool" where
  "rdict_inv D \<equiv> index_inv (dp_cap D) (entry_hash D)"

definition unique_keys :: "('k \<times> 'v) rindex \<Rightarrow> bool" where
  "unique_keys ix \<longleftrightarrow> distinct (map fst (entries (ix_buckets ix)))"

definition contents :: "('k \<times> 'v) rindex \<Rightarrow> 'k \<rightharpoonup> 'v" where
  "contents ix = map_of (entries (ix_buckets ix))"

lemma entries_nth: "x \<in> set (entries bs) \<longleftrightarrow> (\<exists>i < length bs. b_df (bs ! i) \<noteq> 0 \<and> b_entry (bs ! i) = x)"
  by (auto simp: entries_def in_set_conv_nth)

lemma index_invD:
  assumes "index_inv cap H ix"
  shows "table_wf (m_shifts (meta_of ix)) H (ix_buckets ix)" "shifts_ok (m_shifts (meta_of ix)) (length (ix_buckets ix))"
    "m_num_buckets (meta_of ix) = length (ix_buckets ix)" "m_max_bucket_capacity (meta_of ix) = cap (length (ix_buckets ix))"
    "m_size (meta_of ix) = length (entries (ix_buckets ix))" "m_size (meta_of ix) \<le> cap (length (ix_buckets ix)) + 1"
    "ix_meta ix = Some (meta_of ix)"
  using assms by (auto simp: index_inv_def Let_def table_wf_def)

lemma perm_keys: "mset xs = mset ys \<Longrightarrow> distinct (map fst xs) \<longleftrightarrow> distinct (map fst ys)"
  by (metis mset_eq_imp_distinct_iff mset_map)

lemma perm_map_of: "mset xs = mset ys \<Longrightarrow> distinct (map fst xs) \<Longrightarrow> map_of xs = map_of ys"
  by (metis map_of_inject_set perm_keys set_mset_mset)

section \<open>Looking up\<close>

lemma find_key_result:
  assumes inv: "rdict_inv D ix" and fuel: "length (ix_buckets ix) < fuel"
  shows "(\<exists>j. find_key fuel D k ix = Some (Found j) \<and> j < length (ix_buckets ix) \<and> b_df (ix_buckets ix ! j) \<noteq> 0
       \<and> fst (b_entry (ix_buckets ix ! j)) = k)
    \<or> k \<notin> fst ` set (entries (ix_buckets ix))
      \<and> (\<exists>j df t. find_key fuel D k ix = Some (Missing j df) \<and> open_place (m_shifts (meta_of ix)) (ix_buckets ix) (dp_hash D k) t df j)"
  using search_finds[where hash = "dp_hash D" and key = fst, OF index_invD(1)[OF inv] fuel refl, of k]
  unfolding find_key_def Let_def by blast

lemma contents_found:
  assumes "unique_keys ix" and "j < length (ix_buckets ix)" and "b_df (ix_buckets ix ! j) \<noteq> 0"
  shows "contents ix (fst (b_entry (ix_buckets ix ! j))) = Some (snd (b_entry (ix_buckets ix ! j)))"
proof -
  have "b_entry (ix_buckets ix ! j) \<in> set (entries (ix_buckets ix))" unfolding entries_nth using assms(2,3) by blast
  then show ?thesis using assms(1) by (simp add: contents_def unique_keys_def)
qed

lemma contents_missing: "k \<notin> fst ` set (entries (ix_buckets ix)) \<Longrightarrow> contents ix k = None"
  by (simp add: contents_def map_of_eq_None_iff)

lemma Get_result:
  assumes "rdict_inv D ix" and "unique_keys ix" and "length (ix_buckets ix) < fuel"
  shows "Get fuel D k ix = Some (case contents ix k of None \<Rightarrow> Inl (NotFound ''not found entry'') | Some v \<Rightarrow> Inr v)"
  using find_key_result[OF assms(1,3), of k] contents_found[OF assms(2)] contents_missing[of k ix] by (auto simp: Get_def)

lemma Exists_result:
  assumes "rdict_inv D ix" and "length (ix_buckets ix) < fuel"
  shows "Exists fuel D k ix = Some (k \<in> fst ` set (entries (ix_buckets ix)))"
proof -
  have "k \<in> fst ` set (entries (ix_buckets ix))"
    if "j < length (ix_buckets ix)" "b_df (ix_buckets ix ! j) \<noteq> 0" "fst (b_entry (ix_buckets ix ! j)) = k" for j
    using that entries_nth[of "b_entry (ix_buckets ix ! j)" "ix_buckets ix"] by blast
  then show ?thesis using find_key_result[OF assms, of k] by (auto simp: Exists_def)
qed

lemma keys_contents: "fst ` set (entries (ix_buckets ix)) = dom (contents ix)"
  by (simp add: contents_def dom_map_of_conv_image_fst)

lemma Size_result: "rdict_inv D ix \<Longrightarrow> unique_keys ix \<Longrightarrow> Size ix = card (dom (contents ix))"
  using index_invD(5)[of "dp_cap D" "entry_hash D" ix] distinct_card[of "map fst (entries (ix_buckets ix))"]
  by (simp add: Size_def unique_keys_def contents_def dom_map_of_conv_image_fst)

section \<open>Rehashing\<close>

lemma entries_Cons: "entries (b # bs) = (if b_df b \<noteq> 0 then b_entry b # entries bs else entries bs)"
  by (simp add: entries_def)

lemma fill_from_buckets_result:
  assumes "table_wf sh H bs" and "length (entries bs) + length (entries old) \<le> length bs" and "length bs < fuel" and "n = length (entries old)"
  shows "\<exists>bs'. fill_from_buckets fuel sh H n old bs = Some bs' \<and> table_wf sh H bs' \<and> length bs' = length bs
    \<and> mset (entries bs') = mset (entries bs) + mset (entries old)"
  using assms
proof (induction old arbitrary: bs n)
  case Nil
  then show ?case by (simp add: fill_from_buckets.simps entries_def)
next
  case (Cons b old)
  show ?case
  proof (cases "b_df b = 0")
    case True
    then show ?thesis
      using Cons.IH[of bs n] Cons.prems by (cases "n = 0") (auto simp: fill_from_buckets.simps[of _ _ _ _ "b # old"] entries_Cons fill_from_buckets.simps[of _ _ _ 0])
  next
    case False
    have e: "has_empty bs" unfolding has_empty_iff using Cons.prems(2) False by (simp add: entries_Cons)
    obtain bs1 where b1: "fill_bucket fuel sh H (b_entry b) bs = Some bs1" "table_wf sh H bs1" "length bs1 = length bs"
      "mset (entries bs1) = add_mset (b_entry b) (mset (entries bs))"
      using fill_bucket_result[OF Cons.prems(1) e Cons.prems(3)] by blast
    have "length (entries bs1) = Suc (length (entries bs))" using arg_cong[OF b1(4), of size] by simp
    then obtain bs2 where "fill_from_buckets fuel sh H (length (entries old)) old bs1 = Some bs2" "table_wf sh H bs2" "length bs2 = length bs1"
      "mset (entries bs2) = mset (entries bs1) + mset (entries old)"
      using Cons.IH[OF b1(2), of "length (entries old)"] Cons.prems(2,3) False b1(3) by (auto simp: entries_Cons)
    then show ?thesis using Cons.prems(4) False b1 by (simp add: fill_from_buckets.simps[of _ _ _ _ "b # old"] entries_Cons)
  qed
qed

text \<open>What a form of the dictionary has to do when it fills new buckets with its entries \<open>M\<close>.\<close>

definition refills :: "nat \<Rightarrow> (nat \<Rightarrow> nat) \<Rightarrow> ('e \<Rightarrow> u64) \<Rightarrow> 'e multiset \<Rightarrow> ('e rindex \<Rightarrow> (Status \<times> 'e rindex) option) \<Rightarrow> bool" where
  "refills fuel cap H M refill \<longleftrightarrow>
     (\<forall>ix m. ix_meta ix = Some m \<and> m_size m = size M \<and> shifts_ok (m_shifts m) (m_num_buckets m)
        \<and> m_max_bucket_capacity m = cap (m_num_buckets m) \<and> size M \<le> m_num_buckets m \<and> size M \<le> cap (m_num_buckets m) + 1
        \<and> m_num_buckets m < fuel \<longrightarrow>
        (\<exists>ix'. refill ix = Some (Ok, ix') \<and> index_inv cap H ix' \<and> mset (entries (ix_buckets ix')) = M \<and> ix_meta ix' = Some m))"

lemma refillsD:
  assumes "refills fuel cap H M refill" and "ix_meta ix = Some m" and "m_size m = size M" and "shifts_ok (m_shifts m) (m_num_buckets m)"
    and "m_max_bucket_capacity m = cap (m_num_buckets m)" and "size M \<le> m_num_buckets m" and "size M \<le> cap (m_num_buckets m) + 1"
    and "m_num_buckets m < fuel"
  shows "\<exists>ix'. refill ix = Some (Ok, ix') \<and> index_inv cap H ix' \<and> mset (entries (ix_buckets ix')) = M \<and> ix_meta ix' = Some m"
  using assms unfolding refills_def by blast

text \<open>Buckets that were cleared and filled by the table's own operations.\<close>

lemma refilled:
  assumes "ix_meta ix = Some m" and "table_wf (m_shifts m) H bs" and "length bs = m_num_buckets m" and "mset (entries bs) = M"
    and "m_size m = size M" and "m_max_bucket_capacity m = cap (m_num_buckets m)" and "size M \<le> cap (m_num_buckets m) + 1"
  shows "index_inv cap H (ix\<lparr>ix_buckets := bs\<rparr>)"
  using assms by (auto simp: index_inv_def Let_def)

lemma flat_refills:
  fixes H :: "'a \<Rightarrow> u64"
  shows "refills fuel cap H (mset (entries old)) (clear_and_fill_buckets_from_values fuel H z old)"
  unfolding refills_def
proof (intro allI impI, elim conjE)
  fix ix :: "'a rindex" and m
  assume m: "ix_meta ix = Some m" "m_size m = size (mset (entries old))" "shifts_ok (m_shifts m) (m_num_buckets m)"
      "m_max_bucket_capacity m = cap (m_num_buckets m)"
    and room: "size (mset (entries old)) \<le> m_num_buckets m" "size (mset (entries old)) \<le> cap (m_num_buckets m) + 1" and fuel: "m_num_buckets m < fuel"
  let ?bs = "replicate (m_num_buckets m) (zero_bucket z)"
  obtain bs where bs: "fill_from_buckets fuel (m_shifts m) H (m_size m) old ?bs = Some bs" "table_wf (m_shifts m) H bs"
    "length bs = m_num_buckets m" "mset (entries bs) = mset (entries old)"
    using fill_from_buckets_result[where old = old and fuel = fuel and n = "m_size m", OF empty_table_wf(1)[OF m(3), of H z]]
      m(2) room(1) fuel by (auto simp: empty_table_wf(2))
  then show "\<exists>ix'. clear_and_fill_buckets_from_values fuel H z old ix = Some (Ok, ix') \<and> index_inv cap H ix'
    \<and> mset (entries (ix_buckets ix')) = mset (entries old) \<and> ix_meta ix' = Some m"
    using refilled[where cap = cap, OF m(1) bs(2,3,4) m(2,4) room(2)] m(1) by (simp add: clear_and_fill_buckets_from_values_def clear_buckets_def Let_def)
qed

lemma calc_num_buckets_small: "41 \<le> sh \<Longrightarrow> calc_num_buckets sh = 2 ^ (64 - sh)" "41 \<le> sh \<Longrightarrow> calc_num_buckets sh \<noteq> max_bucket_count"
proof -
  assume "41 \<le> sh"
  then have lt: "(2 :: nat) ^ (64 - sh) < 2 ^ 63" by (intro power_strict_increasing) auto
  then show "calc_num_buckets sh = 2 ^ (64 - sh)" "calc_num_buckets sh \<noteq> max_bucket_count"
    by (simp_all add: calc_num_buckets_def max_bucket_count_def max_size_def)
qed

context load_factor
begin

lemma small_table:
  assumes "index_inv cap H ix" and "length (ix_buckets ix) \<le> 2 ^ 22"
  shows "42 \<le> m_shifts (meta_of ix)" "m_shifts (meta_of ix) \<le> 62" "m_max_bucket_capacity (meta_of ix) \<noteq> max_bucket_count"
proof -
  have ok: "shifts_ok (m_shifts (meta_of ix)) (length (ix_buckets ix))" by (rule index_invD(2)[OF assms(1)])
  then have "(2 :: nat) ^ (64 - m_shifts (meta_of ix)) \<le> 2 ^ 22" using assms(2) by (simp add: shifts_ok_def)
  then have "64 - m_shifts (meta_of ix) \<le> 22" by (simp only: power_increasing_iff)
  then show "42 \<le> m_shifts (meta_of ix)" "m_shifts (meta_of ix) \<le> 62" using ok by (simp_all add: shifts_ok_def)
  have "cap (length (ix_buckets ix)) < 2 ^ 63" using cap_lt[OF shifts_bound(1)[OF ok]] assms(2) by simp
  then show "m_max_bucket_capacity (meta_of ix) \<noteq> max_bucket_count"
    unfolding index_invD(4)[OF assms(1)] by (simp add: max_bucket_count_def max_size_def)
qed

lemma increase_size_result:
  assumes inv: "index_inv cap H ix" and r: "refills fuel cap H (mset (entries (ix_buckets ix))) refill" and small: "length (ix_buckets ix) \<le> 2 ^ 22" and fuel: "2 * length (ix_buckets ix) < fuel"
  shows "\<exists>ix'. increase_size refill cap z ix = Some (Ok, ix') \<and> index_inv cap H ix'
    \<and> mset (entries (ix_buckets ix')) = mset (entries (ix_buckets ix)) \<and> length (ix_buckets ix') = 2 * length (ix_buckets ix)"
proof -
  let ?m = "meta_of ix" and ?n = "length (ix_buckets ix)"
  let ?sh = "m_shifts ?m - 1"
  note s = small_table[OF inv small]
  have ok: "shifts_ok (m_shifts ?m) ?n" by (rule index_invD(2)[OF inv])
  have "64 - ?sh = Suc (64 - m_shifts ?m)" using s by simp
  then have n2: "(2 :: nat) ^ (64 - ?sh) = 2 * ?n" using ok by (simp add: shifts_ok_def)
  have c: "calc_num_buckets ?sh = 2 * ?n" "calc_num_buckets ?sh \<noteq> max_bucket_count" using calc_num_buckets_small[of ?sh] s n2 by auto
  let ?m' = "\<lparr>m_size = m_size ?m, m_num_buckets = 2 * ?n, m_max_bucket_capacity = cap (2 * ?n), m_shifts = ?sh\<rparr>"
  let ?ix = "allocate_buckets_from_shift (cap) z 0 (deallocate_buckets (ix\<lparr>ix_meta := Some (?m\<lparr>m_shifts := ?sh\<rparr>)\<rparr>))"
  have a: "ix_meta ?ix = Some ?m'" using c by (simp add: allocate_buckets_from_shift_def deallocate_buckets_def Let_def)
  have size: "length (entries (ix_buckets ix)) \<le> ?n" using index_invD(5,6)[OF inv] cap_lt[OF shifts_bound(1)[OF ok]] by simp
  have ok2: "shifts_ok ?sh (2 * ?n)" unfolding shifts_ok_def n2[symmetric] using s(1,2) by linarith
  have half: "?n \<le> cap (2 * ?n)" using cap_half[of "2 * ?n"] shifts_bound(1)[OF ok] by simp
  obtain ix' where ix': "refill ?ix = Some (Ok, ix')" "index_inv cap H ix'"
    "mset (entries (ix_buckets ix')) = mset (entries (ix_buckets ix))" "ix_meta ix' = Some ?m'"
    using refillsD[OF r a] ok2 half index_invD(5)[OF inv] size fuel by auto
  then have "length (ix_buckets ix') = 2 * ?n" using index_invD(3)[OF ix'(2)] by simp
  then show ?thesis using s(3) ix' by (simp add: increase_size_def Let_def)
qed

end

section \<open>Storing\<close>

lemma put_at_result:
  assumes inv: "index_inv cap H ix" and size: "m_size (meta_of ix) \<le> cap (length (ix_buckets ix))" "m_size (meta_of ix) < length (ix_buckets ix)"
    and o: "open_place (m_shifts (meta_of ix)) (ix_buckets ix) (H e) t df j" and fuel: "length (ix_buckets ix) \<le> fuel"
  shows "\<exists>ix'. put_at fuel e j df ix = Some ix' \<and> index_inv cap H ix' \<and> length (ix_buckets ix') = length (ix_buckets ix)
    \<and> mset (entries (ix_buckets ix')) = add_mset e (mset (entries (ix_buckets ix)))"
proof -
  note i = index_invD[OF inv]
  have e: "has_empty (ix_buckets ix)" unfolding has_empty_iff using size(2) i(5) by simp
  obtain bs where bs: "place_and_shift_up fuel \<lparr>b_entry = e, b_df = df\<rparr> j (ix_buckets ix) = Some bs"
    "table_wf (m_shifts (meta_of ix)) H bs" "length bs = length (ix_buckets ix)"
    "mset (entries bs) = add_mset e (mset (entries (ix_buckets ix)))"
    using open_place_result[where H = H and x = e and t = t and df = df and j = j, OF i(1) e o fuel] by blast
  have "length (entries bs) = Suc (length (entries (ix_buckets ix)))" using arg_cong[OF bs(4), of size] by simp
  then show ?thesis using bs i size(1) by (auto simp: put_at_def inc_size_def index_inv_def Let_def)
qed

context load_factor
begin

lemma put_new_result:
  assumes inv: "index_inv cap H ix" and r: "refills fuel cap H (mset (entries (ix_buckets ix))) refill"
    and small: "length (ix_buckets ix) \<le> 2 ^ 22" and fuel: "2 * length (ix_buckets ix) < fuel"
    and o: "open_place (m_shifts (meta_of ix)) (ix_buckets ix) (H e) t df j"
  shows "\<exists>ix'. put_new fuel refill cap z (H e) e j df ix = Some (Ok, ix') \<and> index_inv cap H ix'
    \<and> mset (entries (ix_buckets ix')) = add_mset e (mset (entries (ix_buckets ix)))
    \<and> length (ix_buckets ix') \<le> max (length (ix_buckets ix)) (4 * Size ix)"
proof -
  let ?bs = "ix_buckets ix" and ?n = "length (ix_buckets ix)"
  note i = index_invD[OF inv]
  have n4: "4 \<le> ?n" by (rule shifts_bound(1)[OF i(2)])
  show ?thesis
  proof (cases "is_full ix")
    case False
    then have size: "m_size (meta_of ix) \<le> cap ?n" using i(4) by (simp add: is_full_def)
    then have "m_size (meta_of ix) < ?n" using cap_lt[OF n4] by simp
    then show ?thesis using put_at_result[OF inv size _ o, of fuel] fuel False by (auto simp: put_new_def)
  next
    case True
    obtain ix1 where ix1: "increase_size refill cap z ix = Some (Ok, ix1)" "index_inv cap H ix1"
      "mset (entries (ix_buckets ix1)) = mset (entries ?bs)" "length (ix_buckets ix1) = 2 * ?n"
      using increase_size_result[OF inv r small fuel] by blast
    obtain j1 df1 t1 where p: "next_while_less fuel (m_shifts (meta_of ix1)) (ix_buckets ix1) (H e) = Some (j1, df1)"
      "open_place (m_shifts (meta_of ix1)) (ix_buckets ix1) (H e) t1 df1 j1"
      using next_while_less_result[OF index_invD(1)[OF ix1(2)], of fuel "H e"] ix1(4) fuel by auto
    have "m_size (meta_of ix1) = m_size (meta_of ix)" using index_invD(5)[OF ix1(2)] i(5) arg_cong[OF ix1(3), of size] by simp
    moreover have "m_size (meta_of ix) \<le> ?n" using i(6) cap_lt[OF n4] by simp
    moreover have "?n \<le> cap (2 * ?n)" using cap_half[of "2 * ?n"] n4 by simp
    ultimately obtain ix2 where ix2: "put_at fuel e j1 df1 ix1 = Some ix2" "index_inv cap H ix2" "length (ix_buckets ix2) = 2 * ?n"
      "mset (entries (ix_buckets ix2)) = add_mset e (mset (entries ?bs))"
      using put_at_result[OF ix1(2) _ _ p(2), of fuel] fuel ix1(3,4) n4 by auto
    have "2 * ?n \<le> 4 * Size ix" using True i(4) cap_half[OF n4] by (simp add: is_full_def Size_def)
    then show ?thesis using ix1(1) p(1) ix2 True by (simp add: put_new_def)
  qed
qed

end

lemma Update_result:
  assumes inv: "rdict_inv D ix" and u: "unique_keys ix" and j: "j < length (ix_buckets ix)" "b_df (ix_buckets ix ! j) \<noteq> 0"
    "fst (b_entry (ix_buckets ix ! j)) = k"
  shows "rdict_inv D (Update j v ix)" "unique_keys (Update j v ix)" "contents (Update j v ix) = (contents ix)(k \<mapsto> v)"
    "length (ix_buckets (Update j v ix)) = length (ix_buckets ix)" "Size (Update j v ix) = Size ix"
proof -
  let ?bs = "ix_buckets ix" and ?b = "(ix_buckets ix ! j)\<lparr>b_entry := (k, v)\<rparr>"
  have up: "Update j v ix = ix\<lparr>ix_buckets := ?bs[j := ?b]\<rparr>" using j(3) by (simp add: Update_def Let_def)
  have df: "b_df (?bs[j := ?b] ! i) = b_df (?bs ! i)" if "i < length ?bs" for i using that j(1) by (simp add: nth_list_update)
  have f: "fst (b_entry (?bs[j := ?b] ! i)) = fst (b_entry (?bs ! i))" if "i < length ?bs" for i
    using that j(1,3) by (auto simp: nth_list_update)
  have order: "in_order (?bs[j := ?b]) = in_order ?bs" by (simp add: in_order_def df)
  have ok: "bucket_ok sh (entry_hash D) n i (?bs[j := ?b] ! i) = bucket_ok sh (entry_hash D) n i (?bs ! i)" if "i < length ?bs" for i sh n
    using df[OF that] f[OF that] by (simp add: bucket_ok_def)
  have wf: "table_wf sh (entry_hash D) (?bs[j := ?b]) = table_wf sh (entry_hash D) ?bs" for sh
    by (simp add: table_wf_def order ok df)
  let ?p = "entries (take j ?bs)" and ?q = "entries (drop (Suc j) ?bs)"
  have e: "entries ?bs = ?p @ (k, snd (b_entry (?bs ! j))) # ?q" "entries (?bs[j := ?b]) = ?p @ (k, v) # ?q"
    using entries_split[OF j(1)] entries_split[of j "?bs[j := ?b]"] j by (simp_all, metis prod.collapse)
  have "k \<notin> fst ` set ?p" using u by (auto simp: unique_keys_def e)
  then have k: "map_of ?p k = None" by (simp add: map_of_eq_None_iff)
  show "rdict_inv D (Update j v ix)" using inv by (simp add: index_inv_def Let_def up wf e)
  show "unique_keys (Update j v ix)" using u by (simp add: unique_keys_def up e)
  show "contents (Update j v ix) = (contents ix)(k \<mapsto> v)"
    using k by (auto simp: contents_def up e map_add_def fun_eq_iff split: option.splits)
  show "length (ix_buckets (Update j v ix)) = length ?bs" "Size (Update j v ix) = Size ix" by (simp_all add: up Size_def)
qed

lemma add_entry_contents:
  assumes "unique_keys ix" and "mset (entries (ix_buckets ix')) = add_mset (k, v) (mset (entries (ix_buckets ix)))"
    and "k \<notin> fst ` set (entries (ix_buckets ix))"
  shows "unique_keys ix' \<and> contents ix' = (contents ix)(k \<mapsto> v)"
proof -
  have m: "mset (entries (ix_buckets ix')) = mset ((k, v) # entries (ix_buckets ix))" using assms(2) by simp
  have u: "distinct (map fst ((k, v) # entries (ix_buckets ix)))" using assms(1,3) by (simp add: unique_keys_def)
  then show ?thesis using perm_map_of[OF m] perm_keys[OF m] by (simp add: unique_keys_def contents_def)
qed

text \<open>The flat form of the dictionary.\<close>

locale flat_dict = load_factor "dp_cap D" "dp_estimate D" for D :: "('k, 'v) dict_params"
begin

lemma Put_result:
  assumes inv: "rdict_inv D ix" and u: "unique_keys ix" and small: "length (ix_buckets ix) \<le> 2 ^ 22" and fuel: "2 * length (ix_buckets ix) < fuel"
  shows "\<exists>ix'. Put fuel D k v ix = Some (Ok, ix') \<and> rdict_inv D ix' \<and> unique_keys ix' \<and> contents ix' = (contents ix)(k \<mapsto> v)
    \<and> length (ix_buckets ix') \<le> max (length (ix_buckets ix)) (4 * Size ix)"
proof -
  let ?bs = "ix_buckets ix" and ?n = "length (ix_buckets ix)"
  from find_key_result[OF inv, of fuel k] fuel consider
    (found) j where "find_key fuel D k ix = Some (Found j)" "j < ?n" "b_df (?bs ! j) \<noteq> 0" "fst (b_entry (?bs ! j)) = k"
    | (new) j df t where "k \<notin> fst ` set (entries ?bs)" "find_key fuel D k ix = Some (Missing j df)"
        "open_place (m_shifts (meta_of ix)) ?bs (dp_hash D k) t df j" by fastforce
  then show ?thesis
  proof cases
    case found
    then show ?thesis using Update_result[OF inv u found(2-4), of v] by (auto simp: Put_def)
  next
    case new
    have r: "refills fuel (dp_cap D) (entry_hash D) (mset (entries ?bs)) (refill_flat fuel D ix)"
      unfolding refill_flat_def by (rule flat_refills)
    obtain ix' where "put_new fuel (refill_flat fuel D ix) (dp_cap D) (dp_zero D) (dp_hash D k) (k, v) j df ix = Some (Ok, ix')"
      "rdict_inv D ix'" "mset (entries (ix_buckets ix')) = add_mset (k, v) (mset (entries ?bs))" "length (ix_buckets ix') \<le> max ?n (4 * Size ix)"
      using put_new_result[where H = "entry_hash D" and e = "(k, v)", OF inv r small fuel] new(3) by fastforce
    then show ?thesis using add_entry_contents[OF u _ new(1)] new(2) by (auto simp: Put_def)
  qed
qed

end

interpretation flat: flat_dict "flat_params H z" for H z
  by (simp add: flat_dict_def flat_params_def default_load.load_factor_axioms)

section \<open>A new dictionary\<close>

lemma Init_result:
  fixes D :: "('k, 'v) dict_params"
  shows "\<exists>ix. Init fuel D 0 NoFile = Some (Ok, ix) \<and> rdict_inv D ix \<and> unique_keys ix
    \<and> contents ix = Map.empty \<and> length (ix_buckets ix) = 4 \<and> Size ix = 0"
proof -
  have "calc_num_buckets 62 = 4" "calc_num_buckets 62 \<noteq> max_bucket_count" using calc_num_buckets_small[of 62] by simp_all
  moreover have "shifts_ok 62 4" by (simp add: shifts_ok_def)
  ultimately show ?thesis
    by (simp add: Init_def LoadIndex_def no_index_def new_buckets_def clear_buckets_def allocate_buckets_from_shift_def Let_def initial_shifts_def index_inv_def
        unique_keys_def contents_def Size_def empty_table_wf)
qed

text \<open>A sequence of calls of \<^verbatim>\<open>Put\<close>.\<close>

fun Puts :: "nat \<Rightarrow> ('k, 'v) dict_params \<Rightarrow> ('k \<times> 'v) list \<Rightarrow> ('k \<times> 'v) rindex \<Rightarrow> (Status list \<times> ('k \<times> 'v) rindex) option" where
  "Puts fuel D [] ix = Some ([], ix)"
| "Puts fuel D ((k, v) # kvs) ix =
     Option.bind (Put fuel D k v ix) (\<lambda>(s, ix). map_option (\<lambda>(ss, ix). (s # ss, ix)) (Puts fuel D kvs ix))"

context flat_dict
begin

lemma Puts_result:
  assumes "rdict_inv D ix" and "unique_keys ix" and "length (ix_buckets ix) \<le> 4 * max 1 (Size ix)"
    and "Size ix + length kvs \<le> 2 ^ 20" and "2 ^ 23 < fuel"
  shows "\<exists>ix'. Puts fuel D kvs ix = Some (replicate (length kvs) Ok, ix') \<and> rdict_inv D ix' \<and> unique_keys ix'
    \<and> contents ix' = contents ix ++ map_of (rev kvs) \<and> length (ix_buckets ix') \<le> 2 ^ 22"
  using assms
proof (induction kvs arbitrary: ix)
  case Nil
  then show ?case by simp
next
  case (Cons kv kvs)
  obtain k v where kv: "kv = (k, v)" by (cases kv)
  have n: "length (ix_buckets ix) \<le> 2 ^ 22" using Cons.prems(3,4) by (auto simp: max_def split: if_splits)
  then have f: "2 * length (ix_buckets ix) < fuel" using Cons.prems(5) by simp
  obtain ix1 where ix1: "Put fuel D k v ix = Some (Ok, ix1)" "rdict_inv D ix1" "unique_keys ix1"
    "contents ix1 = (contents ix)(k \<mapsto> v)" "length (ix_buckets ix1) \<le> max (length (ix_buckets ix)) (4 * Size ix)"
    using Put_result[OF Cons.prems(1,2) n f, of k v] by blast
  have fin: "finite (dom (contents ix))" by (simp add: contents_def finite_dom_map_of)
  have s: "Size ix \<le> Size ix1" "Size ix1 \<le> Suc (Size ix)"
    unfolding Size_result[OF ix1(2,3)] Size_result[OF Cons.prems(1,2)] ix1(4)
    using fin by (simp_all add: card_insert_if)
  have "length (ix_buckets ix1) \<le> 4 * max 1 (Size ix1)" using ix1(5) Cons.prems(3) s by (simp add: max_def split: if_splits)
  moreover have "Size ix1 + length kvs \<le> 2 ^ 20" using s Cons.prems(4) by simp
  moreover have "contents ix1 ++ map_of (rev kvs) = contents ix ++ map_of (rev (kv # kvs))"
    unfolding ix1(4) by (auto simp: kv map_add_def fun_eq_iff split: option.splits)
  ultimately show ?case using Cons.IH[OF ix1(2,3) _ _ Cons.prems(5)] ix1(1) by (auto simp: kv)
qed

end

section \<open>Merging\<close>

lemma merge_buckets_result:
  assumes "rdict_inv D ix" and "Size ix + length (entries other) \<le> dp_cap D (length (ix_buckets ix)) "
    and "dp_cap D (length (ix_buckets ix)) < length (ix_buckets ix)" and "length (ix_buckets ix) < fuel" and "n = length (entries other)"
  shows "\<exists>ix'. merge_buckets fuel (entry_hash D) n other ix = Some ix' \<and> rdict_inv D ix' \<and> length (ix_buckets ix') = length (ix_buckets ix)
    \<and> mset (entries (ix_buckets ix')) = mset (entries (ix_buckets ix)) + mset (entries other)"
  using assms
proof (induction other arbitrary: ix n)
  case Nil
  then show ?case by (simp add: merge_buckets.simps entries_def)
next
  case (Cons b other)
  show ?case
  proof (cases "b_df b = 0")
    case True
    then show ?thesis
      using Cons.IH[of ix n] Cons.prems
      by (cases "n = 0") (auto simp: merge_buckets.simps[of _ _ _ "b # other"] entries_Cons merge_buckets.simps[of _ _ 0])
  next
    case False
    note i = index_invD[OF Cons.prems(1)]
    let ?bs = "ix_buckets ix" and ?sh = "m_shifts (meta_of ix)"
    have size: "Suc (Size ix) + length (entries other) \<le> dp_cap D (length ?bs)" using Cons.prems(2) False by (simp add: entries_Cons)
    have e: "has_empty ?bs" unfolding has_empty_iff using size Cons.prems(3) i(5) by (simp add: Size_def)
    obtain bs1 where b1: "fill_bucket fuel ?sh (entry_hash D) (b_entry b) ?bs = Some bs1" "table_wf ?sh (entry_hash D) bs1"
      "length bs1 = length ?bs" "mset (entries bs1) = add_mset (b_entry b) (mset (entries ?bs))"
      using fill_bucket_result[OF i(1) e Cons.prems(4)] by blast
    let ?ix = "inc_size (ix\<lparr>ix_buckets := bs1\<rparr>)"
    have l: "length (entries bs1) = Suc (length (entries ?bs))" using arg_cong[OF b1(4), of size] by simp
    have ix1: "rdict_inv D ?ix" "ix_buckets ?ix = bs1" "Size ?ix = Suc (Size ix)"
      using b1 l i size by (auto simp: index_inv_def inc_size_def Let_def Size_def)
    obtain ix2 where "merge_buckets fuel (entry_hash D) (length (entries other)) other ?ix = Some ix2" "rdict_inv D ix2"
      "length (ix_buckets ix2) = length ?bs" "mset (entries (ix_buckets ix2)) = mset (entries bs1) + mset (entries other)"
      using Cons.IH[OF ix1(1), of "length (entries other)"] size Cons.prems(3,4) b1(3) unfolding ix1(2,3) by auto
    then show ?thesis using Cons.prems(5) False b1 by (simp add: merge_buckets.simps[of _ _ _ "b # other"] entries_Cons)
  qed
qed

lemma calc_shifts_loop_result:
  assumes "s \<le> cap (calc_num_buckets lo)" and "lo \<le> sh"
  shows "lo \<le> calc_shifts_loop cap s sh \<and> calc_shifts_loop cap s sh \<le> sh \<and> s \<le> cap (calc_num_buckets (calc_shifts_loop cap s sh))"
  using assms
proof (induction cap s sh rule: calc_shifts_loop.induct)
  case (1 cap s sh)
  show ?case
  proof (cases "0 < sh \<and> cap (calc_num_buckets sh) < s")
    case True
    then have "lo \<le> sh - 1" using "1.prems" by (cases "lo = sh") auto
    then have "lo \<le> calc_shifts_loop cap s (sh - 1) \<and> calc_shifts_loop cap s (sh - 1) \<le> sh - 1
      \<and> s \<le> cap (calc_num_buckets (calc_shifts_loop cap s (sh - 1)))"
      using "1.IH" True "1.prems" by blast
    then show ?thesis using True by (auto simp: calc_shifts_loop.simps[of cap s sh])
  next
    case False
    then show ?thesis using "1.prems" by (auto simp: calc_shifts_loop.simps[of cap s sh])
  qed
qed

context load_factor
begin

lemma calc_shifts_result:
  assumes "s \<le> 2 ^ 21"
  shows "42 \<le> calc_shifts_for_size cap s" "calc_shifts_for_size cap s \<le> 62"
    "s \<le> cap (2 ^ (64 - calc_shifts_for_size cap s))"
proof -
  have "2 ^ 21 \<le> cap (2 ^ 22)" using cap_half[of "2 ^ 22"] by simp
  then have "s \<le> cap (calc_num_buckets 42)" using assms calc_num_buckets_small(1)[of 42] by simp
  from calc_shifts_loop_result[where cap = "cap" and lo = 42, OF this, of 62]
  show "42 \<le> calc_shifts_for_size cap s" "calc_shifts_for_size cap s \<le> 62"
    "s \<le> cap (2 ^ (64 - calc_shifts_for_size cap s))"
    using calc_num_buckets_small(1)[of "calc_shifts_for_size cap s"]
    by (simp_all add: calc_shifts_for_size_def initial_shifts_def)
qed

lemma reserve_result:
  assumes inv: "index_inv cap H ix" and refill: "refills fuel cap H (mset (entries (ix_buckets ix))) refill" and capa: "Size ix \<le> capa" "capa \<le> 2 ^ 21" and fuel: "2 ^ 22 < fuel"
  shows "\<exists>ix'. reserve refill cap z capa ix = Some (Ok, ix') \<and> index_inv cap H ix'
    \<and> mset (entries (ix_buckets ix')) = mset (entries (ix_buckets ix)) \<and> capa \<le> cap (length (ix_buckets ix'))
    \<and> length (ix_buckets ix') \<le> max (length (ix_buckets ix)) (2 ^ 22)"
proof -
  note i = index_invD[OF inv]
  let ?m = "meta_of ix" and ?bs = "ix_buckets ix"
  let ?sh = "calc_shifts_for_size cap capa"
  note sh = calc_shifts_result[OF capa(2)]
  obtain m where m: "ix_meta ix = Some m" using i(7) by blast
  have n4: "4 \<le> length ?bs" by (rule shifts_bound(1)[OF i(2)])
  have mn: "min capa max_size = capa" using capa(2) by (simp add: max_size_def)
  have mx: "max capa (m_size ?m) = capa" using capa(1) by (simp add: Size_def)
  have r: "reserve refill cap z capa ix =
    (if ?sh < m_shifts ?m then refill (allocate_buckets_from_shift cap z ?sh (deallocate_buckets ix)) else Some (Ok, ix))"
    using n4 i(3) mx by (auto simp: reserve_def Let_def mn m)
  show ?thesis
  proof (cases "?sh < m_shifts ?m")
    case False
    have "(2 :: nat) ^ (64 - ?sh) \<le> 2 ^ (64 - m_shifts ?m)" using False by (intro power_increasing) auto
    also have "\<dots> = length ?bs" using i(2) by (simp add: shifts_ok_def)
    finally have "capa \<le> cap (length ?bs)" using sh(3) cap_mono le_trans by blast
    then show ?thesis unfolding r using False inv by simp
  next
    case True
    let ?n = "2 ^ (64 - ?sh) :: nat"
    let ?m' = "\<lparr>m_size = m_size ?m, m_num_buckets = ?n, m_max_bucket_capacity = cap ?n, m_shifts = ?sh\<rparr>"
    let ?ix = "allocate_buckets_from_shift cap z ?sh (deallocate_buckets ix)"
    have n: "?n \<le> 2 ^ 22" using sh(1) by (intro power_increasing) auto
    have ok: "shifts_ok ?sh ?n" unfolding shifts_ok_def using sh(1,2) by linarith
    have lt: "cap ?n < ?n" by (rule cap_lt[OF shifts_bound(1)[OF ok]])
    have a: "ix_meta ?ix = Some ?m'" using calc_num_buckets_small[of ?sh] sh(1)
      by (simp add: allocate_buckets_from_shift_def deallocate_buckets_def Let_def m)
    have size: "length (entries ?bs) \<le> capa" using capa(1) i(5) by (simp add: Size_def)
    obtain ix' where ix': "refill ?ix = Some (Ok, ix')" "index_inv cap H ix'"
      "mset (entries (ix_buckets ix')) = mset (entries ?bs)" "ix_meta ix' = Some ?m'"
      using refillsD[OF refill a] ok i(5) size sh(3) lt n fuel by auto
    then have "length (ix_buckets ix') = ?n" using index_invD(3)[OF ix'(2)] by simp
    then show ?thesis unfolding r using True ix' sh(3) n by simp
  qed
qed

end

context flat_dict
begin

lemma Merge_result:
  assumes inv: "rdict_inv D ix" "rdict_inv D other" and size: "Size ix + Size other \<le> 2 ^ 20" and n: "length (ix_buckets ix) \<le> 2 ^ 22"
    and fuel: "2 ^ 22 < fuel"
  shows "\<exists>ix'. Merge fuel D False other ix = Some (Ok, ix') \<and> rdict_inv D ix' \<and> length (ix_buckets ix') \<le> 2 ^ 22
    \<and> mset (entries (ix_buckets ix')) = mset (entries (ix_buckets ix)) + mset (entries (ix_buckets other))"
proof -
  let ?t = "Size ix + Size other"
  have r: "refills fuel (dp_cap D) (entry_hash D) (mset (entries (ix_buckets ix))) (refill_flat fuel D ix)"
    unfolding refill_flat_def by (rule flat_refills)
  have "?t \<le> dp_estimate D ?t" "dp_estimate D ?t \<le> 2 ^ 21" using estimate_ge[of ?t] estimate_le[of ?t] size by simp_all
  then obtain ix1 where ix1: "reserve (refill_flat fuel D ix) (dp_cap D) (dp_zero D) (dp_estimate D ?t) ix = Some (Ok, ix1)" "rdict_inv D ix1"
    "mset (entries (ix_buckets ix1)) = mset (entries (ix_buckets ix))" "dp_estimate D ?t \<le> dp_cap D (length (ix_buckets ix1))"
    "length (ix_buckets ix1) \<le> 2 ^ 22"
    using reserve_result[OF inv(1) r _ _ fuel, of "dp_estimate D ?t" "dp_zero D"] n by auto
  have "Size ix1 = Size ix"
    using arg_cong[OF ix1(3), of size] index_invD(5)[OF inv(1)] index_invD(5)[OF ix1(2)] by (simp add: Size_def)
  then have "Size ix1 + length (entries (ix_buckets other)) \<le> dp_cap D (length (ix_buckets ix1))"
    using ix1(4) \<open>?t \<le> dp_estimate D ?t\<close> index_invD(5)[OF inv(2)] by (simp add: Size_def)
  moreover have "dp_cap D (length (ix_buckets ix1)) < length (ix_buckets ix1)"
    by (rule cap_lt[OF shifts_bound(1)[OF index_invD(2)[OF ix1(2)]]])
  ultimately obtain ix2 where "merge_buckets fuel (entry_hash D) (Size other) (ix_buckets other) ix1 = Some ix2" "rdict_inv D ix2"
    "length (ix_buckets ix2) = length (ix_buckets ix1)"
    "mset (entries (ix_buckets ix2)) = mset (entries (ix_buckets ix1)) + mset (entries (ix_buckets other))"
    using merge_buckets_result[OF ix1(2), of "ix_buckets other" fuel "Size other"] ix1(5) fuel index_invD(5)[OF inv(2)] by (auto simp: Size_def)
  then show ?thesis using ix1 by (simp add: Merge_def Let_def)
qed

end

section \<open>Properties\<close>

text \<open>A dictionary without an index file, after a sequence of \<^verbatim>\<open>Put\<close>s.\<close>

definition dict_of :: "nat \<Rightarrow> ('k, 'v) dict_params \<Rightarrow> ('k \<times> 'v) list \<Rightarrow> (Status list \<times> ('k \<times> 'v) rindex) option" where
  "dict_of fuel D kvs = Option.bind (Init fuel D 0 NoFile) (\<lambda>(_, ix). Puts fuel D kvs ix)"

definition lookup_result :: "'v option \<Rightarrow> Status + 'v" where
  "lookup_result r = (case r of None \<Rightarrow> Inl (NotFound ''not found entry'') | Some v \<Rightarrow> Inr v)"

lemma dict_of_result:
  fixes D :: "('k, 'v) dict_params"
  assumes "flat_dict D" and "length kvs \<le> 2 ^ 20" and "2 ^ 23 < fuel"
  obtains ix where "dict_of fuel D kvs = Some (replicate (length kvs) Ok, ix)" "rdict_inv D ix" "unique_keys ix"
    "contents ix = map_of (rev kvs)" "length (ix_buckets ix) \<le> 2 ^ 22" "Size ix = card (fst ` set kvs)"
proof -
  obtain ix0 where ix0: "Init fuel D 0 NoFile = Some (Ok, ix0)" "rdict_inv D ix0" "unique_keys ix0" "contents ix0 = Map.empty"
    "length (ix_buckets ix0) = 4" "Size ix0 = 0" using Init_result[of fuel D] by blast
  then obtain ix where ix: "Puts fuel D kvs ix0 = Some (replicate (length kvs) Ok, ix)" "rdict_inv D ix" "unique_keys ix"
    "contents ix = map_of (rev kvs)" "length (ix_buckets ix) \<le> 2 ^ 22"
    using flat_dict.Puts_result[OF assms(1) ix0(2,3), of kvs fuel] assms by auto
  moreover have "Size ix = card (fst ` set kvs)" unfolding Size_result[OF ix(2,3)] ix(4) by (simp add: dom_map_of_conv_image_fst)
  ultimately show thesis using that ix0(1) by (simp add: dict_of_def)
qed

lemma dict_of_returns:
  "length kvs \<le> 2 ^ 20 \<Longrightarrow> 2 ^ 23 < fuel \<Longrightarrow> \<exists>s ix. dict_of fuel (flat_params H z) kvs = Some (s, ix)"
  using dict_of_result[OF flat.flat_dict_axioms] by metis

lemma map_of_rev_dom: "dom (map_of (rev kvs)) = fst ` set kvs"
  by (simp add: dom_map_of_conv_image_fst)

text \<open>
  C32. A dictionary is a finite map. Whatever the hash function is, any sequence of at most a million \<^verbatim>\<open>Put\<close>s into a
  new dictionary, with all the searches, displacements and rehashes it causes, ends and succeeds; then
  \<^verbatim>\<open>Get\<close> returns the value that was put last for a key and the error \<^verbatim>\<open>NotFound\<close> for every other key,
  \<^verbatim>\<open>Exists\<close> tells the keys, \<^verbatim>\<open>Size\<close> is their number, and a dictionary that is opened on the index
  that \<^verbatim>\<open>Commit\<close> wrote is the same one.
\<close>

theorem rdict_run:
  assumes "length kvs \<le> 2 ^ 20" and "2 ^ 23 < fuel"
  shows "\<exists>ix. dict_of fuel (flat_params H z) kvs = Some (replicate (length kvs) Ok, ix)
    \<and> (\<forall>k. Get fuel (flat_params H z) k ix = Some (lookup_result (map_of (rev kvs) k)))
    \<and> (\<forall>k. Exists fuel (flat_params H z) k ix = Some (k \<in> fst ` set kvs))
    \<and> Size ix = card (fst ` set kvs)
    \<and> (kvs \<noteq> [] \<longrightarrow> Init fuel (flat_params H z) n (IndexFile ix) = Some (Ok, ix))"
proof -
  obtain ix where ix: "dict_of fuel (flat_params H z) kvs = Some (replicate (length kvs) Ok, ix)" "rdict_inv (flat_params H z) ix"
    "unique_keys ix" "contents ix = map_of (rev kvs)" "length (ix_buckets ix) \<le> 2 ^ 22" "Size ix = card (fst ` set kvs)"
    using dict_of_result[OF flat.flat_dict_axioms assms] by blast
  have f: "length (ix_buckets ix) < fuel" using ix(5) assms(2) by simp
  have "Init fuel (flat_params H z) n (IndexFile ix) = Some (Ok, ix)" if "kvs \<noteq> []"
    using that ix(6) index_invD(7)[OF ix(2)] card_gt_0_iff[of "fst ` set kvs"] by (auto simp: Init_def LoadIndex_def Size_def)
  then show ?thesis
    using ix(1,6) Get_result[OF ix(2,3) f] Exists_result[OF ix(2) f] unfolding keys_contents ix(4) map_of_rev_dom lookup_result_def by simp
qed

theorem rdict_run_witness:
  "length [(7 :: u64, ''a''), (8, ''b''), (7, ''c'')] \<le> 2 ^ 20 \<and> (2 :: nat) ^ 23 < 2 ^ 24
   \<and> (\<exists>ix. dict_of (2 ^ 24) (flat_params wyhash_u64 (0, [])) [(7 :: u64, ''a''), (8, ''b''), (7, ''c'')] = Some ([Ok, Ok, Ok], ix)
     \<and> Get (2 ^ 24) (flat_params wyhash_u64 (0, [])) 7 ix = Some (Inr ''c'') \<and> Size ix = 2)"
  using rdict_run[of "[(7 :: u64, ''a''), (8, ''b''), (7, ''c'')]" "2 ^ 24" wyhash_u64 "(0, [])" 0]
  by (auto simp: lookup_result_def card_insert_if)

text \<open>
  C33. \<^verbatim>\<open>Merge\<close> of two dictionaries with at most a million entries together ends, and afterwards all keys of
  both exist. It adds the sizes up and never looks for a key that both have: \<^verbatim>\<open>Size\<close> is the number
  of the keys, and every key has the value of the dictionary it came from, exactly when
  the two have no key in common. A dictionary that was opened as readonly refuses to merge.
\<close>

theorem rdict_merge:
  assumes "length kvs1 + length kvs2 \<le> 2 ^ 20" and "2 ^ 23 < fuel" and "D = flat_params H z"
    and "dict_of fuel D kvs1 = Some (s1, a)" and "dict_of fuel D kvs2 = Some (s2, b)"
  shows "\<exists>c. Merge fuel D False b a = Some (Ok, c) \<and> Size c = Size a + Size b
    \<and> (\<forall>k. Exists fuel D k c = Some (k \<in> fst ` set (kvs1 @ kvs2)))
    \<and> (Size c = card (fst ` set (kvs1 @ kvs2)) \<longleftrightarrow> fst ` set kvs1 \<inter> fst ` set kvs2 = {})
    \<and> (fst ` set kvs1 \<inter> fst ` set kvs2 = {} \<longrightarrow>
        (\<forall>k. Get fuel D k c = Some (lookup_result (map_of (rev (kvs1 @ kvs2)) k))))
    \<and> Merge fuel D True b a = Some (PermissionDenied ''Unable to merge into readonly rdict'', a)"
proof -
  have D: "flat_dict D" unfolding assms(3) by (rule flat.flat_dict_axioms)
  have a: "rdict_inv D a" "unique_keys a" "contents a = map_of (rev kvs1)" "length (ix_buckets a) \<le> 2 ^ 22" "Size a = card (fst ` set kvs1)"
    using dict_of_result[OF D _ assms(2), of kvs1] assms(1,4) by (metis add_leD1 option.inject snd_conv)+
  have b: "rdict_inv D b" "unique_keys b" "contents b = map_of (rev kvs2)" "Size b = card (fst ` set kvs2)"
    using dict_of_result[OF D _ assms(2), of kvs2] assms(1,5) by (metis add_leD2 option.inject snd_conv)+
  have le: "card (fst ` set kvs) \<le> length kvs" for kvs :: "('a \<times> 'b) list" by (metis card_image_le card_length finite_set le_trans)
  have size: "Size a + Size b \<le> 2 ^ 20" using le[of kvs1] le[of kvs2] assms(1) a(5) b(4) by simp
  obtain c where c: "Merge fuel D False b a = Some (Ok, c)" "rdict_inv D c" "length (ix_buckets c) \<le> 2 ^ 22"
    "mset (entries (ix_buckets c)) = mset (entries (ix_buckets a)) + mset (entries (ix_buckets b))"
    using flat_dict.Merge_result[OF D a(1) b(1) size a(4), of fuel] assms(2) by auto
  have m: "mset (entries (ix_buckets c)) = mset (entries (ix_buckets b) @ entries (ix_buckets a))" using c(4) by simp
  have ka: "fst ` set (entries (ix_buckets a)) = fst ` set kvs1" "fst ` set (entries (ix_buckets b)) = fst ` set kvs2"
    by (simp_all add: keys_contents a(3) b(3) dom_map_of_conv_image_fst)
  have kc: "fst ` set (entries (ix_buckets c)) = fst ` set (kvs1 @ kvs2)"
    unfolding mset_eq_setD[OF m] using ka by (simp add: image_Un Un_commute)
  have sc: "Size c = Size a + Size b"
    using arg_cong[OF c(4), of size] index_invD(5)[OF c(2)] index_invD(5)[OF a(1)] index_invD(5)[OF b(1)] by (simp add: Size_def)
  have "card (fst ` set (kvs1 @ kvs2)) = Size a + Size b \<longleftrightarrow> fst ` set kvs1 \<inter> fst ` set kvs2 = {}"
    using card_Un_Int[of "fst ` set kvs1" "fst ` set kvs2"] a(5) b(4) by (auto simp: image_Un)
  moreover have f: "length (ix_buckets c) < fuel" using c(3) assms(2) by simp
  moreover have "Get fuel D k c = Some (lookup_result (map_of (rev (kvs1 @ kvs2)) k))" if "fst ` set kvs1 \<inter> fst ` set kvs2 = {}" for k
  proof -
    have d: "distinct (map fst (entries (ix_buckets b) @ entries (ix_buckets a)))"
      using a(2) b(2) that ka by (auto simp: unique_keys_def)
    have "contents c = map_of (rev (kvs1 @ kvs2))"
      using perm_map_of[OF m[symmetric] d] a(3) b(3) by (simp add: contents_def)
    then show ?thesis using Get_result[OF c(2) _ f] perm_keys[OF m] d by (simp add: unique_keys_def lookup_result_def)
  qed
  ultimately show ?thesis using c(1) sc Exists_result[OF c(2) f] unfolding kc by (auto simp: Merge_def)
qed

theorem rdict_merge_witness:
  "\<exists>s1 a s2 b c. dict_of (2 ^ 24) (flat_params wyhash_u64 (0, [])) [(7 :: u64, ''a'')] = Some (s1, a)
    \<and> dict_of (2 ^ 24) (flat_params wyhash_u64 (0, [])) [(7 :: u64, ''b'')] = Some (s2, b)
    \<and> Merge (2 ^ 24) (flat_params wyhash_u64 (0, [])) False b a = Some (Ok, c) \<and> Size c = Size a + Size b \<and> Size c \<noteq> 1"
proof -
  let ?D = "flat_params wyhash_u64 (0 :: u64, [] :: string)" and ?xs = "[(7 :: u64, ''a'')]" and ?ys = "[(7 :: u64, ''b'')]"
  obtain s1 a where a: "dict_of (2 ^ 24) ?D ?xs = Some (s1, a)"
    using dict_of_returns[of ?xs "2 ^ 24" wyhash_u64 "(0, [])"] by auto
  obtain s2 b where b: "dict_of (2 ^ 24) ?D ?ys = Some (s2, b)"
    using dict_of_returns[of ?ys "2 ^ 24" wyhash_u64 "(0, [])"] by auto
  have "length ?xs + length ?ys \<le> 2 ^ 20" "(2 :: nat) ^ 23 < 2 ^ 24" by simp_all
  from rdict_merge[OF this refl a b] a b show ?thesis by auto
qed

text \<open>Evaluation of the loops with a numeral as their number of iterations.\<close>

lemmas loop_numeral =
  search_loop.simps(2)[of "pred_numeral v" for v, folded numeral_eq_Suc]
  less_loop.simps(2)[of "pred_numeral v" for v, folded numeral_eq_Suc]
  replicate_Suc[of "pred_numeral v" for v, folded numeral_eq_Suc]
  place_and_shift_up.simps(2)[of "pred_numeral v" for v, folded numeral_eq_Suc]

lemmas index_eval =
  find_key_def next_while_less_def fill_bucket_def put_at_def inc_size_def Get_def Put_def Update_def is_full_def increase_size_def
  clear_and_fill_buckets_from_values_def clear_buckets_def allocate_buckets_from_shift_def deallocate_buckets_def
  fill_from_buckets.simps merge_buckets.simps reserve_def calc_shifts_for_size_def calc_shifts_loop.simps
  Merge_def Init_def LoadIndex_def no_index_def new_buckets_def put_new_def refill_flat_def dict_of_def Size_def initial_shifts_def max_size_def max_bucket_count_def calc_num_buckets_def
  flat_params_def default_cap_def default_estimate_def zero_bucket_def
  dist_and_fingerprint_from_hash_def bucket_idx_from_hash_def dist_inc_def next_idx_def k_dist_inc_def k_fingerprint_mask_def
  Let_def loop_numeral

lemma sample_hashes:
  "wyhash_u64 7 = 6018027440424182935" "wyhash_u64 1 = 11400714819323198485"
  "wyhash_u64 2 = 4354685564936845355" "wyhash_u64 3 = 15755400384260043838"
  by (simp_all add: wyhash_u64_def mix_def mum_def Let_def)

text \<open>A dictionary with 64-bit keys and values.\<close>

definition sample :: "(u64, u64) dict_params" where
  "sample = flat_params wyhash_u64 (0, 0)"

definition sample_index :: "nat \<Rightarrow> nat \<Rightarrow> ((u64 \<times> u64) \<times> u32) list \<Rightarrow> (u64 \<times> u64) rindex" where
  "sample_index n sh xs =
     \<lparr>ix_meta = Some \<lparr>m_size = n, m_num_buckets = length xs, m_max_bucket_capacity = default_cap (length xs), m_shifts = sh\<rparr>,
      ix_buckets = map (\<lambda>(e, df). \<lparr>b_entry = e, b_df = df\<rparr>) xs\<rparr>"

lemma sample_dict: "dict_of 20 sample [(7, v)] = Some ([Ok], sample_index 1 62 [((0, 0), 0), ((7, v), 407), ((0, 0), 0), ((0, 0), 0)])"
  by (simp add: index_eval sample_hashes sample_def sample_index_def)

lemma sample_Merge: "Merge 20 sample False
   (sample_index 1 62 [((0, 0), 0), ((7, w), 407), ((0, 0), 0), ((0, 0), 0)])
   (sample_index 1 62 [((0, 0), 0), ((7, v), 407), ((0, 0), 0), ((0, 0), 0)]) =
   Some (Ok, sample_index 2 62 [((0, 0), 0), ((7, w), 407), ((7, v), 663), ((0, 0), 0)])"
  by (simp add: index_eval sample_hashes sample_def sample_index_def)

lemma sample_Put: "Put 20 sample 7 u (sample_index 2 62 [((0, 0), 0), ((7, w), 407), ((7, v), 663), ((0, 0), 0)]) =
   Some (Ok, sample_index 2 62 [((0, 0), 0), ((7, u), 407), ((7, v), 663), ((0, 0), 0)])"
  by (simp add: index_eval sample_hashes sample_def sample_index_def)

lemma sample_Get:
  "Get 20 sample 7 (sample_index n 62 (x # ((7, v), 407) # xs)) = Some (Inr v)"
  "Get 20 sample 7 (sample_index n 61 (x # y # ((7, v), 407) # xs)) = Some (Inr v)"
  by (simp_all add: index_eval sample_hashes sample_def sample_index_def)

lemma sample_Puts: "Puts 20 sample [(1, 0), (2, 0), (3, 0)] (sample_index 2 62 [((0, 0), 0), ((7, w), 407), ((7, v), 663), ((0, 0), 0)]) =
   Some ([Ok, Ok, Ok], sample_index 5 61
     [((0, 0), 0), ((2, 0), 299), ((7, v), 407), ((7, w), 663), ((1, 0), 277), ((0, 0), 0), ((3, 0), 318), ((0, 0), 0)])"
  by (simp add: index_eval sample_hashes sample_def sample_index_def)


end
