(* ===== verification/RdictFileInv.thy ===== *)
theory RdictFileInv
  imports RdictFile RdictProps
begin

text \<open>
  The data file of a dictionary as a sequence of records, and the invariant that ties the buckets to the records that are
  still valid.
\<close>

section \<open>Tables whose entries change\<close>

lemma table_wf_replace:
  assumes "length bs' = length bs" and "\<And>i. i < length bs \<Longrightarrow> b_df (bs' ! i) = b_df (bs ! i)"
    and "\<And>i. i < length bs \<Longrightarrow> b_df (bs ! i) \<noteq> 0 \<Longrightarrow> H' (b_entry (bs' ! i)) = H (b_entry (bs ! i))"
  shows "table_wf sh H' bs' = table_wf sh H bs"
  using assms by (simp add: table_wf_def in_order_def bucket_ok_def cong: conj_cong)

lemma table_wf_cong:
  assumes "\<And>e. e \<in> set (entries bs) \<Longrightarrow> H' e = H e"
  shows "table_wf sh H' bs = table_wf sh H bs"
proof (rule table_wf_replace)
  fix i
  assume "i < length bs" "b_df (bs ! i) \<noteq> 0"
  then have "b_entry (bs ! i) \<in> set (entries bs)" unfolding entries_nth by blast
  then show "H' (b_entry (bs ! i)) = H (b_entry (bs ! i))" by (rule assms)
qed simp_all

lemma index_inv_cong: "(\<And>e. e \<in> set (entries (ix_buckets ix)) \<Longrightarrow> H' e = H e) \<Longrightarrow> index_inv cap H' ix = index_inv cap H ix"
  using table_wf_cong[of "ix_buckets ix" H' H] by (simp add: index_inv_def Let_def)

text \<open>A bucket gets another entry with the same hash.\<close>

lemma entries_replace:
  assumes "j < length bs" and "b_df (bs ! j) \<noteq> 0"
  shows "entries (bs[j := (bs ! j)\<lparr>b_entry := e\<rparr>]) = entries (take j bs) @ e # entries (drop (Suc j) bs)"
    and "entries bs = entries (take j bs) @ b_entry (bs ! j) # entries (drop (Suc j) bs)"
  using entries_split[of j bs] entries_split[of j "bs[j := (bs ! j)\<lparr>b_entry := e\<rparr>]"] assms by simp_all

lemma index_inv_replace:
  assumes inv: "index_inv cap H ix" and j: "j < length (ix_buckets ix)" "b_df (ix_buckets ix ! j) \<noteq> 0"
    and H: "H' e = H (b_entry (ix_buckets ix ! j))" "\<And>x. x \<in> set (entries (ix_buckets ix)) \<Longrightarrow> H' x = H x"
  shows "index_inv cap H' (ix\<lparr>ix_buckets := (ix_buckets ix)[j := (ix_buckets ix ! j)\<lparr>b_entry := e\<rparr>]\<rparr>)"
proof -
  let ?bs = "ix_buckets ix" and ?bs' = "(ix_buckets ix)[j := (ix_buckets ix ! j)\<lparr>b_entry := e\<rparr>]"
  have "table_wf sh H' ?bs' = table_wf sh H ?bs" for sh
  proof (rule table_wf_replace)
    fix i
    assume i: "i < length ?bs" "b_df (?bs ! i) \<noteq> 0"
    then have "b_entry (?bs ! i) \<in> set (entries ?bs)" unfolding entries_nth by blast
    then show "H' (b_entry (?bs' ! i)) = H (b_entry (?bs ! i))" using i(1) H by (cases "i = j") simp_all
  qed (simp_all add: nth_list_update j)
  then show ?thesis using inv entries_replace(1)[OF j, of e] entries_replace(2)[OF j] by (simp add: index_inv_def Let_def)
qed

section \<open>The search\<close>

lemma search_file_mono: "search_file fuel key bs k df i = Some r \<Longrightarrow> fuel \<le> fuel' \<Longrightarrow> search_file fuel' key bs k df i = Some r"
proof (induction fuel arbitrary: fuel' df i)
  case (Suc fuel)
  then obtain f where "fuel' = Suc f" "fuel \<le> f" by (cases fuel') auto
  then show ?case using Suc by (auto split: if_splits option.splits)
qed simp

lemma search_file_loop:
  assumes "\<And>i. i < length bs \<Longrightarrow> b_df (bs ! i) \<noteq> 0 \<Longrightarrow> key' (b_entry (bs ! i)) = Some (key (b_entry (bs ! i)))"
    and "i < length bs" and "0 < unat df" and "unat df + 256 * fuel < 2 ^ 32"
  shows "search_file fuel key' bs k df i = search_loop fuel key bs k df i"
  using assms(2-)
proof (induction fuel arbitrary: df i)
  case (Suc fuel)
  have d: "unat (dist_inc df) = unat df + 256" using dist_inc_unat[of df] Suc.prems(3) by simp
  have i: "next_idx (length bs) i < length bs" using Suc.prems(1) by simp
  have IH: "search_file fuel key' bs k (dist_inc df) (next_idx (length bs) i) = search_loop fuel key bs k (dist_inc df) (next_idx (length bs) i)"
    by (rule Suc.IH[OF i]) (use d Suc.prems in simp_all)
  have "key' (b_entry (bs ! i)) = Some (key (b_entry (bs ! i)))" if "df = b_df (bs ! i)"
    using assms(1)[OF Suc.prems(1)] that Suc.prems(2) by (auto simp: df_0_iff)
  then show ?case using IH by auto
qed simp

section \<open>Records\<close>

type_synonym ('k, 'v) kv = "byte \<times> 'k \<times> 'v"

definition rec_bytes :: "('k, 'v) file_params \<Rightarrow> ('k, 'v) kv \<Rightarrow> byte list" where
  "rec_bytes F r = (case r of (flags, k, v) \<Rightarrow> kv_record (fp_K F) (fp_V F) flags k v)"

definition file_bytes :: "('k, 'v) file_params \<Rightarrow> ('k, 'v) kv list \<Rightarrow> byte list" where
  "file_bytes F rs = concat (map (rec_bytes F) rs)"

text \<open>The records with their places.\<close>

primrec places :: "('k, 'v) file_params \<Rightarrow> nat \<Rightarrow> ('k, 'v) kv list \<Rightarrow> (nat \<times> ('k, 'v) kv) list" where
  "places F offset [] = []"
| "places F offset (r # rs) = (offset, r) # places F (offset + length (rec_bytes F r)) rs"

definition is_live :: "nat \<times> ('k, 'v) kv \<Rightarrow> bool" where
  "is_live p \<longleftrightarrow> \<not> flag_invalid (fst (snd p))"

definition live :: "('k, 'v) file_params \<Rightarrow> nat \<Rightarrow> ('k, 'v) kv list \<Rightarrow> (nat \<times> ('k, 'v) kv) list" where
  "live F offset rs = filter is_live (places F offset rs)"

definition pair_at :: "nat \<times> ('k, 'v) kv \<Rightarrow> 'k \<times> 'v" where
  "pair_at p = snd (snd p)"

lemma file_bytes_simps [simp]:
  "file_bytes F [] = []" "file_bytes F (r # rs) = rec_bytes F r @ file_bytes F rs" "file_bytes F (rs @ rs') = file_bytes F rs @ file_bytes F rs'"
  by (simp_all add: file_bytes_def)

lemma live_simps:
  "live F offset [] = []"
  "live F offset (r # rs) = (if flag_invalid (fst r) then [] else [(offset, r)]) @ live F (offset + length (rec_bytes F r)) rs"
  by (simp_all add: live_def is_live_def)

lemma places_append: "places F offset (rs @ rs') = places F offset rs @ places F (offset + length (file_bytes F rs)) rs'"
  by (induction rs arbitrary: offset) (simp_all add: add.assoc)

lemma live_append: "live F offset (rs @ rs') = live F offset rs @ live F (offset + length (file_bytes F rs)) rs'"
  by (simp add: live_def places_append)

lemma length_places [simp]: "length (places F offset rs) = length rs"
  by (induction rs arbitrary: offset) simp_all

lemma places_split:
  "(p, r) \<in> set (places F offset rs) \<Longrightarrow> \<exists>rs1 rs2. rs = rs1 @ r # rs2 \<and> p = offset + length (file_bytes F rs1)"
proof (induction rs arbitrary: offset)
  case (Cons x rs)
  show ?case
  proof (cases "(p, r) = (offset, x)")
    case True
    then show ?thesis by (intro exI[of _ "[]"] exI[of _ rs]) simp
  next
    case False
    then have "(p, r) \<in> set (places F (offset + length (rec_bytes F x)) rs)" using Cons.prems by auto
    from Cons.IH[OF this] obtain rs1 rs2
      where "rs = rs1 @ r # rs2" "p = offset + length (rec_bytes F x) + length (file_bytes F rs1)" by blast
    then show ?thesis by (intro exI[of _ "x # rs1"] exI[of _ rs2]) simp
  qed
qed simp

lemma live_shift: "live F (a + b) rs = map (\<lambda>(p, r). (a + p, r)) (live F b rs)"
  by (induction rs arbitrary: b) (simp_all add: live_simps add.assoc)

section \<open>The invariant\<close>

text \<open>The hash of the key at a place of the file.\<close>

definition place_hash :: "('k, 'v) file_params \<Rightarrow> byte list \<Rightarrow> nat \<Rightarrow> u64" where
  "place_hash F data p = fp_hash F (the (GetKey F data p))"

definition live_map :: "('k, 'v) file_params \<Rightarrow> ('k, 'v) kv list \<Rightarrow> 'k \<rightharpoonup> 'v" where
  "live_map F rs = map_of (map pair_at (live F 0 rs))"

text \<open>Keys and values that the serializers can handle.\<close>

definition rec_ok :: "('k \<Rightarrow> bool) \<Rightarrow> ('v \<Rightarrow> bool) \<Rightarrow> ('k, 'v) kv \<Rightarrow> bool" where
  "rec_ok kvalid vvalid r \<longleftrightarrow> kvalid (fst (snd r)) \<and> vvalid (snd (snd r))"

definition file_inv :: "('k, 'v) file_params \<Rightarrow> ('k \<Rightarrow> bool) \<Rightarrow> ('v \<Rightarrow> bool) \<Rightarrow> fdict \<Rightarrow> ('k, 'v) kv list \<Rightarrow> bool" where
  "file_inv F kvalid vvalid d rs \<longleftrightarrow>
     mf_bytes (fd_file d) = file_bytes F rs \<and> (\<forall>r \<in> set rs. rec_ok kvalid vvalid r)
     \<and> index_inv (fp_cap F) (place_hash F (file_bytes F rs)) (fd_index d)
     \<and> mset (entries (ix_buckets (fd_index d))) = mset (map fst (live F 0 rs))
     \<and> distinct (map (fst \<circ> pair_at) (live F 0 rs))"

locale file_dict =
  pair_serializer "fp_K F" kvalid "fp_V F" vvalid + load_factor "fp_cap F" "fp_estimate F"
  for F :: "('k, 'v) file_params" and kvalid vvalid
begin

lemma rec_reads:
  assumes "rec_ok kvalid vvalid (flags, k, v)" and "drop p data = rec_bytes F (flags, k, v) @ rest"
  shows "GetKey F data p = Some k" "GetValue F data p = Some v" "GetKeyValFlags F data p = Some flags"
    "GetKeyValuePackSize (fp_K F) (fp_V F) (GetKeyValData p data) = Some (length (rec_bytes F (flags, k, v)))"
    "SetFlags (fp_K F) (fp_V F) flags' (GetKeyValData p data) = Some (rec_bytes F (flags', k, v) @ rest)"
    "place_hash F data p = fp_hash F k"
  using assms(1) record_reads[of k v]
  by (simp_all add: rec_ok_def rec_bytes_def GetKey_def GetValue_def GetKeyValFlags_def GetKeyValData_def place_hash_def assms(2))

lemma rec_not_Nil: "rec_bytes F r \<noteq> []"
  by (cases r) (simp add: rec_bytes_def record_not_Nil)

lemma fill_from_data_result:
  assumes "table_wf sh H bs" and "length (entries bs) + length (live F p ra) \<le> length bs" and "length bs < fuel"
    and "n = length (live F p ra)" and "drop p data = file_bytes F ra @ rest" and "\<forall>r \<in> set ra. rec_ok kvalid vvalid r"
    and "\<forall>(q, r) \<in> set (live F p ra). H q = fp_hash F (fst (snd r))"
  shows "\<exists>bs'. fill_from_data fuel F sh data n p bs = Some (Ok, bs') \<and> table_wf sh H bs' \<and> length bs' = length bs
    \<and> mset (entries bs') = mset (entries bs) + mset (map fst (live F p ra))"
  using assms
proof (induction ra arbitrary: p n bs)
  case Nil
  then show ?case by (simp add: live_simps fill_from_data.simps)
next
  case (Cons r ra)
  obtain flags k v where r: "r = (flags, k, v)" by (cases r) auto
  let ?len = "length (rec_bytes F r)"
  have d: "drop p data = rec_bytes F (flags, k, v) @ (file_bytes F ra @ rest)" using Cons.prems(5) r by simp
  have ok: "rec_ok kvalid vvalid (flags, k, v)" using Cons.prems(6) r by simp
  note reads = rec_reads[OF ok d]
  have lt: "p < length data" using d rec_not_Nil[of r] r by (metis append_is_Nil_conv drop_all not_le)
  have "drop (p + ?len) data = drop ?len (drop p data)" by (simp add: add.commute)
  then have d': "drop (p + ?len) data = file_bytes F ra @ rest" unfolding d r by simp
  show ?case
  proof (cases "n = 0")
    case True
    then show ?thesis using Cons.prems by (simp add: fill_from_data.simps[of _ _ _ _ 0])
  next
    case n: False
    show ?thesis
    proof (cases "flag_invalid flags")
      case True
      then have "fill_from_data fuel F sh data n p bs = fill_from_data fuel F sh data n (p + ?len) bs"
        using n lt reads r by (simp add: fill_from_data.simps[of _ _ _ _ n p])
      then show ?thesis using Cons.IH[OF Cons.prems(1) _ Cons.prems(3) _ d'] Cons.prems True r by (simp add: live_simps)
    next
      case False
      have e: "has_empty bs" unfolding has_empty_iff using Cons.prems(2) False r by (simp add: live_simps)
      have h: "H p = fp_hash F k" using Cons.prems(7) False r by (simp add: live_simps)
      obtain bs1 where b1: "fill_bucket fuel sh H p bs = Some bs1" "table_wf sh H bs1" "length bs1 = length bs"
        "mset (entries bs1) = add_mset p (mset (entries bs))"
        using fill_bucket_result[OF Cons.prems(1) e Cons.prems(3)] by blast
      have s: "fill_from_data fuel F sh data n p bs = fill_from_data fuel F sh data (n - 1) (p + ?len) bs1"
        using n lt reads r False b1(1) h by (simp add: fill_from_data.simps[of _ _ _ _ n p] fill_bucket_def)
      have "length (entries bs1) = Suc (length (entries bs))" using arg_cong[OF b1(4), of size] by simp
      then obtain bs2 where "fill_from_data fuel F sh data (n - 1) (p + ?len) bs1 = Some (Ok, bs2)" "table_wf sh H bs2" "length bs2 = length bs1"
        "mset (entries bs2) = mset (entries bs1) + mset (map fst (live F (p + ?len) ra))"
        using Cons.IH[OF b1(2) _ _ _ d', of "n - 1"] Cons.prems False r b1(3) by (auto simp: live_simps)
      then show ?thesis using s b1 False r by (simp add: live_simps)
    qed
  qed
qed

lemma file_refills:
  assumes "\<forall>r \<in> set ra. rec_ok kvalid vvalid r" and "\<forall>(q, r) \<in> set (live F 0 ra). H q = fp_hash F (fst (snd r))"
  shows "refills fuel cap H (mset (map fst (live F 0 ra))) (file_clear_and_fill fuel F (file_bytes F ra @ rest))"
  unfolding refills_def
proof (intro allI impI, elim conjE)
  fix ix :: "nat rindex" and m
  let ?M = "mset (map fst (live F 0 ra))"
  assume m: "ix_meta ix = Some m" "m_size m = size ?M" "shifts_ok (m_shifts m) (m_num_buckets m)"
      "m_max_bucket_capacity m = cap (m_num_buckets m)"
    and room: "size ?M \<le> m_num_buckets m" "size ?M \<le> cap (m_num_buckets m) + 1" and fuel: "m_num_buckets m < fuel"
  let ?bs = "replicate (m_num_buckets m) (zero_bucket (0 :: nat))"
  obtain bs where bs: "fill_from_data fuel F (m_shifts m) (file_bytes F ra @ rest) (m_size m) 0 ?bs = Some (Ok, bs)" "table_wf (m_shifts m) H bs"
    "length bs = m_num_buckets m" "mset (entries bs) = ?M"
    using fill_from_data_result[where ra = ra and p = 0 and rest = rest and fuel = fuel and n = "m_size m" and data = "file_bytes F ra @ rest",
        OF empty_table_wf(1)[OF m(3), of H 0] _ _ _ _ assms]
      m(2) room(1) fuel by (auto simp: empty_table_wf(2))
  then show "\<exists>ix'. file_clear_and_fill fuel F (file_bytes F ra @ rest) ix = Some (Ok, ix') \<and> index_inv cap H ix'
    \<and> mset (entries (ix_buckets ix')) = ?M \<and> ix_meta ix' = Some m"
    using refilled[where cap = cap, OF m(1) bs(2,3,4) m(2,4) room(2)] m(1) by (simp add: file_clear_and_fill_def clear_buckets_def Let_def)
qed

lemma place_drop:
  assumes "(p, r) \<in> set (places F 0 rs)"
  shows "\<exists>rest. drop p (file_bytes F rs @ tail) = rec_bytes F r @ rest"
  using places_split[OF assms] by auto

lemma live_place: "x \<in> set (live F p rs) \<Longrightarrow> x \<in> set (places F p rs)"
  by (simp add: live_def)

lemma place_rec: "(p, r) \<in> set (places F q rs) \<Longrightarrow> r \<in> set rs"
  using places_split[of p r F q rs] by auto

lemma live_reads:
  assumes "\<forall>r \<in> set rs. rec_ok kvalid vvalid r" and "(p, flags, k, v) \<in> set (live F 0 rs)"
  shows "GetKey F (file_bytes F rs @ tail) p = Some k" "GetValue F (file_bytes F rs @ tail) p = Some v"
    "place_hash F (file_bytes F rs @ tail) p = fp_hash F k"
proof -
  have pl: "(p, flags, k, v) \<in> set (places F 0 rs)" by (rule live_place[OF assms(2)])
  obtain rest where d: "drop p (file_bytes F rs @ tail) = rec_bytes F (flags, k, v) @ rest" using place_drop[OF pl] by blast
  have ok: "rec_ok kvalid vvalid (flags, k, v)" using place_rec[OF pl] assms(1) by blast
  show "GetKey F (file_bytes F rs @ tail) p = Some k" by (rule rec_reads(1)[OF ok d])
  show "GetValue F (file_bytes F rs @ tail) p = Some v" by (rule rec_reads(2)[OF ok d])
  show "place_hash F (file_bytes F rs @ tail) p = fp_hash F k" by (rule rec_reads(6)[OF ok d])
qed

lemma live_hash:
  assumes "\<forall>r \<in> set rs. rec_ok kvalid vvalid r"
  shows "\<forall>(q, r) \<in> set (live F 0 rs). place_hash F (file_bytes F rs @ tail) q = fp_hash F (fst (snd r))"
  using live_reads(3)[OF assms] by auto

lemma file_invD:
  assumes "file_inv F kvalid vvalid d rs"
  shows "mf_bytes (fd_file d) = file_bytes F rs" "\<forall>r \<in> set rs. rec_ok kvalid vvalid r"
    "index_inv (fp_cap F) (place_hash F (file_bytes F rs)) (fd_index d)"
    "mset (entries (ix_buckets (fd_index d))) = mset (map fst (live F 0 rs))" "distinct (map (fst \<circ> pair_at) (live F 0 rs))"
    "set (entries (ix_buckets (fd_index d))) = fst ` set (live F 0 rs)"
  using assms mset_eq_setD[of "entries (ix_buckets (fd_index d))" "map fst (live F 0 rs)"] by (auto simp: file_inv_def)

text \<open>An index stays right when the file grows.\<close>

lemma hash_append:
  assumes "file_inv F kvalid vvalid d rs" and "e \<in> set (entries (ix_buckets (fd_index d)))"
  shows "place_hash F (file_bytes F rs @ tail) e = place_hash F (file_bytes F rs) e"
proof -
  obtain flags k v where l: "(e, flags, k, v) \<in> set (live F 0 rs)" using assms(2) unfolding file_invD(6)[OF assms(1)] by auto
  show ?thesis using live_reads(3)[OF file_invD(2)[OF assms(1)] l, of tail] live_reads(3)[OF file_invD(2)[OF assms(1)] l, of "[]"] by simp
qed

section \<open>Looking up\<close>

lemma file_find_key_result:
  assumes inv: "file_inv F kvalid vvalid d rs" and fuel: "length (ix_buckets (fd_index d)) < fuel"
  shows "(\<exists>j flags v. file_find_key fuel F k d = Some (Found j) \<and> j < length (ix_buckets (fd_index d))
       \<and> b_df (ix_buckets (fd_index d) ! j) \<noteq> 0 \<and> (b_entry (ix_buckets (fd_index d) ! j), flags, k, v) \<in> set (live F 0 rs))
    \<or> k \<notin> (fst \<circ> pair_at) ` set (live F 0 rs)
      \<and> (\<exists>j df t. file_find_key fuel F k d = Some (Missing j df)
          \<and> open_place (m_shifts (meta_of (fd_index d))) (ix_buckets (fd_index d)) (fp_hash F k) t df j)"
proof -
  let ?ix = "fd_index d" and ?data = "file_bytes F rs"
  let ?bs = "ix_buckets ?ix" and ?key = "\<lambda>p. the (GetKey F ?data p)"
  let ?df = "dist_and_fingerprint_from_hash (fp_hash F k)" and ?i = "bucket_idx_from_hash (m_shifts (meta_of ?ix)) (fp_hash F k)"
  note i = file_invD[OF inv]
  have wf: "table_wf (m_shifts (meta_of ?ix)) (\<lambda>e. fp_hash F (?key e)) ?bs"
    using index_invD(1)[OF i(3)] by (simp add: place_hash_def[abs_def])
  have sh: "shifts_ok (m_shifts (meta_of ?ix)) (length ?bs)" by (rule index_invD(2)[OF i(3)])
  have at: "\<exists>flags v. (b_entry (?bs ! j), flags, ?key (b_entry (?bs ! j)), v) \<in> set (live F 0 rs)
      \<and> GetKey F ?data (b_entry (?bs ! j)) = Some (?key (b_entry (?bs ! j)))" if "j < length ?bs" "b_df (?bs ! j) \<noteq> 0" for j
  proof -
    have "b_entry (?bs ! j) \<in> set (entries ?bs)" using that unfolding entries_nth by blast
    then obtain flags k v where l: "(b_entry (?bs ! j), flags, k, v) \<in> set (live F 0 rs)" unfolding i(6) by auto
    then show ?thesis using live_reads(1)[OF i(2) l, of "[]"] by auto
  qed
  have "unat ?df + 256 * Suc (length ?bs) < 2 ^ 32"
    using df_from_hash[of "fp_hash F k"] fingerprint_lt[of "fp_hash F k"] shifts_bound(2)[OF sh] by simp
  moreover have "0 < unat ?df" using df_from_hash[of "fp_hash F k"] by simp
  ultimately have eq: "search_file (Suc (length ?bs)) (GetKey F ?data) ?bs k ?df ?i = search_loop (Suc (length ?bs)) ?key ?bs k ?df ?i"
    using at shifts_bound(3)[OF sh] by (intro search_file_loop) blast+
  have find: "file_find_key fuel F k d = Some r" if "search_loop (Suc (length ?bs)) ?key ?bs k ?df ?i = Some r" for r
    using search_file_mono[of "Suc (length ?bs)" "GetKey F ?data" ?bs k ?df ?i r fuel] that fuel eq
    by (simp add: file_find_key_def Let_def i(1))
  have keys: "(fst \<circ> pair_at) ` set (live F 0 rs) = ?key ` set (entries ?bs)"
    unfolding i(6) using live_reads(1)[OF i(2), of _ _ _ _ "[]"] by (force simp: pair_at_def image_iff)
  from search_finds[where hash = "fp_hash F" and key = ?key and fuel = "Suc (length ?bs)", OF wf lessI refl, of k]
  consider (found) j where "search_loop (Suc (length ?bs)) ?key ?bs k ?df ?i = Some (Found j)" "j < length ?bs" "b_df (?bs ! j) \<noteq> 0"
      "?key (b_entry (?bs ! j)) = k"
    | (missing) j df t where "k \<notin> ?key ` set (entries ?bs)" "search_loop (Suc (length ?bs)) ?key ?bs k ?df ?i = Some (Missing j df)"
      "open_place (m_shifts (meta_of ?ix)) ?bs (fp_hash F k) t df j" by blast
  then show ?thesis
  proof cases
    case found
    obtain flags v where "(b_entry (?bs ! j), flags, k, v) \<in> set (live F 0 rs)" using at[OF found(2,3)] unfolding found(4) by blast
    then show ?thesis using find[OF found(1)] found(2,3) by blast
  next
    case missing
    then show ?thesis using find[OF missing(2)] unfolding keys by blast
  qed
qed

lemma live_map_Some:
  assumes "distinct (map (fst \<circ> pair_at) (live F 0 rs))" and "(p, flags, k, v) \<in> set (live F 0 rs)"
  shows "live_map F rs k = Some v"
proof -
  have "(k, v) \<in> set (map pair_at (live F 0 rs))" using assms(2) by (force simp: pair_at_def)
  then show ?thesis using assms(1) by (simp add: live_map_def map_of_is_SomeI)
qed

lemma live_map_None: "k \<notin> (fst \<circ> pair_at) ` set (live F 0 rs) \<Longrightarrow> live_map F rs k = None"
  by (auto simp: live_map_def map_of_eq_None_iff image_comp)

lemma file_Get_result:
  assumes inv: "file_inv F kvalid vvalid d rs" and fuel: "length (ix_buckets (fd_index d)) < fuel"
  shows "file_Get fuel F k d = Some (case live_map F rs k of None \<Rightarrow> Inl (NotFound ''not found entry'') | Some v \<Rightarrow> Inr v)"
    and "file_Exists fuel F k d = Some (live_map F rs k \<noteq> None)"
  using file_find_key_result[OF assms, of k] live_reads(2)[OF file_invD(2)[OF inv], of _ _ _ _ "[]"]
    live_map_Some[OF file_invD(5)[OF inv]] live_map_None[of k rs]
  by (auto simp: file_Get_def file_Exists_def file_invD(1)[OF inv])

lemma file_Size_result:
  assumes "file_inv F kvalid vvalid d rs"
  shows "Size (fd_index d) = card (dom (live_map F rs))"
proof -
  have "Size (fd_index d) = length (map (fst \<circ> pair_at) (live F 0 rs))"
    using index_invD(5)[OF file_invD(3)[OF assms]] arg_cong[OF file_invD(4)[OF assms], of size] by (simp add: Size_def)
  also have "\<dots> = card (set (map (fst \<circ> pair_at) (live F 0 rs)))" using distinct_card[OF file_invD(5)[OF assms]] by simp
  also have "\<dots> = card (dom (live_map F rs))" by (simp add: live_map_def dom_map_of_conv_image_fst image_comp)
  finally show ?thesis .
qed

end

end
