(* ===== verification/RdictFileProps.thy ===== *)
theory RdictFileProps
  imports RdictFileInv
begin

text \<open>
  The dictionary with a data file implements a finite map, whatever the operating system answers.
\<close>

section \<open>Adding to the file\<close>

lemma ExtendBuffer_bytes: "ExtendBuffer s len f = (st, f') \<Longrightarrow> if st = Ok then mf_bytes f' = mf_bytes f \<and> mf_readonly f' = mf_readonly f else f' = f"
  by (auto simp: ExtendBuffer_def Let_def split: if_splits option.splits)

lemma Add_result:
  shows "Add s data f = (Inl st, f') \<Longrightarrow> st \<noteq> Ok \<and> f' = f"
    and "Add s data f = (Inr p, f') \<Longrightarrow> p = length (mf_bytes f) \<and> mf_bytes f' = mf_bytes f @ data \<and> mf_readonly f' = mf_readonly f"
  using ExtendBuffer_bytes[of s _ f] by (auto simp: Add_def split: if_splits prod.splits)

text \<open>The file has room, or can get it.\<close>

definition fits :: "sys \<Rightarrow> nat \<Rightarrow> MmapFile \<Rightarrow> bool" where
  "fits s len f \<longleftrightarrow> \<not> mf_readonly f \<and> (length (mf_bytes f) + len \<le> mf_capacity f
     \<or> sys_open s \<and> sys_fstat s = Some (mf_capacity f) \<and> sys_truncate s \<and> sys_mmap s
       \<and> mf_capacity f + (length (mf_bytes f) + len - mf_capacity f + kSegmentSize) div kSegmentSize * kSegmentSize \<le> mf_reserved f)"

lemma Add_fits: "(\<exists>p f'. Add s data f = (Inr p, f')) \<longleftrightarrow> fits s (length data) f"
  by (auto simp: Add_def fits_def ExtendBuffer_def Let_def split: option.splits)

section \<open>Storing\<close>

context file_dict
begin

lemma pack_rec: "KeyValPair_Pack (fp_K F) (fp_V F) k v = rec_bytes F (0, k, v)"
  by (simp add: rec_bytes_def pack_record)

lemma rec_length: "rec_ok kvalid vvalid (flags, k, v) \<Longrightarrow> length (rec_bytes F (flags', k, v)) = length (rec_bytes F (flags, k, v))"
  by (simp add: rec_bytes_def kv_record_def)

lemma live_new: "live F p [(0, k, v)] = [(p, 0, k, v)]"
  by (simp add: live_simps flag_invalid_def)

text \<open>A new pair at the end of the file.\<close>

lemma file_inv_new:
  assumes inv: "file_inv F kvalid vvalid d rs" and ok: "kvalid k" "vvalid v" and new: "k \<notin> (fst \<circ> pair_at) ` set (live F 0 rs)"
    and ix: "index_inv (fp_cap F) (place_hash F (file_bytes F (rs @ [(0, k, v)]))) ix"
      "mset (entries (ix_buckets ix)) = add_mset (length (file_bytes F rs)) (mset (entries (ix_buckets (fd_index d))))"
    and f: "mf_bytes f = file_bytes F (rs @ [(0, k, v)])"
  shows "file_inv F kvalid vvalid \<lparr>fd_index = ix, fd_file = f\<rparr> (rs @ [(0, k, v)])"
    and "live_map F (rs @ [(0, k, v)]) = (live_map F rs)(k \<mapsto> v)"
proof -
  note i = file_invD[OF inv]
  have l: "live F 0 (rs @ [(0, k, v)]) = live F 0 rs @ [(length (file_bytes F rs), 0, k, v)]"
    by (simp add: live_append live_new)
  have "mset (entries (ix_buckets ix)) = mset (map fst (live F 0 (rs @ [(0, k, v)])))" unfolding l ix(2) i(4) by simp
  moreover have "distinct (map (fst \<circ> pair_at) (live F 0 (rs @ [(0, k, v)])))" unfolding l using i(5) new by (simp add: pair_at_def)
  moreover have "\<forall>r \<in> set (rs @ [(0, k, v)]). rec_ok kvalid vvalid r" using i(2) ok by (simp add: rec_ok_def)
  ultimately show "file_inv F kvalid vvalid \<lparr>fd_index = ix, fd_file = f\<rparr> (rs @ [(0, k, v)])" using ix(1) f by (simp add: file_inv_def)
  have "live_map F rs k = None" by (rule live_map_None[OF new])
  then show "live_map F (rs @ [(0, k, v)]) = (live_map F rs)(k \<mapsto> v)"
    by (auto simp: live_map_def l pair_at_def map_add_def fun_eq_iff split: option.splits)
qed

lemma map_of_move:
  assumes "distinct (map fst (A @ (k, v0) # B))"
  shows "map_of (A @ B @ [(k, v)]) = (map_of (A @ (k, v0) # B))(k \<mapsto> v)"
proof -
  have "map_of A k = None" "map_of B k = None" using assms by (auto simp: map_of_eq_None_iff)
  then show ?thesis by (auto simp: map_add_def fun_eq_iff split: option.splits)
qed

text \<open>\<^verbatim>\<open>Update\<close>: the old pair becomes invalid, a new one is at the end of the file.\<close>

lemma file_Update_result:
  assumes inv: "file_inv F kvalid vvalid d rs" and ok: "kvalid k" "vvalid v"
    and j: "j < length (ix_buckets (fd_index d))" "b_df (ix_buckets (fd_index d) ! j) \<noteq> 0"
    and l: "(b_entry (ix_buckets (fd_index d) ! j), flags, k, v0) \<in> set (live F 0 rs)"
    and add: "Add s (KeyValPair_Pack (fp_K F) (fp_V F) k v) (fd_file d) = (Inr p, f)"
  shows "\<exists>d' rs'. file_Update s F j k v d = Some (Ok, d') \<and> file_inv F kvalid vvalid d' rs' \<and> live_map F rs' = (live_map F rs)(k \<mapsto> v)
    \<and> length (ix_buckets (fd_index d')) = length (ix_buckets (fd_index d)) \<and> Size (fd_index d') = Size (fd_index d)"
proof -
  note i = file_invD[OF inv]
  let ?ix = "fd_index d"
  let ?bs = "ix_buckets ?ix" and ?q = "b_entry (ix_buckets (fd_index d) ! j)"
  obtain rs1 rs2 where rs: "rs = rs1 @ (flags, k, v0) # rs2" "?q = length (file_bytes F rs1)"
    using places_split[OF live_place[OF l]] by auto
  have okr: "rec_ok kvalid vvalid (flags, k, v0)" using i(2) rs(1) by simp
  let ?rs' = "rs1 @ (1, k, v0) # rs2 @ [(0, k, v)]" and ?new = "length (file_bytes F rs)"
  have p: "p = ?new" "mf_bytes f = file_bytes F rs @ rec_bytes F (0, k, v)" using Add_result(2)[OF add] i(1) pack_rec by simp_all
  have drop: "drop ?q (mf_bytes f) = rec_bytes F (flags, k, v0) @ file_bytes F (rs2 @ [(0, k, v)])"
    unfolding p(2) rs by simp
  have set: "SetFlags (fp_K F) (fp_V F) 1 (GetKeyValData ?q (mf_bytes f)) = Some (rec_bytes F (1, k, v0) @ file_bytes F (rs2 @ [(0, k, v)]))"
    by (rule rec_reads(5)[OF okr drop])
  have bytes: "take ?q (mf_bytes f) @ rec_bytes F (1, k, v0) @ file_bytes F (rs2 @ [(0, k, v)]) = file_bytes F ?rs'"
    unfolding p(2) rs by simp
  let ?ix' = "?ix\<lparr>ix_buckets := ?bs[j := (?bs ! j)\<lparr>b_entry := ?new\<rparr>]\<rparr>"
  let ?d = "\<lparr>fd_index = ?ix', fd_file = f\<lparr>mf_bytes := file_bytes F ?rs'\<rparr>\<rparr>"
  have up: "file_Update s F j k v d = Some (Ok, ?d)" using set bytes by (simp add: file_Update_def add Let_def p(1))
  have okr': "\<forall>r \<in> set ?rs'. rec_ok kvalid vvalid r" using i(2) ok okr rs(1) by (auto simp: rec_ok_def)
  let ?A = "live F 0 rs1" and ?B = "live F (?q + length (rec_bytes F (flags, k, v0))) rs2"
  have fl: "\<not> flag_invalid flags" using l by (simp add: live_def is_live_def)
  have l1: "live F 0 rs = ?A @ (?q, flags, k, v0) # ?B" using fl by (simp add: rs live_append live_simps)
  have l2: "live F 0 ?rs' = ?A @ ?B @ [(?new, 0, k, v)]"
    using rec_length[OF okr, of 1] by (simp add: rs live_append live_simps flag_invalid_def add.assoc)
  have sub: "set (?A @ ?B) \<subseteq> set (live F 0 ?rs')" "set (?A @ ?B) \<subseteq> set (live F 0 rs)" unfolding l1 l2 by auto
  have h: "place_hash F (file_bytes F ?rs') x = place_hash F (file_bytes F rs) x" if x: "x \<in> fst ` set (?A @ ?B)" for x
  proof -
    obtain g k' v' where r: "(x, g, k', v') \<in> set (?A @ ?B)" using x by (force simp del: set_append)
    show ?thesis using live_reads(3)[OF okr' subsetD[OF sub(1) r], of "[]"] live_reads(3)[OF i(2) subsetD[OF sub(2) r], of "[]"] by simp
  qed
  have "(?new, 0, k, v) \<in> set (live F 0 ?rs')" unfolding l2 by simp
  then have hn: "place_hash F (file_bytes F ?rs') ?new = place_hash F (file_bytes F rs) ?q"
    using live_reads(3)[OF okr', of ?new 0 k v "[]"] live_reads(3)[OF i(2) l, of "[]"] by simp
  note e1 = entries_replace(2)[OF j] and e2 = entries_replace(1)[OF j, of ?new]
  have m: "mset (entries (take j ?bs) @ entries (drop (Suc j) ?bs)) = mset (map fst (?A @ ?B))" using i(4) unfolding e1 l1 by simp
  have "drop ?q (file_bytes F ?rs') = rec_bytes F (1, k, v0) @ file_bytes F (rs2 @ [(0, k, v)])" unfolding rs(2) by simp
  moreover have "rec_ok kvalid vvalid (1, k, v0)" using okr by (simp add: rec_ok_def)
  ultimately have hq: "place_hash F (file_bytes F ?rs') ?q = place_hash F (file_bytes F rs) ?q"
    using rec_reads(6)[of 1 k v0 ?q "file_bytes F ?rs'"] live_reads(3)[OF i(2) l, of "[]"] by simp
  have H: "place_hash F (file_bytes F ?rs') x = place_hash F (file_bytes F rs) x" if "x \<in> set (entries ?bs)" for x
    using that h[of x] hq unfolding i(6) l1 by auto
  have inv': "index_inv (fp_cap F) (place_hash F (file_bytes F ?rs')) ?ix'" by (rule index_inv_replace[OF i(3) j hn H])
  have "mset (entries (ix_buckets ?ix')) = mset (map fst (live F 0 ?rs'))" using m by (simp add: e2 l2)
  moreover have "distinct (map (fst \<circ> pair_at) (live F 0 ?rs'))" using i(5) unfolding l1 l2 by (auto simp: pair_at_def)
  ultimately have "file_inv F kvalid vvalid ?d ?rs'" using inv' okr' by (simp add: file_inv_def del: file_bytes_simps)
  moreover have "live_map F ?rs' = (live_map F rs)(k \<mapsto> v)"
    using map_of_move[of "map pair_at ?A" k v0 "map pair_at ?B" v] i(5) unfolding live_map_def l1 l2 by (simp add: pair_at_def)
  ultimately show ?thesis using up by (auto simp: Size_def)
qed

text \<open>
  \<^verbatim>\<open>Put\<close>: when the file has room the map gets the value, otherwise the status is an error and nothing has changed.
\<close>

lemma file_Put_result:
  assumes inv: "file_inv F kvalid vvalid d rs" and ok: "kvalid k" "vvalid v"
    and small: "length (ix_buckets (fd_index d)) \<le> 2 ^ 22" and fuel: "2 * length (ix_buckets (fd_index d)) < fuel"
    and fits: "fits s (length (KeyValPair_Pack (fp_K F) (fp_V F) k v)) (fd_file d)"
  shows "\<exists>d' rs'. file_Put fuel s F k v d = Some (Ok, d') \<and> file_inv F kvalid vvalid d' rs' \<and> live_map F rs' = (live_map F rs)(k \<mapsto> v)
    \<and> length (ix_buckets (fd_index d')) \<le> max (length (ix_buckets (fd_index d))) (4 * Size (fd_index d))"
proof -
  note i = file_invD[OF inv]
  let ?ix = "fd_index d" and ?rs = "rs @ [(0, k, v)]"
  let ?bs = "ix_buckets ?ix" and ?p = "length (file_bytes F rs)" and ?H = "place_hash F (file_bytes F ?rs)"
  obtain p f where add: "Add s (KeyValPair_Pack (fp_K F) (fp_V F) k v) (fd_file d) = (Inr p, f)" using fits unfolding Add_fits[symmetric] by blast
  from file_find_key_result[OF inv, of fuel k] fuel consider
    (found) j flags v0 where "file_find_key fuel F k d = Some (Found j)" "j < length ?bs" "b_df (?bs ! j) \<noteq> 0"
        "(b_entry (?bs ! j), flags, k, v0) \<in> set (live F 0 rs)"
    | (new) j df t where "k \<notin> (fst \<circ> pair_at) ` set (live F 0 rs)" "file_find_key fuel F k d = Some (Missing j df)"
        "open_place (m_shifts (meta_of ?ix)) ?bs (fp_hash F k) t df j" by fastforce
  then show ?thesis
  proof cases
    case found
    then show ?thesis using file_Update_result[OF inv ok found(2-4) add] by (auto simp: file_Put_def)
  next
    case new
    have p: "p = ?p" "mf_bytes f = file_bytes F ?rs" using Add_result(2)[OF add] i(1) pack_rec by simp_all
    have hp: "?H ?p = fp_hash F k" using rec_reads(6)[of 0 k v ?p "file_bytes F ?rs" "[]"] ok by (simp add: rec_ok_def)
    have ix: "index_inv (fp_cap F) ?H ?ix"
      using i(3) index_inv_cong[of ?ix ?H "place_hash F (file_bytes F rs)" "fp_cap F"] hash_append[OF inv, of _ "rec_bytes F (0, k, v)"] by simp
    have "\<forall>(q, r) \<in> set (live F 0 rs). ?H q = fp_hash F (fst (snd r))" using live_hash[OF i(2), of "rec_bytes F (0, k, v)"] by simp
    then have r: "refills fuel (fp_cap F) ?H (mset (entries ?bs)) (file_clear_and_fill fuel F (mf_bytes f))"
      using file_refills[OF i(2), of ?H fuel "fp_cap F" "rec_bytes F (0, k, v)"] p(2) i(4) by simp
    have o: "open_place (m_shifts (meta_of ?ix)) ?bs (?H ?p) t df j" using new(3) unfolding hp .
    obtain ix' where ix': "put_new fuel (file_clear_and_fill fuel F (mf_bytes f)) (fp_cap F) 0 (fp_hash F k) ?p j df ?ix = Some (Ok, ix')"
      "index_inv (fp_cap F) ?H ix'" "mset (entries (ix_buckets ix')) = add_mset ?p (mset (entries ?bs))"
      "length (ix_buckets ix') \<le> max (length ?bs) (4 * Size ?ix)"
      using put_new_result[OF ix r small fuel o, of 0] unfolding hp by blast
    have "file_Put fuel s F k v d = Some (Ok, \<lparr>fd_index = ix', fd_file = f\<rparr>)" using new(2) ix'(1) by (simp add: file_Put_def add p(1))
    then show ?thesis using file_inv_new[OF inv ok new(1) ix'(2,3) p(2)] ix'(4) by fastforce
  qed
qed

lemma file_Put_fails:
  assumes inv: "file_inv F kvalid vvalid d rs" and fuel: "length (ix_buckets (fd_index d)) < fuel"
    and "\<not> fits s (length (KeyValPair_Pack (fp_K F) (fp_V F) k v)) (fd_file d)"
  shows "\<exists>st. file_Put fuel s F k v d = Some (st, d) \<and> st \<noteq> Ok"
proof -
  obtain st f where add: "Add s (KeyValPair_Pack (fp_K F) (fp_V F) k v) (fd_file d) = (Inl st, f)"
    using assms(3) unfolding Add_fits[symmetric] by (metis obj_sumE surj_pair)
  then have "st \<noteq> Ok" "f = fd_file d" using Add_result(1) by blast+
  then show ?thesis using file_find_key_result[OF inv fuel, of k] add by (auto simp: file_Put_def file_Update_def)
qed

section \<open>Merging\<close>

lemma merge_from_data_result:
  assumes "index_inv (fp_cap F) H ix" and "Size ix + length (live F p ra) \<le> fp_cap F (length (ix_buckets ix))"
    and "length (ix_buckets ix) < fuel" and "n = length (live F p ra)" and "drop p data = file_bytes F ra @ rest"
    and "\<forall>r \<in> set ra. rec_ok kvalid vvalid r" and "\<forall>(q, r) \<in> set (live F p ra). H (cur + q) = fp_hash F (fst (snd r))"
  shows "\<exists>ix'. merge_from_data fuel F data cur n p ix = Some (Ok, ix') \<and> index_inv (fp_cap F) H ix'
    \<and> length (ix_buckets ix') = length (ix_buckets ix)
    \<and> mset (entries (ix_buckets ix')) = mset (entries (ix_buckets ix)) + mset (map (\<lambda>x. cur + fst x) (live F p ra))"
  using assms
proof (induction ra arbitrary: p n ix)
  case Nil
  then show ?case by (simp add: live_simps merge_from_data.simps)
next
  case (Cons r ra)
  obtain flags k v where r: "r = (flags, k, v)" by (cases r) auto
  let ?len = "length (rec_bytes F r)" and ?bs = "ix_buckets ix" and ?sh = "m_shifts (meta_of ix)"
  note i = index_invD[OF Cons.prems(1)]
  have d: "drop p data = rec_bytes F (flags, k, v) @ (file_bytes F ra @ rest)" using Cons.prems(5) r by simp
  have ok: "rec_ok kvalid vvalid (flags, k, v)" using Cons.prems(6) r by simp
  note reads = rec_reads[OF ok d]
  have lt: "p < length data" using d rec_not_Nil[of r] r by (metis append_is_Nil_conv drop_all not_le)
  have "drop (p + ?len) data = drop ?len (drop p data)" by (simp add: add.commute)
  then have d': "drop (p + ?len) data = file_bytes F ra @ rest" unfolding d r by simp
  show ?case
  proof (cases "n = 0")
    case True
    then show ?thesis using Cons.prems by (simp add: merge_from_data.simps[of _ _ _ _ 0])
  next
    case n: False
    show ?thesis
    proof (cases "flag_invalid flags")
      case True
      then have "merge_from_data fuel F data cur n p ix = merge_from_data fuel F data cur n (p + ?len) ix"
        using n lt reads r by (simp add: merge_from_data.simps[of _ _ _ _ n p])
      then show ?thesis using Cons.IH[OF Cons.prems(1) _ Cons.prems(3) _ d'] Cons.prems True r by (simp add: live_simps)
    next
      case False
      have size: "Suc (Size ix) + length (live F (p + ?len) ra) \<le> fp_cap F (length ?bs)" using Cons.prems(2) False r by (simp add: live_simps)
      have lt': "fp_cap F (length ?bs) < length ?bs" by (rule cap_lt[OF shifts_bound(1)[OF i(2)]])
      have e: "has_empty ?bs" unfolding has_empty_iff using size lt' i(5) by (simp add: Size_def)
      have h: "H (cur + p) = fp_hash F k" using Cons.prems(7) False r by (simp add: live_simps)
      obtain bs1 where b1: "fill_bucket fuel ?sh H (cur + p) ?bs = Some bs1" "table_wf ?sh H bs1" "length bs1 = length ?bs"
        "mset (entries bs1) = add_mset (cur + p) (mset (entries ?bs))"
        using fill_bucket_result[OF i(1) e Cons.prems(3)] by blast
      let ?ix = "inc_size (ix\<lparr>ix_buckets := bs1\<rparr>)"
      have l: "length (entries bs1) = Suc (length (entries ?bs))" using arg_cong[OF b1(4), of size] by simp
      have ix1: "index_inv (fp_cap F) H ?ix" "ix_buckets ?ix = bs1" "Size ?ix = Suc (Size ix)"
        using b1 l i size by (auto simp: index_inv_def inc_size_def Let_def Size_def)
      have s: "merge_from_data fuel F data cur n p ix = merge_from_data fuel F data cur (n - 1) (p + ?len) ?ix"
        using n lt reads r False b1(1) h by (simp add: merge_from_data.simps[of _ _ _ _ n p] fill_bucket_def)
      obtain ix2 where "merge_from_data fuel F data cur (n - 1) (p + ?len) ?ix = Some (Ok, ix2)" "index_inv (fp_cap F) H ix2"
        "length (ix_buckets ix2) = length ?bs"
        "mset (entries (ix_buckets ix2)) = mset (entries bs1) + mset (map (\<lambda>x. cur + fst x) (live F (p + ?len) ra))"
        using Cons.IH[OF ix1(1) _ _ _ d', of "n - 1"] Cons.prems(3,4,6,7) size False r b1(3) unfolding ix1(2,3) by (auto simp: live_simps)
      then show ?thesis using s b1 False r by (simp add: live_simps)
    qed
  qed
qed

text \<open>The index of the merged file, as it is before the file is extended.\<close>

lemma file_Merge_index:
  assumes inv: "file_inv F kvalid vvalid d rs" "file_inv F kvalid vvalid other ro"
    and size: "Size (fd_index d) + Size (fd_index other) \<le> 2 ^ 20" and n: "length (ix_buckets (fd_index d)) \<le> 2 ^ 22" and fuel: "2 ^ 22 < fuel"
  shows "\<exists>ix. (\<forall>s. file_Merge fuel s F False other d =
        (case Add s (file_bytes F ro) (fd_file d) of
           (Inl st, f) \<Rightarrow> Some (st, \<lparr>fd_index = ix, fd_file = f\<rparr>) | (Inr _, f) \<Rightarrow> Some (Ok, \<lparr>fd_index = ix, fd_file = f\<rparr>)))
    \<and> index_inv (fp_cap F) (place_hash F (file_bytes F (rs @ ro))) ix \<and> length (ix_buckets ix) \<le> 2 ^ 22
    \<and> mset (entries (ix_buckets ix)) = mset (map fst (live F 0 (rs @ ro)))"
proof -
  note i = file_invD[OF inv(1)] and o = file_invD[OF inv(2)]
  let ?t = "Size (fd_index d) + Size (fd_index other)" and ?H = "place_hash F (file_bytes F (rs @ ro))"
  have est: "?t \<le> fp_estimate F ?t" "fp_estimate F ?t \<le> 2 ^ 21" using estimate_ge[of ?t] estimate_le[of ?t] size by simp_all
  have ix: "index_inv (fp_cap F) ?H (fd_index d)"
    using i(3) index_inv_cong[of "fd_index d" ?H "place_hash F (file_bytes F rs)" "fp_cap F"] hash_append[OF inv(1), of _ "file_bytes F ro"] by simp
  have "\<forall>(q, r) \<in> set (live F 0 rs). ?H q = fp_hash F (fst (snd r))" using live_hash[OF i(2), of "file_bytes F ro"] by simp
  then have r: "refills fuel (fp_cap F) ?H (mset (entries (ix_buckets (fd_index d)))) (file_clear_and_fill fuel F (mf_bytes (fd_file d)))"
    using file_refills[OF i(2), of ?H fuel "fp_cap F" "[]"] i(1,4) by simp
  obtain ix1 where ix1: "reserve (file_clear_and_fill fuel F (mf_bytes (fd_file d))) (fp_cap F) 0 (fp_estimate F ?t) (fd_index d) = Some (Ok, ix1)"
    "index_inv (fp_cap F) ?H ix1" "mset (entries (ix_buckets ix1)) = mset (entries (ix_buckets (fd_index d)))"
    "fp_estimate F ?t \<le> fp_cap F (length (ix_buckets ix1))" "length (ix_buckets ix1) \<le> 2 ^ 22"
    using reserve_result[OF ix r _ est(2) fuel, of 0] n est(1) by auto
  have s1: "Size ix1 = Size (fd_index d)"
    using arg_cong[OF ix1(3), of size] index_invD(5)[OF ix] index_invD(5)[OF ix1(2)] by (simp add: Size_def)
  have so: "Size (fd_index other) = length (live F 0 ro)"
    using index_invD(5)[OF o(3)] arg_cong[OF o(4), of size] by (simp add: Size_def)
  have all: "\<forall>r \<in> set (rs @ ro). rec_ok kvalid vvalid r" using i(2) o(2) by auto
  have l: "live F 0 (rs @ ro) = live F 0 rs @ map (\<lambda>(p, r). (length (file_bytes F rs) + p, r)) (live F 0 ro)"
    using live_shift[of F "length (file_bytes F rs)" 0 ro] by (simp add: live_append)
  have h: "\<forall>(q, r) \<in> set (live F 0 ro). ?H (length (file_bytes F rs) + q) = fp_hash F (fst (snd r))"
    using live_hash[OF all, of "[]"] unfolding l by (simp add: ball_Un case_prod_unfold)
  obtain ix2 where ix2: "merge_from_data fuel F (file_bytes F ro) (length (file_bytes F rs)) (Size (fd_index other)) 0 ix1 = Some (Ok, ix2)"
    "index_inv (fp_cap F) ?H ix2" "length (ix_buckets ix2) = length (ix_buckets ix1)"
    "mset (entries (ix_buckets ix2)) = mset (entries (ix_buckets ix1)) + mset (map (\<lambda>x. length (file_bytes F rs) + fst x) (live F 0 ro))"
    using merge_from_data_result[OF ix1(2), of 0 ro fuel "Size (fd_index other)" "file_bytes F ro" "[]" "length (file_bytes F rs)"]
      ix1(4,5) est(1) s1 so o(2) h fuel by auto
  have "mset (entries (ix_buckets ix2)) = mset (map fst (live F 0 (rs @ ro)))"
    unfolding ix2(4) ix1(3) i(4) l by (simp add: comp_def case_prod_unfold)
  then show ?thesis using ix1 ix2 by (intro exI[of _ ix2]) (simp add: file_Merge_def Let_def i(1) o(1))
qed

end

end
