(* ===== verification/RdictFileRun.thy ===== *)
theory RdictFileRun
  imports RdictFileProps
begin

text \<open>
  Runs of the dictionary with a data file: storing, committing, opening again and merging.
\<close>

section \<open>Runs\<close>

text \<open>A sequence of calls of \<^verbatim>\<open>Put\<close>, each with what the operating system answers during the call.\<close>

fun file_Puts :: "nat \<Rightarrow> ('k, 'v) file_params \<Rightarrow> (sys \<times> 'k \<times> 'v) list \<Rightarrow> fdict \<Rightarrow> (Status list \<times> fdict) option" where
  "file_Puts fuel F [] d = Some ([], d)"
| "file_Puts fuel F ((s, k, v) # calls) d =
     Option.bind (file_Put fuel s F k v d) (\<lambda>(st, d). map_option (\<lambda>(sts, d). (st # sts, d)) (file_Puts fuel F calls d))"

text \<open>The pairs of the calls that succeeded.\<close>

fun accepted :: "(sys \<times> 'k \<times> 'v) list \<Rightarrow> Status list \<Rightarrow> ('k \<times> 'v) list" where
  "accepted ((s, k, v) # calls) (st # sts) = (if st = Ok then (k, v) # accepted calls sts else accepted calls sts)"
| "accepted calls sts = []"

text \<open>A new dictionary and a sequence of calls.\<close>

definition file_dict_of ::
  "nat \<Rightarrow> sys \<Rightarrow> ('k, 'v) file_params \<Rightarrow> string \<Rightarrow> nat \<Rightarrow> (sys \<times> 'k \<times> 'v) list \<Rightarrow> (Status list \<times> fdict) option" where
  "file_dict_of fuel s F path reserved calls =
     (case file_Init fuel s F path reserved 0 False [] NoFile of
        Some (_, Some d) \<Rightarrow> file_Puts fuel F calls d
      | _ \<Rightarrow> None)"

text \<open>An operating system that does what it is asked for, with a file of the given size.\<close>

definition sys_ok :: "nat \<Rightarrow> sys" where
  "sys_ok n = \<lparr>sys_open = True, sys_fstat = Some n, sys_truncate = True, sys_reserve = True, sys_mmap = True\<rparr>"

text \<open>A dictionary from strings to strings with the default load factor.\<close>

definition string_params :: "(byte list \<Rightarrow> u64) \<Rightarrow> (byte list, byte list) file_params" where
  "string_params H =
     \<lparr>fp_hash = H, fp_K = string_serializer, fp_V = string_serializer, fp_cap = default_cap, fp_estimate = default_estimate\<rparr>"

interpretation string_dict: file_dict "string_params H" valid_string valid_string for H
  unfolding file_dict_def string_params_def file_params.select_convs
  by (intro conjI string_pair.pair_serializer_axioms default_load.load_factor_axioms)

lemma new_file:
  "MmapFile_Init (sys_ok n) path reserved readonly data = Inr f \<Longrightarrow> mf_bytes f = data \<and> \<not> mf_readonly f \<and> length data \<le> mf_capacity f"
  by (auto simp: MmapFile_Init_def sys_ok_def Let_def split: if_splits)

lemma new_file_returns: "\<exists>f. MmapFile_Init (sys_ok n) path reserved readonly data = Inr f"
  by (simp add: MmapFile_Init_def sys_ok_def Let_def)

lemma new_buckets_result:
  shows "\<exists>ix. new_buckets refill cap z 0 no_index = Some (Ok, ix) \<and> index_inv cap H ix \<and> entries (ix_buckets ix) = []
    \<and> length (ix_buckets ix) = 4 \<and> Size ix = 0"
proof -
  have "calc_num_buckets 62 = 4" "calc_num_buckets 62 \<noteq> max_bucket_count" using calc_num_buckets_small[of 62] by simp_all
  moreover have "shifts_ok 62 4" by (simp add: shifts_ok_def)
  ultimately show ?thesis
    by (simp add: no_index_def new_buckets_def clear_buckets_def allocate_buckets_from_shift_def Let_def initial_shifts_def index_inv_def
        Size_def empty_table_wf)
qed

context file_dict
begin

lemma file_Init_result:
  "\<exists>d. file_Init fuel (sys_ok n) F path reserved 0 readonly [] file = Some (Ok, Some d) \<and> file_inv F kvalid vvalid d []
     \<and> length (ix_buckets (fd_index d)) = 4 \<and> Size (fd_index d) = 0"
proof -
  obtain f where f: "MmapFile_Init (sys_ok n) (path @ ''.data'') reserved readonly [] = Inr f" "mf_bytes f = []"
    using new_file_returns new_file by blast
  show ?thesis
    using new_buckets_result[of "file_clear_and_fill fuel F []" "fp_cap F" 0 "place_hash F []"] f
    by (auto simp: file_Init_def file_inv_def live_simps)
qed

lemma Size_insert: "file_inv F kvalid vvalid d rs \<Longrightarrow> file_inv F kvalid vvalid d' rs' \<Longrightarrow> live_map F rs' = (live_map F rs)(k \<mapsto> v) \<Longrightarrow>
    Size (fd_index d) \<le> Size (fd_index d') \<and> Size (fd_index d') \<le> Suc (Size (fd_index d))"
  using finite_dom_map_of[of "map pair_at (live F 0 rs)"] by (simp add: file_Size_result card_insert_if live_map_def[of F rs])

lemma file_Puts_result:
  assumes "file_inv F kvalid vvalid d rs" and "length (ix_buckets (fd_index d)) \<le> 4 * max 1 (Size (fd_index d))"
    and "Size (fd_index d) + length calls \<le> 2 ^ 20" and "2 ^ 23 < fuel" and "\<forall>(s, k, v) \<in> set calls. kvalid k \<and> vvalid v"
  shows "\<exists>sts d' rs'. file_Puts fuel F calls d = Some (sts, d') \<and> length sts = length calls \<and> file_inv F kvalid vvalid d' rs'
    \<and> live_map F rs' = live_map F rs ++ map_of (rev (accepted calls sts)) \<and> length (ix_buckets (fd_index d')) \<le> 2 ^ 22"
  using assms
proof (induction calls arbitrary: d rs)
  case Nil
  then show ?case by (auto simp: max_def split: if_splits)
next
  case (Cons c calls)
  obtain s k v where c: "c = (s, k, v)" by (cases c) auto
  have kv: "kvalid k" "vvalid v" using Cons.prems(5) c by simp_all
  have rest: "\<forall>(s, k, v) \<in> set calls. kvalid k \<and> vvalid v" using Cons.prems(5) by simp
  have n: "length (ix_buckets (fd_index d)) \<le> 2 ^ 22" using Cons.prems(2,3) by (auto simp: max_def split: if_splits)
  then have f: "2 * length (ix_buckets (fd_index d)) < fuel" using Cons.prems(4) by simp
  show ?case
  proof (cases "fits s (length (KeyValPair_Pack (fp_K F) (fp_V F) k v)) (fd_file d)")
    case True
    obtain d1 rs1 where d1: "file_Put fuel s F k v d = Some (Ok, d1)" "file_inv F kvalid vvalid d1 rs1"
      "live_map F rs1 = (live_map F rs)(k \<mapsto> v)" "length (ix_buckets (fd_index d1)) \<le> max (length (ix_buckets (fd_index d))) (4 * Size (fd_index d))"
      using file_Put_result[OF Cons.prems(1) kv n f True] by blast
    note sz = Size_insert[OF Cons.prems(1) d1(2,3)]
    have "length (ix_buckets (fd_index d1)) \<le> 4 * max 1 (Size (fd_index d1))" using d1(4) Cons.prems(2) sz by (auto simp: max_def split: if_splits)
    moreover have "Size (fd_index d1) + length calls \<le> 2 ^ 20" using sz Cons.prems(3) by simp
    ultimately obtain sts d' rs' where r: "file_Puts fuel F calls d1 = Some (sts, d')" "length sts = length calls" "file_inv F kvalid vvalid d' rs'"
      "live_map F rs' = live_map F rs1 ++ map_of (rev (accepted calls sts))" "length (ix_buckets (fd_index d')) \<le> 2 ^ 22"
      using Cons.IH[OF d1(2) _ _ Cons.prems(4) rest] by blast
    have "live_map F rs' = live_map F rs ++ map_of (rev (accepted (c # calls) (Ok # sts)))"
      unfolding r(4) d1(3) by (auto simp: c map_add_def fun_eq_iff split: option.splits)
    then show ?thesis using r d1(1) by (intro exI[of _ "Ok # sts"] exI[of _ d'] exI[of _ rs']) (simp add: c)
  next
    case False
    obtain st where st: "file_Put fuel s F k v d = Some (st, d)" "st \<noteq> Ok"
      using file_Put_fails[OF Cons.prems(1) _ False, of fuel] f by auto
    obtain sts d' rs' where r: "file_Puts fuel F calls d = Some (sts, d')" "length sts = length calls" "file_inv F kvalid vvalid d' rs'"
      "live_map F rs' = live_map F rs ++ map_of (rev (accepted calls sts))" "length (ix_buckets (fd_index d')) \<le> 2 ^ 22"
      using Cons.IH[OF Cons.prems(1,2) _ Cons.prems(4) rest] Cons.prems(3) by auto
    then show ?thesis using st by (intro exI[of _ "st # sts"] exI[of _ d'] exI[of _ rs']) (simp add: c)
  qed
qed

lemma file_dict_of_result:
  assumes "length calls \<le> 2 ^ 20" and "2 ^ 23 < fuel" and "\<forall>(s, k, v) \<in> set calls. kvalid k \<and> vvalid v"
  obtains sts d rs where "file_dict_of fuel (sys_ok 0) F path reserved calls = Some (sts, d)" "length sts = length calls" "file_inv F kvalid vvalid d rs"
    "live_map F rs = map_of (rev (accepted calls sts))" "length (ix_buckets (fd_index d)) \<le> 2 ^ 22"
proof -
  obtain d0 where d0: "file_Init fuel (sys_ok 0) F path reserved 0 False [] NoFile = Some (Ok, Some d0)" "file_inv F kvalid vvalid d0 []"
    "length (ix_buckets (fd_index d0)) = 4" "Size (fd_index d0) = 0" using file_Init_result by blast
  have "live_map F [] = Map.empty" by (simp add: live_map_def live_simps)
  then show thesis using file_Puts_result[OF d0(2), of calls fuel] d0 assms that by (auto simp: file_dict_of_def)
qed

lemma file_dict_of_inv:
  assumes "length calls \<le> 2 ^ 20" and "2 ^ 23 < fuel" and "\<forall>(s, k, v) \<in> set calls. kvalid k \<and> vvalid v"
    and "file_dict_of fuel (sys_ok 0) F path reserved calls = Some (sts, d)"
  obtains rs where "file_inv F kvalid vvalid d rs" "live_map F rs = map_of (rev (accepted calls sts))" "length (ix_buckets (fd_index d)) \<le> 2 ^ 22"
proof -
  obtain sts' d' rs where r: "file_dict_of fuel (sys_ok 0) F path reserved calls = Some (sts', d')" "file_inv F kvalid vvalid d' rs"
    "live_map F rs = map_of (rev (accepted calls sts'))" "length (ix_buckets (fd_index d')) \<le> 2 ^ 22"
    by (rule file_dict_of_result[OF assms(1-3)])
  then have "sts' = sts" "d' = d" using assms(4) by simp_all
  then show thesis using that r(2-4) by simp
qed

lemma lookups:
  assumes "file_inv F kvalid vvalid d rs" and "length (ix_buckets (fd_index d)) \<le> 2 ^ 22" and "2 ^ 23 < fuel" and "live_map F rs = map_of (rev kvs)"
  shows "file_Get fuel F k d = Some (lookup_result (map_of (rev kvs) k))" "file_Exists fuel F k d = Some (k \<in> fst ` set kvs)"
    "Size (fd_index d) = card (fst ` set kvs)"
proof -
  have f: "length (ix_buckets (fd_index d)) < fuel" using assms(2,3) by simp
  show "file_Get fuel F k d = Some (lookup_result (map_of (rev kvs) k))"
    using file_Get_result(1)[OF assms(1) f, of k] by (simp add: assms(4) lookup_result_def)
  have "live_map F rs k \<noteq> None \<longleftrightarrow> k \<in> fst ` set kvs"
    using map_of_rev_dom[of kvs] unfolding assms(4) by (metis domIff)
  then show "file_Exists fuel F k d = Some (k \<in> fst ` set kvs)" using file_Get_result(2)[OF assms(1) f, of k] by simp
  show "Size (fd_index d) = card (fst ` set kvs)" by (simp only: file_Size_result[OF assms(1)] assms(4) map_of_rev_dom)
qed

end

section \<open>Dangling places\<close>

text \<open>A search ends in a read outside of the file when the entry it looks for is not in the file.\<close>

lemma search_file_dangling:
  assumes "\<And>i. i < length bs \<Longrightarrow> b_df (bs ! i) \<noteq> 0 \<Longrightarrow> key' (b_entry (bs ! i)) \<in> {None, Some (key (b_entry (bs ! i)))}"
    and "i < length bs" and "0 < unat df" and "unat df + 256 * fuel < 2 ^ 32"
    and "search_loop fuel key bs k df i = Some (Found j)" and "key' (b_entry (bs ! j)) = None"
  shows "search_file fuel' key' bs k df i = None"
  using assms(2-5)
proof (induction fuel arbitrary: df i fuel')
  case (Suc fuel)
  have d: "unat (dist_inc df) = unat df + 256" using dist_inc_unat[of df] Suc.prems(3) by simp
  have i: "next_idx (length bs) i < length bs" using Suc.prems(1) by simp
  have key: "key' (b_entry (bs ! i)) \<in> {None, Some (key (b_entry (bs ! i)))}" if "df = b_df (bs ! i)"
    using assms(1)[OF Suc.prems(1)] that Suc.prems(2) by (auto simp: df_0_iff)
  have IH: "search_file f key' bs k (dist_inc df) (next_idx (length bs) i) = None"
    if "search_loop fuel key bs k (dist_inc df) (next_idx (length bs) i) = Some (Found j)" for f
    by (rule Suc.IH[OF i _ _ that]) (use d Suc.prems in simp_all)
  show ?case
  proof (cases fuel')
    case (Suc f)
    then show ?thesis using Suc.prems(4) key IH[of f] assms(6) by (auto split: if_splits option.splits)
  qed simp
qed simp

context file_dict
begin

lemma dangling_Get:
  assumes all: "\<forall>r \<in> set (rs @ ro). rec_ok kvalid vvalid r" and nil: "sz_Unpack (fp_K F) [] = None"
    and inv: "index_inv (fp_cap F) (place_hash F (file_bytes F (rs @ ro))) ix"
    and e: "mset (entries (ix_buckets ix)) = mset (map fst (live F 0 (rs @ ro)))" and bytes: "mf_bytes f = file_bytes F rs"
    and k: "k \<in> (fst \<circ> pair_at) ` set (live F 0 ro)" "k \<notin> (fst \<circ> pair_at) ` set (live F 0 rs)"
  shows "file_Get fuel F k \<lparr>fd_index = ix, fd_file = f\<rparr> = None"
proof -
  let ?all = "file_bytes F (rs @ ro)" and ?n = "length (file_bytes F rs)" and ?bs = "ix_buckets ix" and ?sh = "m_shifts (meta_of ix)"
  let ?key = "\<lambda>p. the (GetKey F ?all p)" and ?df = "dist_and_fingerprint_from_hash (fp_hash F k)"
  let ?i = "bucket_idx_from_hash ?sh (fp_hash F k)"
  have l: "live F 0 (rs @ ro) = live F 0 rs @ map (\<lambda>(p, r). (?n + p, r)) (live F 0 ro)"
    using live_shift[of F ?n 0 ro] by (simp add: live_append)
  have ok: "\<forall>r \<in> set rs. rec_ok kvalid vvalid r" using all by simp
  have out: "GetKey F (file_bytes F rs) (?n + p) = None" for p by (simp add: GetKey_def GetKeyValData_def UnpackKey_def nil)
  have reads: "GetKey F (file_bytes F rs) p \<in> {None, Some k'} \<and> ?key p = k' \<and> (k' = k \<longrightarrow> GetKey F (file_bytes F rs) p = None)"
    if "(p, flags, k', v) \<in> set (live F 0 (rs @ ro))" for p flags k' v
  proof -
    have "?key p = k'" using live_reads(1)[OF all that, of "[]"] by simp
    moreover consider "(p, flags, k', v) \<in> set (live F 0 rs)" | q where "p = ?n + q" using \<open>_ \<in> set (live F 0 (rs @ ro))\<close> unfolding l by auto
    then have "GetKey F (file_bytes F rs) p = None \<or> GetKey F (file_bytes F rs) p = Some k' \<and> k' \<noteq> k"
    proof cases
      case 1
      then show ?thesis using live_reads(1)[OF ok 1, of "[]"] k(2) by (force simp: pair_at_def)
    qed (simp add: out)
    ultimately show ?thesis by auto
  qed
  have set: "set (entries ?bs) = fst ` set (live F 0 (rs @ ro))" using mset_eq_setD[OF e] by simp
  have at: "GetKey F (file_bytes F rs) (b_entry (?bs ! j)) \<in> {None, Some (?key (b_entry (?bs ! j)))}
      \<and> (?key (b_entry (?bs ! j)) = k \<longrightarrow> GetKey F (file_bytes F rs) (b_entry (?bs ! j)) = None)"
    if "j < length ?bs" "b_df (?bs ! j) \<noteq> 0" for j
  proof -
    have "b_entry (?bs ! j) \<in> set (entries ?bs)" using that unfolding entries_nth by blast
    then obtain flags k' v where "(b_entry (?bs ! j), flags, k', v) \<in> set (live F 0 (rs @ ro))" unfolding set by auto
    then show ?thesis using reads by blast
  qed
  obtain p flags v where "(p, flags, k, v) \<in> set (live F 0 ro)" using k(1) by (auto simp: pair_at_def)
  then have pk: "(?n + p, flags, k, v) \<in> set (live F 0 (rs @ ro))" unfolding l by force
  then have "k \<in> ?key ` set (entries ?bs)" using reads[OF pk] unfolding set by force
  moreover have wf: "table_wf ?sh (\<lambda>e. fp_hash F (?key e)) ?bs" using index_invD(1)[OF inv] by (simp add: place_hash_def[abs_def])
  ultimately obtain j where j: "search_loop (Suc (length ?bs)) ?key ?bs k ?df ?i = Some (Found j)" "j < length ?bs" "b_df (?bs ! j) \<noteq> 0"
    "?key (b_entry (?bs ! j)) = k"
    using search_finds[where hash = "fp_hash F" and key = ?key and fuel = "Suc (length ?bs)", OF wf lessI refl, of k] by blast
  have sh: "shifts_ok ?sh (length ?bs)" by (rule index_invD(2)[OF inv])
  have df: "0 < unat ?df" "unat ?df + 256 * Suc (length ?bs) < 2 ^ 32"
    using df_from_hash[of "fp_hash F k"] fingerprint_lt[of "fp_hash F k"] shifts_bound(2)[OF sh] by simp_all
  have none: "GetKey F (file_bytes F rs) (b_entry (?bs ! j)) = None" using at[OF j(2,3)] j(4) by simp
  have "search_file fuel (GetKey F (file_bytes F rs)) ?bs k ?df ?i = None"
    by (rule search_file_dangling[where key = ?key, OF conjunct1[OF at] shifts_bound(3)[OF sh] df j(1) none])
  then show ?thesis by (simp add: file_Get_def file_find_key_def bytes Let_def)
qed

text \<open>The keys of the valid records.\<close>

lemma live_keys: "(fst \<circ> pair_at) ` set (live F 0 rs) = dom (live_map F rs)"
  by (simp add: live_map_def dom_map_of_conv_image_fst image_comp)

end

section \<open>Properties\<close>


text \<open>A key, a value and a system for examples.\<close>

definition sample_call :: "byte \<Rightarrow> byte \<Rightarrow> sys \<times> byte list \<times> byte list" where
  "sample_call k v = (sys_ok 0, [k], [v])"

lemma sample_calls_valid: "\<forall>(s, k, v) \<in> set [sample_call a b]. valid_string k \<and> valid_string v"
  by (simp add: sample_call_def)

lemma sample_fits:
  "\<exists>d. file_dict_of 16777216 (sys_ok 0) (string_params (\<lambda>_. 0)) ''db'' 0 [sample_call a b] = Some ([Ok], d)
     \<and> length (mf_bytes (fd_file d)) = 16 \<and> mf_capacity (fd_file d) = kSegmentSize \<and> \<not> mf_readonly (fd_file d)"
  by (simp add: file_dict_of_def file_Init_def MmapFile_Init_def sys_ok_def kSegmentSize_def sample_call_def file_Put_def file_find_key_def
      Add_def KeyValPair_Pack_def string_params_def string_serializer_def allign_def loop_numeral search_file.simps(2)[of "pred_numeral v" for v, folded numeral_eq_Suc]
      index_eval del: mem32_of_mem32)




context file_dict
begin

lemma file_Merge_result:
  assumes inv: "file_inv F kvalid vvalid d rs" "file_inv F kvalid vvalid other ro" and size: "Size (fd_index d) + Size (fd_index other) \<le> 2 ^ 20"
    and n: "length (ix_buckets (fd_index d)) \<le> 2 ^ 22" and fuel: "2 ^ 22 < fuel" and fits: "fits s (length (mf_bytes (fd_file other))) (fd_file d)"
  shows "\<exists>d'. file_Merge fuel s F False other d = Some (Ok, d') \<and> Size (fd_index d') = Size (fd_index d) + Size (fd_index other)
    \<and> length (ix_buckets (fd_index d')) \<le> 2 ^ 22
    \<and> (dom (live_map F rs) \<inter> dom (live_map F ro) = {} \<longrightarrow>
        file_inv F kvalid vvalid d' (rs @ ro) \<and> live_map F (rs @ ro) = live_map F rs ++ live_map F ro)"
proof -
  note i = file_invD[OF inv(1)] and o = file_invD[OF inv(2)]
  from file_Merge_index[OF inv size n fuel] obtain ix where m: "file_Merge fuel s F False other d =
        (case Add s (file_bytes F ro) (fd_file d) of
           (Inl st, f) \<Rightarrow> Some (st, \<lparr>fd_index = ix, fd_file = f\<rparr>) | (Inr _, f) \<Rightarrow> Some (Ok, \<lparr>fd_index = ix, fd_file = f\<rparr>))"
    and ix: "index_inv (fp_cap F) (place_hash F (file_bytes F (rs @ ro))) ix" "length (ix_buckets ix) \<le> 2 ^ 22"
      "mset (entries (ix_buckets ix)) = mset (map fst (live F 0 (rs @ ro)))" by blast
  obtain p f where add: "Add s (file_bytes F ro) (fd_file d) = (Inr p, f)" using fits o(1) unfolding Add_fits[symmetric] by auto
  have f: "mf_bytes f = file_bytes F (rs @ ro)" using Add_result(2)[OF add] i(1) by simp
  have l: "live F 0 (rs @ ro) = live F 0 rs @ map (\<lambda>(p, r). (length (file_bytes F rs) + p, r)) (live F 0 ro)"
    using live_shift[of F "length (file_bytes F rs)" 0 ro] by (simp add: live_append)
  have pairs: "map pair_at (live F 0 (rs @ ro)) = map pair_at (live F 0 rs) @ map pair_at (live F 0 ro)"
    unfolding l by (simp add: pair_at_def case_prod_unfold)
  then have keys: "map (fst \<circ> pair_at) (live F 0 (rs @ ro)) = map (fst \<circ> pair_at) (live F 0 rs) @ map (fst \<circ> pair_at) (live F 0 ro)"
    unfolding map_map[symmetric] by simp
  have "Size ix = length (live F 0 (rs @ ro))" "Size (fd_index d) = length (live F 0 rs)" "Size (fd_index other) = length (live F 0 ro)"
    using index_invD(5)[OF ix(1)] arg_cong[OF ix(3), of size] index_invD(5)[OF i(3)] arg_cong[OF i(4), of size]
      index_invD(5)[OF o(3)] arg_cong[OF o(4), of size] by (simp_all add: Size_def)
  then have s: "Size ix = Size (fd_index d) + Size (fd_index other)" by (simp add: l)
  have "file_inv F kvalid vvalid \<lparr>fd_index = ix, fd_file = f\<rparr> (rs @ ro) \<and> live_map F (rs @ ro) = live_map F rs ++ live_map F ro"
    if dis: "dom (live_map F rs) \<inter> dom (live_map F ro) = {}"
  proof
    have "distinct (map (fst \<circ> pair_at) (live F 0 (rs @ ro)))" unfolding keys using i(5) o(5) dis unfolding live_keys[symmetric] by auto
    then show "file_inv F kvalid vvalid \<lparr>fd_index = ix, fd_file = f\<rparr> (rs @ ro)"
      using ix(1,3) f i(2) o(2) by (auto simp: file_inv_def simp del: file_bytes_simps)
    have "live_map F (rs @ ro) = live_map F ro ++ live_map F rs" unfolding live_map_def pairs by simp
    then show "live_map F (rs @ ro) = live_map F rs ++ live_map F ro" using map_add_comm[OF dis] by simp
  qed
  then show ?thesis using m add ix(2) s by auto
qed

end

lemma accepted_length: "length (accepted calls sts) \<le> length calls"
  by (induction calls sts rule: accepted.induct) auto

lemma accepted_keys: "card (fst ` set (accepted calls sts)) \<le> length calls"
  using card_image_le[of "set (accepted calls sts)" fst] card_length[of "accepted calls sts"] accepted_length[of calls sts] by simp

text \<open>
  C39. \<^verbatim>\<open>Merge\<close> of two dictionaries with data files, when the file of the first one has or gets room for all data of the second: it returns
  \<^verbatim>\<open>Ok\<close> and adds the sizes up, and when the two have no key in common the result is the union of the two maps.
\<close>

theorem rdict_file_merge:
  assumes "length calls + length calls' \<le> 2 ^ 20" and "2 ^ 23 < fuel"
    and "\<forall>(s, k, v) \<in> set calls. valid_string k \<and> valid_string v" and "\<forall>(s, k, v) \<in> set calls'. valid_string k \<and> valid_string v"
    and "F = string_params H" and "file_dict_of fuel (sys_ok 0) F path reserved calls = Some (sts, d)"
    and "file_dict_of fuel (sys_ok 0) F path' reserved' calls' = Some (sts', d')"
    and "fits s (length (mf_bytes (fd_file d'))) (fd_file d)"
  shows "\<exists>m. file_Merge fuel s F False d' d = Some (Ok, m) \<and> Size (fd_index m) = Size (fd_index d) + Size (fd_index d')
    \<and> (fst ` set (accepted calls sts) \<inter> fst ` set (accepted calls' sts') = {} \<longrightarrow>
        (\<forall>k. file_Get fuel F k m = Some (lookup_result (map_of (rev (accepted calls sts @ accepted calls' sts')) k))))"
proof -
  have c: "length calls \<le> 2 ^ 20" "length calls' \<le> 2 ^ 20" using assms(1) by simp_all
  obtain rs where r: "file_inv F valid_string valid_string d rs" "live_map F rs = map_of (rev (accepted calls sts))"
    "length (ix_buckets (fd_index d)) \<le> 2 ^ 22"
    using string_dict.file_dict_of_inv[OF c(1) assms(2,3) assms(6)[unfolded assms(5)]] unfolding assms(5) by blast
  obtain ro where o: "file_inv F valid_string valid_string d' ro" "live_map F ro = map_of (rev (accepted calls' sts'))"
    "length (ix_buckets (fd_index d')) \<le> 2 ^ 22"
    using string_dict.file_dict_of_inv[OF c(2) assms(2,4) assms(7)[unfolded assms(5)]] unfolding assms(5) by blast
  have "Size (fd_index d) + Size (fd_index d') \<le> 2 ^ 20"
    using string_dict.lookups(3)[OF r(1)[unfolded assms(5)] r(3) assms(2) r(2)[unfolded assms(5)]]
      string_dict.lookups(3)[OF o(1)[unfolded assms(5)] o(3) assms(2) o(2)[unfolded assms(5)]]
      accepted_keys[of calls sts] accepted_keys[of calls' sts'] assms(1) by simp
  moreover have "2 ^ 22 < fuel" using assms(2) by simp
  ultimately obtain m where m: "file_Merge fuel s F False d' d = Some (Ok, m)" "Size (fd_index m) = Size (fd_index d) + Size (fd_index d')"
    "length (ix_buckets (fd_index m)) \<le> 2 ^ 22"
    "dom (live_map F rs) \<inter> dom (live_map F ro) = {} \<longrightarrow>
        file_inv F valid_string valid_string m (rs @ ro) \<and> live_map F (rs @ ro) = live_map F rs ++ live_map F ro"
    using string_dict.file_Merge_result[OF r(1)[unfolded assms(5)] o(1)[unfolded assms(5)] _ r(3) _ assms(8)] unfolding assms(5) by blast
  have "file_Get fuel F k m = Some (lookup_result (map_of (rev (accepted calls sts @ accepted calls' sts')) k))"
    if "fst ` set (accepted calls sts) \<inter> fst ` set (accepted calls' sts') = {}" for k
  proof -
    have i: "file_inv F valid_string valid_string m (rs @ ro)" "live_map F (rs @ ro) = map_of (rev (accepted calls sts @ accepted calls' sts'))"
      using m(4) that unfolding r(2) o(2) map_of_rev_dom by simp_all
    show ?thesis using string_dict.lookups(1)[OF i(1)[unfolded assms(5)] m(3) assms(2) i(2)[unfolded assms(5)]] unfolding assms(5) .
  qed
  then show ?thesis using m(1,2) by blast
qed

text \<open>
  C40. \<^verbatim>\<open>Merge\<close> into a dictionary that was committed, and was not opened as readonly, fails, but only when it extends the data file: the buckets
  of all keys of the other dictionary are there already and have places behind the end of the file. Whoever then looks up such
  a key reads memory behind the data.
\<close>

theorem rdict_merge_dangling:
  assumes "length calls + length calls' \<le> 2 ^ 20" and "2 ^ 23 < fuel"
    and "\<forall>(s, k, v) \<in> set calls. valid_string k \<and> valid_string v" and "\<forall>(s, k, v) \<in> set calls'. valid_string k \<and> valid_string v"
    and "F = string_params H" and "file_dict_of fuel (sys_ok 0) F path reserved calls = Some (sts, d)"
    and "file_dict_of fuel (sys_ok 0) F path' reserved' calls' = Some (sts', d')"
    and "file_Commit (sys_ok n) True d = (Ok, d1)"
  shows "\<exists>m. file_Merge fuel s F False d' d1 = Some (PermissionDenied ''unable to write readonly data'', m)
    \<and> (\<forall>k \<in> fst ` set (accepted calls' sts') - fst ` set (accepted calls sts). \<forall>fuel. file_Get fuel F k m = None)"
proof -
  have c: "length calls \<le> 2 ^ 20" "length calls' \<le> 2 ^ 20" using assms(1) by simp_all
  obtain rs where r: "file_inv F valid_string valid_string d rs" "live_map F rs = map_of (rev (accepted calls sts))"
    "length (ix_buckets (fd_index d)) \<le> 2 ^ 22"
    using string_dict.file_dict_of_inv[OF c(1) assms(2,3) assms(6)[unfolded assms(5)]] unfolding assms(5) by blast
  obtain ro where o: "file_inv F valid_string valid_string d' ro" "live_map F ro = map_of (rev (accepted calls' sts'))"
    "length (ix_buckets (fd_index d')) \<le> 2 ^ 22"
    using string_dict.file_dict_of_inv[OF c(2) assms(2,4) assms(7)[unfolded assms(5)]] unfolding assms(5) by blast
  have size: "Size (fd_index d) + Size (fd_index d') \<le> 2 ^ 20"
    using string_dict.lookups(3)[OF r(1)[unfolded assms(5)] r(3) assms(2) r(2)[unfolded assms(5)]]
      string_dict.lookups(3)[OF o(1)[unfolded assms(5)] o(3) assms(2) o(2)[unfolded assms(5)]]
      accepted_keys[of calls sts] accepted_keys[of calls' sts'] assms(1) by simp
  have d1: "d1 = set_file ((fd_file d)\<lparr>mf_readonly := True\<rparr>) d" using assms(8) by (simp add: file_Commit_def ShrinkToFit_def sys_ok_def)
  have i1: "file_inv F valid_string valid_string d1 rs" using r(1) by (simp add: file_inv_def d1)
  have f: "2 ^ 22 < fuel" using assms(2) by simp
  have "Add s (file_bytes F ro) (fd_file d1) = (Inl (PermissionDenied ''unable to write readonly data''), fd_file d1)" by (simp add: Add_def d1)
  with string_dict.file_Merge_index[OF i1[unfolded assms(5)] o(1)[unfolded assms(5)] _ _ f] size r(3)
  obtain ix where m: "file_Merge fuel s F False d' d1 =
      Some (PermissionDenied ''unable to write readonly data'', \<lparr>fd_index = ix, fd_file = fd_file d1\<rparr>)"
    and ix: "index_inv (fp_cap F) (place_hash F (file_bytes F (rs @ ro))) ix" "mset (entries (ix_buckets ix)) = mset (map fst (live F 0 (rs @ ro)))"
    unfolding assms(5) by (auto simp: d1 simp del: file_bytes_simps)
  have all: "\<forall>r \<in> set (rs @ ro). rec_ok valid_string valid_string r"
    using string_dict.file_invD(2)[OF i1[unfolded assms(5)]] string_dict.file_invD(2)[OF o(1)[unfolded assms(5)]] by auto
  have nil: "sz_Unpack (fp_K (string_params H)) [] = None" by (simp add: string_params_def string_serializer_def read_len_def)
  have bytes: "mf_bytes (fd_file d1) = file_bytes F rs" using i1 by (simp add: file_inv_def)
  have "file_Get fuel' F k \<lparr>fd_index = ix, fd_file = fd_file d1\<rparr> = None"
    if k: "k \<in> fst ` set (accepted calls' sts')" "k \<notin> fst ` set (accepted calls sts)" for k fuel'
    using string_dict.dangling_Get[OF all nil ix[unfolded assms(5)] bytes[unfolded assms(5)], of k fuel'] k
    unfolding string_dict.live_keys r(2)[unfolded assms(5)] o(2)[unfolded assms(5)] map_of_rev_dom assms(5) by blast
  then show ?thesis using m by (intro exI[of _ "\<lparr>fd_index = ix, fd_file = fd_file d1\<rparr>"]) simp
qed

theorem rdict_file_merge_witness:
  "\<exists>a b m. file_dict_of 16777216 (sys_ok 0) (string_params (\<lambda>_. 0)) ''db'' 0 [sample_call 1 2] = Some ([Ok], a)
    \<and> file_dict_of 16777216 (sys_ok 0) (string_params (\<lambda>_. 0)) ''db'' 0 [sample_call 3 4] = Some ([Ok], b)
    \<and> file_Merge 16777216 (sys_ok 0) (string_params (\<lambda>_. 0)) False b a = Some (Ok, m)
    \<and> file_Get 16777216 (string_params (\<lambda>_. 0)) [3] m = Some (Inr [4])"
proof -
  obtain a where a: "file_dict_of 16777216 (sys_ok 0) (string_params (\<lambda>_. 0)) ''db'' 0 [sample_call 1 2] = Some ([Ok], a)"
    "length (mf_bytes (fd_file a)) = 16" "mf_capacity (fd_file a) = kSegmentSize" "\<not> mf_readonly (fd_file a)" using sample_fits by blast
  obtain b where b: "file_dict_of 16777216 (sys_ok 0) (string_params (\<lambda>_. 0)) ''db'' 0 [sample_call 3 4] = Some ([Ok], b)"
    "length (mf_bytes (fd_file b)) = 16" using sample_fits by blast
  have "length [sample_call 1 2] + length [sample_call 3 4] \<le> 2 ^ 20" "(2 :: nat) ^ 23 < 16777216" by simp_all
  moreover have "fits (sys_ok 0) (length (mf_bytes (fd_file b))) (fd_file a)" using a b by (simp add: fits_def kSegmentSize_def)
  ultimately have "\<exists>m. file_Merge 16777216 (sys_ok 0) (string_params (\<lambda>_. 0)) False b a = Some (Ok, m)
    \<and> (\<forall>k. file_Get 16777216 (string_params (\<lambda>_. 0)) k m
         = Some (lookup_result (map_of (rev (accepted [sample_call 1 2] [Ok] @ accepted [sample_call 3 4] [Ok])) k)))"
    using rdict_file_merge[OF _ _ sample_calls_valid sample_calls_valid refl a(1) b(1), of "sys_ok 0"] by (auto simp: sample_call_def)
  then obtain m where "file_Merge 16777216 (sys_ok 0) (string_params (\<lambda>_. 0)) False b a = Some (Ok, m)"
    "file_Get 16777216 (string_params (\<lambda>_. 0)) [3] m
         = Some (lookup_result (map_of (rev (accepted [sample_call 1 2] [Ok] @ accepted [sample_call 3 4] [Ok])) [3]))" by blast
  then show ?thesis using a(1) b(1) by (auto simp: sample_call_def lookup_result_def)
qed

theorem rdict_merge_dangling_witness:
  "\<exists>a b a1 m. file_dict_of 16777216 (sys_ok 0) (string_params (\<lambda>_. 0)) ''db'' 0 [sample_call 1 2] = Some ([Ok], a)
    \<and> file_dict_of 16777216 (sys_ok 0) (string_params (\<lambda>_. 0)) ''db'' 0 [sample_call 3 4] = Some ([Ok], b)
    \<and> file_Commit (sys_ok 0) True a = (Ok, a1)
    \<and> file_Merge 16777216 (sys_ok 0) (string_params (\<lambda>_. 0)) False b a1 = Some (PermissionDenied ''unable to write readonly data'', m)
    \<and> file_Get 16777216 (string_params (\<lambda>_. 0)) [3] m = None"
proof -
  obtain a where a: "file_dict_of 16777216 (sys_ok 0) (string_params (\<lambda>_. 0)) ''db'' 0 [sample_call 1 2] = Some ([Ok], a)" using sample_fits by blast
  obtain b where b: "file_dict_of 16777216 (sys_ok 0) (string_params (\<lambda>_. 0)) ''db'' 0 [sample_call 3 4] = Some ([Ok], b)" using sample_fits by blast
  obtain a1 where c: "file_Commit (sys_ok 0) True a = (Ok, a1)" by (simp add: file_Commit_def ShrinkToFit_def sys_ok_def)
  have "length [sample_call 1 2] + length [sample_call 3 4] \<le> 2 ^ 20" "(2 :: nat) ^ 23 < 16777216" by simp_all
  from rdict_merge_dangling[OF this sample_calls_valid sample_calls_valid refl a b c, of "sys_ok 0"]
  obtain m where "file_Merge 16777216 (sys_ok 0) (string_params (\<lambda>_. 0)) False b a1 = Some (PermissionDenied ''unable to write readonly data'', m)"
    "file_Get 16777216 (string_params (\<lambda>_. 0)) [3] m = None" by (auto simp: sample_call_def)
  then show ?thesis using a b c by blast
qed

end
