(* ===== verification/Spec2Isabelle.thy ===== *)
theory Spec2Isabelle
  imports RobimsCache RobimsDbProps DidagleExecProps RdictFileRun
begin

text \<open>
  Verification of \<^verbatim>\<open>myctk\<close>.
\<close>

end
